(* ===== verification/Prelude.thy ===== *)
theory Prelude
  imports Main "HOL-Library.Word" "HOL-Library.Monad_Syntax" "HOL-Library.Multiset"
begin

text \<open>
  Types, automation and generic lemmas that every component of the msgbox model shares.

  \<^item> Machine integers are words of their C width; a \<open>void *\<close> (a user context, or a reply id
    cast to a pointer) is a 64-bit word whose null value is 0.
  \<^item> A computation that may run into undefined behaviour of C (a dangling pointer, an access
    outside a buffer, an indeterminate automatic variable) or that may not return has a result
    in \<open>option\<close>: \<open>None\<close> is "no defined result". The functions are written with the
    \<open>do\<close> notation of the option monad.
  \<^item> Memory is little-endian, as on the machines that the code is built for.
\<close>

unbundle bit_operations_syntax

type_synonym u8 = "8 word"
type_synonym u16 = "16 word"
type_synonym u32 = "32 word"
type_synonym vptr = "64 word"
type_synonym bytes = "u8 list"

named_theorems array_simps \<open>contents of an array after an operation\<close>
named_theorems array_invs \<open>operations keep the array invariant\<close>
named_theorems word_io \<open>bytes in memory against machine words\<close>
named_theorems frame_simps \<open>fields that an operation leaves alone\<close>
named_theorems keeps \<open>operations keep the invariant of the library state\<close>

abbreviation null :: vptr where "null \<equiv> 0"

section \<open>The option monad\<close>

text \<open>\<open>req b\<close> is the check whose failure is undefined behaviour in C.\<close>

definition req :: "bool \<Rightarrow> unit option" where
  "req b = (if b then Some () else None)"

lemma req_simps [simp]: "req True = Some ()" "req False = None"
  by (simp_all add: req_def)

lemma req_eq_Some [simp]: "req b = Some u \<longleftrightarrow> b"
  by (simp add: req_def)

lemma bind_SomeE:
  assumes "Option.bind m f = Some y"
  obtains x where "m = Some x" and "f x = Some y"
  using assms by (cases m) auto

lemma bind_Some_iff [simp]: "Option.bind m f = Some y \<longleftrightarrow> (\<exists>x. m = Some x \<and> f x = Some y)"
  by (cases m) auto

lemma case_prod_Some_iff:
  "(case p of (a, b) \<Rightarrow> f a b) = Some y \<longleftrightarrow> (\<exists>a b. p = (a, b) \<and> f a b = Some y)"
  by (cases p) simp

lemma case_option_Some_iff:
  "(case x of None \<Rightarrow> a | Some v \<Rightarrow> f v) = Some y \<longleftrightarrow>
     (x = None \<and> a = Some y) \<or> (\<exists>v. x = Some v \<and> f v = Some y)"
  by (cases x) simp_all

lemma if_Some_iff: "(if b then p else q) = Some y \<longleftrightarrow> (b \<and> p = Some y) \<or> (\<not> b \<and> q = Some y)"
  by simp

text \<open>A run that has a result, decomposed into the runs of its steps.\<close>

lemmas run_iffs = Let_def case_prod_Some_iff case_option_Some_iff if_Some_iff

section \<open>Lists\<close>

lemma take_Suc_update_length:
  "n < length xs \<Longrightarrow> take (Suc n) (xs[n := x]) = take n xs @ [x]"
  by (simp add: take_Suc_conv_app_nth)

lemma map_the_Some [simp]: "map the (map Some xs) = xs"
  by (induction xs) simp_all

lemma map_Some_the: "(\<forall>x \<in> set xs. x \<noteq> None) \<Longrightarrow> map Some (map the xs) = xs"
  by (induction xs) auto

lemma mset_remove_nth:
  "i < length xs \<Longrightarrow> mset (take i xs @ drop (Suc i) xs) = mset xs - {#xs ! i#}"
  by (metis add_mset_remove_trivial id_take_nth_drop mset.simps(2) mset_append union_mset_add_mset_right)

lemma distinct_remove_nth: "distinct xs \<Longrightarrow> distinct (take i xs @ drop (Suc i) xs)"
  by (simp add: set_take_disj_set_drop_if_distinct)

lemma butlast_update_mset:
  assumes "i < length xs"
  shows "add_mset (xs ! i) (mset (butlast (xs[i := last xs]))) = mset xs"
proof -
  let ?ys = "xs[i := last xs]"
  from assms have ne: "?ys \<noteq> []" "xs \<noteq> []" by auto
  have last: "last ?ys = last xs"
    using assms by (cases "i = length xs - 1") (simp_all add: last_conv_nth ne)
  have "mset ?ys = add_mset (last xs) (mset xs - {#xs ! i#})"
    using assms by (simp add: mset_update)
  moreover have "mset ?ys = add_mset (last ?ys) (mset (butlast ?ys))"
    using ne by (metis append_butlast_last_id mset.simps(1,2) mset_append union_mset_add_mset_right add.right_neutral)
  ultimately have "mset (butlast ?ys) = mset xs - {#xs ! i#}"
    by (simp add: last)
  with assms show ?thesis by simp
qed

section \<open>Words in memory\<close>

lemma u8_no_bit [simp]: "8 \<le> n \<Longrightarrow> \<not> bit (a :: u8) n"
  by (auto dest: bit_imp_le_length)

text \<open>The bytes of a 16-bit and a 32-bit integer as they lie in little-endian memory, and back.\<close>

definition le16 :: "u16 \<Rightarrow> bytes" where
  "le16 w = [ucast w, ucast (drop_bit 8 w)]"

definition le32 :: "u32 \<Rightarrow> bytes" where
  "le32 w = [ucast w, ucast (drop_bit 8 w), ucast (drop_bit 16 w), ucast (drop_bit 24 w)]"

fun of_le16 :: "bytes \<Rightarrow> u16" where
  "of_le16 [a, b] = ucast a OR push_bit 8 (ucast b)"
| "of_le16 _ = 0"

fun of_le32 :: "bytes \<Rightarrow> u32" where
  "of_le32 [a, b, c, d] = ucast a OR push_bit 8 (ucast b) OR push_bit 16 (ucast c)
     OR push_bit 24 (ucast d)"
| "of_le32 _ = 0"

lemma length_le16 [simp]: "length (le16 w) = 2"
  by (simp add: le16_def)

lemma length_le32 [simp]: "length (le32 w) = 4"
  by (simp add: le32_def)

lemma of_le16_le16 [simp, word_io]: "of_le16 (le16 w) = w"
  by (rule bit_word_eqI) (auto simp: le16_def bit_simps)

lemma of_le32_le32 [simp, word_io]: "of_le32 (le32 w) = w"
proof (rule bit_word_eqI)
  fix n assume "n < LENGTH(32)"
  then consider "n < 8" | "8 \<le> n" "n < 16" | "16 \<le> n" "n < 24" | "24 \<le> n" "n < 32" by fastforce
  then show "bit (of_le32 (le32 w)) n = bit w n"
    by cases (auto simp: le32_def bit_simps)
qed

lemma le16_of_le16 [word_io]: "length bs = 2 \<Longrightarrow> le16 (of_le16 bs) = bs"
  by (cases bs rule: of_le16.cases)
    (auto simp: le16_def intro!: bit_word_eqI simp: bit_simps)

lemma le32_of_le32 [word_io]: "length bs = 4 \<Longrightarrow> le32 (of_le32 bs) = bs"
  by (cases bs rule: of_le32.cases)
    (auto simp: le32_def intro!: bit_word_eqI simp: bit_simps)

lemma le16_inject [simp]: "le16 v = le16 w \<longleftrightarrow> v = w"
  by (metis of_le16_le16)

lemma le32_inject [simp]: "le32 v = le32 w \<longleftrightarrow> v = w"
  by (metis of_le32_le32)

text \<open>Conversion between host and network order reverses the bytes.\<close>

definition htons :: "u16 \<Rightarrow> u16" where "htons w = of_le16 (rev (le16 w))"
definition htonl :: "u32 \<Rightarrow> u32" where "htonl w = of_le32 (rev (le32 w))"
definition ntohs :: "u16 \<Rightarrow> u16" where "ntohs w = of_le16 (rev (le16 w))"
definition ntohl :: "u32 \<Rightarrow> u32" where "ntohl w = of_le32 (rev (le32 w))"

lemma le16_htons [word_io]: "le16 (htons w) = rev (le16 w)"
  by (simp add: htons_def le16_of_le16)

lemma le32_htonl [word_io]: "le32 (htonl w) = rev (le32 w)"
  by (simp add: htonl_def le32_of_le32)

lemma ntohs_htons [simp]: "ntohs (htons w) = w"
  by (simp add: ntohs_def le16_htons)

lemma ntohl_htonl [simp]: "ntohl (htonl w) = w"
  by (simp add: ntohl_def le32_htonl)

end
