(* ===== verification/MsgTypes.thy ===== *)
theory MsgTypes
  imports Prelude
begin

text \<open>
  The data of msgbox/msgbox.h and the wire header of msgbox/msgbox.c.

  A connection object is named by a \<open>conn_ptr\<close> and a callback function by a \<open>callback_id\<close>. A
  \<open>msg_Data\<close> points into a buffer that \<open>msg_new_data_space\<close> allocated: \<open>data_bytes\<close> is the
  buffer's name and the offset of the pointer from the first message byte (\<open>None\<close> is NULL); the
  preamble of the buffer is its \<open>Metadata\<close>, whose last part is the \<open>Header\<close>.
\<close>

type_synonym conn_ptr = nat
type_synonym callback_id = nat
type_synonym buf_id = nat

record msg_Data =
  num_bytes :: nat
  data_bytes :: "(buf_id \<times> nat) option"

definition msg_no_data :: msg_Data where
  "msg_no_data = \<lparr>num_bytes = 0, data_bytes = None\<rparr>"

datatype msg_Event =
    msg_message
  | msg_request
  | msg_reply
  | msg_listening
  | msg_listening_ended
  | msg_connection_ready
  | msg_connection_closed
  | msg_connection_lost
  | msg_error

text \<open>The events have the integer values of their enumeration, and are ordered by them.\<close>

fun event_code :: "msg_Event \<Rightarrow> nat" where
  "event_code msg_message = 0"
| "event_code msg_request = 1"
| "event_code msg_reply = 2"
| "event_code msg_listening = 3"
| "event_code msg_listening_ended = 4"
| "event_code msg_connection_ready = 5"
| "event_code msg_connection_closed = 6"
| "event_code msg_connection_lost = 7"
| "event_code msg_error = 8"

lemma event_code_eq [simp]: "event_code a = event_code b \<longleftrightarrow> a = b"
  by (cases a; cases b) simp_all

instantiation msg_Event :: linorder
begin

definition less_eq_msg_Event :: "msg_Event \<Rightarrow> msg_Event \<Rightarrow> bool" where
  "less_eq_msg_Event a b \<longleftrightarrow> event_code a \<le> event_code b"

definition less_msg_Event :: "msg_Event \<Rightarrow> msg_Event \<Rightarrow> bool" where
  "less_msg_Event a b \<longleftrightarrow> event_code a < event_code b"

instance
  by standard (auto simp: less_eq_msg_Event_def less_msg_Event_def)

end

record msg_Conn =
  conn_context :: vptr
  reply_context :: vptr
  callback :: callback_id
  remote_ip :: u32
  remote_port :: u16
  protocol_type :: u16
  socket :: int
  for_listening :: bool
  reply_id :: u16
  index :: nat

text \<open>\<open>SOCK_STREAM\<close> and \<open>SOCK_DGRAM\<close>.\<close>

definition msg_tcp :: u16 where "msg_tcp = 1"
definition msg_udp :: u16 where "msg_udp = 2"

lemma tcp_udp [simp]: "msg_tcp \<noteq> msg_udp" "msg_udp \<noteq> msg_tcp"
  by (simp_all add: msg_tcp_def msg_udp_def)

section \<open>Addresses\<close>

record Address =
  ip :: u32
  port :: u16
  addr_protocol :: u16

text \<open>
  \<open>address_of_conn\<close> reads the three consecutive fields of a connection as an \<open>Address\<close>;
  \<open>set_address_of_conn\<close> is the assignment through that pointer.
\<close>

definition address_of_conn :: "msg_Conn \<Rightarrow> Address" where
  "address_of_conn c = \<lparr>ip = remote_ip c, port = remote_port c, addr_protocol = protocol_type c\<rparr>"

definition set_address_of_conn :: "Address \<Rightarrow> msg_Conn \<Rightarrow> msg_Conn" where
  "set_address_of_conn a c =
     c\<lparr>remote_ip := ip a, remote_port := port a, protocol_type := addr_protocol a\<rparr>"

lemma address_of_set [simp]: "address_of_conn (set_address_of_conn a c) = a"
  by (simp add: address_of_conn_def set_address_of_conn_def)

lemma set_address_of [simp]: "set_address_of_conn (address_of_conn c) c = c"
  by (simp add: address_of_conn_def set_address_of_conn_def)

lemma set_address_simps [simp]:
  "index (set_address_of_conn a c) = index c" "socket (set_address_of_conn a c) = socket c"
  "callback (set_address_of_conn a c) = callback c"
  "for_listening (set_address_of_conn a c) = for_listening c"
  "conn_context (set_address_of_conn a c) = conn_context c"
  "reply_context (set_address_of_conn a c) = reply_context c"
  "reply_id (set_address_of_conn a c) = reply_id c"
  by (simp_all add: set_address_of_conn_def)

section \<open>Headers\<close>

text \<open>The message types, in the order of the enumeration.\<close>

definition msg_type_one_way :: u16 where "msg_type_one_way = 0"
definition msg_type_request :: u16 where "msg_type_request = 1"
definition msg_type_reply :: u16 where "msg_type_reply = 2"
definition msg_type_heartbeat :: u16 where "msg_type_heartbeat = 3"
definition msg_type_close :: u16 where "msg_type_close = 4"

lemmas msg_type_defs = msg_type_one_way_def msg_type_request_def msg_type_reply_def
  msg_type_heartbeat_def msg_type_close_def

record Header =
  message_type :: u16
  hdr_reply_id :: u16
  hdr_num_bytes :: u32

definition header_len :: nat where "header_len = 8"

record Metadata =
  md_reply_context :: vptr
  md_remote_address :: Address
  md_header :: Header

text \<open>A header as it lies in memory, and a header read from eight bytes of memory.\<close>

definition header_bytes :: "Header \<Rightarrow> bytes" where
  "header_bytes h = le16 (message_type h) @ le16 (hdr_reply_id h) @ le32 (hdr_num_bytes h)"

definition header_of_bytes :: "bytes \<Rightarrow> Header" where
  "header_of_bytes bs =
     \<lparr>message_type = of_le16 (take 2 bs), hdr_reply_id = of_le16 (take 2 (drop 2 bs)),
      hdr_num_bytes = of_le32 (take 4 (drop 4 bs))\<rparr>"

lemma length_header_bytes [simp]: "length (header_bytes h) = header_len"
  by (simp add: header_bytes_def header_len_def)

lemma header_of_bytes_bytes [simp]: "header_of_bytes (header_bytes h) = h"
  by (simp add: header_bytes_def header_of_bytes_def)

lemma header_bytes_of_bytes: "length bs = header_len \<Longrightarrow> header_bytes (header_of_bytes bs) = bs"
proof -
  assume len: "length bs = header_len"
  have "take 2 bs @ take 2 (drop 2 bs) @ take 4 (drop 4 bs) = bs"
    using take_add [of 2 2 bs] take_add [of 4 4 bs] len by (simp add: header_len_def)
  then show ?thesis
    using len by (simp add: header_bytes_def header_of_bytes_def le16_of_le16 le32_of_le32 header_len_def)
qed

text \<open>What \<open>set_header\<close> stores, and the conversion that \<open>read_header\<close> makes.\<close>

definition network_header :: "u16 \<Rightarrow> u16 \<Rightarrow> u32 \<Rightarrow> Header" where
  "network_header msg_type rid num =
     \<lparr>message_type = htons msg_type, hdr_reply_id = htons rid, hdr_num_bytes = htonl num\<rparr>"

definition host_header :: "Header \<Rightarrow> Header" where
  "host_header h =
     \<lparr>message_type = ntohs (message_type h), hdr_reply_id = ntohs (hdr_reply_id h),
      hdr_num_bytes = ntohl (hdr_num_bytes h)\<rparr>"

lemma host_network_header [simp]:
  "host_header (network_header t r n) = \<lparr>message_type = t, hdr_reply_id = r, hdr_num_bytes = n\<rparr>"
  by (simp add: host_header_def network_header_def)

end
