(* ===== verification/CArray.thy ===== *)
theory CArray
  imports Prelude
begin

text \<open>
  The growable array of cstructs/array.c and array.h, with the two array helpers that
  msgbox/msgbox.c adds to it.

  An \<open>ArrayStruct\<close> is a \<open>carray\<close>: \<open>items\<close> is the buffer, one slot per \<open>item_size\<close> bytes, so it
  has \<open>capacity\<close> slots, and the slots from \<open>a_count\<close> on hold what was left there. A slot is
  \<open>None\<close> while its memory is indeterminate (fresh from \<open>malloc\<close> or \<open>realloc\<close>). A pointer to an
  item is the index of its slot. \<open>releaser\<close> says whether the array has a releaser, and
  \<open>released\<close> logs the items it was called on, in order.
\<close>

record 'a carray =
  a_count :: nat
  capacity :: nat
  items :: "'a option list"
  releaser :: bool
  released :: "'a option list"

section \<open>Operations of array.c\<close>

definition array__init :: "int \<Rightarrow> 'a carray" where
  "array__init cap =
     (let cap = (if cap < 1 then 1 else cap) in
      \<lparr>a_count = 0, capacity = nat cap, items = replicate (nat cap) None,
       releaser = False, released = []\<rparr>)"

definition array__new :: "int \<Rightarrow> 'a carray" where
  "array__new cap = array__init cap"

definition array__clear :: "'a carray \<Rightarrow> 'a carray" where
  "array__clear a =
     (let a = (if releaser a then a\<lparr>released := released a @ take (a_count a) (items a)\<rparr> else a)
      in a\<lparr>a_count := 0\<rparr>)"

definition array__release :: "'a carray \<Rightarrow> 'a carray" where
  "array__release a = (array__clear a)\<lparr>items := [], capacity := 0\<rparr>"

text \<open>\<open>array__delete\<close> frees the struct as well; what remains is the log of released items.\<close>

definition array__delete :: "'a carray \<Rightarrow> 'a option list" where
  "array__delete a = released (array__release a)"

text \<open>Reading an item through its pointer: no value outside the buffer or in an indeterminate slot.\<close>

definition array__item_val :: "'a carray \<Rightarrow> nat \<Rightarrow> 'a option" where
  "array__item_val a i = (if i < length (items a) then items a ! i else None)"

text \<open>Writing through an item pointer, \<open>*array__item_ptr(a, i) = x\<close>.\<close>

definition array__item_set :: "'a carray \<Rightarrow> nat \<Rightarrow> 'a \<Rightarrow> 'a carray option" where
  "array__item_set a i x =
     (if i < length (items a) then Some (a\<lparr>items := (items a)[i := Some x]\<rparr>) else None)"

definition realloc_slots :: "'a option list \<Rightarrow> nat \<Rightarrow> 'a option list" where
  "realloc_slots xs n = take n xs @ replicate (n - length xs) None"

definition array__new_ptr :: "'a carray \<Rightarrow> nat \<times> 'a carray" where
  "array__new_ptr a =
     (let a = (if a_count a = capacity a then
                 (let c = capacity a * 2; c = (if c = 0 then 1 else c)
                  in a\<lparr>capacity := c, items := realloc_slots (items a) c\<rparr>)
               else a);
          a = a\<lparr>a_count := a_count a + 1\<rparr>
      in (a_count a - 1, a))"

definition array__add_item_ptr :: "'a carray \<Rightarrow> 'a \<Rightarrow> 'a carray" where
  "array__add_item_ptr a x =
     (let (p, a) = array__new_ptr a in a\<lparr>items := (items a)[p := Some x]\<rparr>)"

text \<open>The doubling loop of \<open>array__add_zeroed_items\<close>.\<close>

function grow_capacity :: "nat \<Rightarrow> nat \<Rightarrow> nat" where
  "grow_capacity cap new_count =
     (if cap < new_count
      then grow_capacity (let c = cap * 2 in if c = 0 then 1 else c) new_count
      else cap)"
  by pat_completeness auto
termination
  by (relation "measure (\<lambda>(cap, new_count). new_count - cap)") (auto simp: Let_def)

declare grow_capacity.simps [simp del]

definition array__add_zeroed_items :: "'a \<Rightarrow> 'a carray \<Rightarrow> nat \<Rightarrow> 'a carray" where
  "array__add_zeroed_items zero a num_items =
     (let new_count = a_count a + num_items;
          cap = grow_capacity (capacity a) new_count;
          a = (if cap \<noteq> capacity a
               then a\<lparr>capacity := cap, items := realloc_slots (items a) cap\<rparr> else a);
          zeroed = take (a_count a) (items a) @ replicate num_items (Some zero)
                     @ drop (a_count a + num_items) (items a)
      in a\<lparr>items := zeroed, a_count := new_count\<rparr>)"

text \<open>\<open>memmove\<close> of \<open>n\<close> slots inside a buffer, and \<open>memcpy\<close> of given slots into it.\<close>

definition memmove_slots :: "'b list \<Rightarrow> nat \<Rightarrow> nat \<Rightarrow> nat \<Rightarrow> 'b list" where
  "memmove_slots xs dst src n = take dst xs @ take n (drop src xs) @ drop (dst + n) xs"

definition memcpy_slots :: "'b list \<Rightarrow> nat \<Rightarrow> 'b list \<Rightarrow> 'b list" where
  "memcpy_slots xs dst ys = take dst xs @ ys @ drop (dst + length ys) xs"

definition array__insert_items :: "'a \<Rightarrow> 'a carray \<Rightarrow> nat \<Rightarrow> 'a list \<Rightarrow> 'a carray option" where
  "array__insert_items zero a index xs = do {
     req (index \<le> a_count a);
     let num_suffix = a_count a - index;
     let a = array__add_zeroed_items zero a (length xs);
     let moved = memmove_slots (items a) (index + length xs) index num_suffix;
     Some (a\<lparr>items := memcpy_slots moved index (map Some xs)\<rparr>)
   }"

text \<open>The loop of \<open>array__append_array\<close> from index \<open>i\<close> of \<open>src\<close>.\<close>

function append_from :: "'a carray \<Rightarrow> 'a carray \<Rightarrow> nat \<Rightarrow> 'a carray option" where
  "append_from dst src i =
     (if i < a_count src
      then do { x \<leftarrow> array__item_val src i; append_from (array__add_item_ptr dst x) src (Suc i) }
      else Some dst)"
  by pat_completeness auto
termination
  by (relation "measure (\<lambda>(dst, src, i). a_count src - i)") auto

declare append_from.simps [simp del]

definition array__append_array :: "'a carray \<Rightarrow> 'a carray \<Rightarrow> 'a carray option" where
  "array__append_array dst src = append_from dst src 0"

definition array__index_of :: "'a carray \<Rightarrow> nat \<Rightarrow> nat" where
  "array__index_of a item = item"

definition array__remove_item :: "'a carray \<Rightarrow> nat \<Rightarrow> 'a carray option" where
  "array__remove_item a item = do {
     req (item < a_count a \<and> item < length (items a));
     let a = (if releaser a then a\<lparr>released := released a @ [items a ! item]\<rparr> else a);
     let num_left = a_count a - 1;
     let a = a\<lparr>a_count := num_left\<rparr>;
     let index = array__index_of a item;
     if index = num_left then Some a
     else Some (a\<lparr>items := memmove_slots (items a) item (item + 1) (num_left - index)\<rparr>)
   }"

section \<open>Array helpers of msgbox.c\<close>

definition array__remove_last :: "'a carray \<Rightarrow> 'a carray option" where
  "array__remove_last a = do { req (0 < a_count a); array__remove_item a (a_count a - 1) }"

text \<open>
  \<open>array__remove_and_fill\<close> checks nothing: an index at or beyond \<open>a_count\<close> overwrites a slot
  outside the array and still shortens the array by one.
\<close>

definition array__remove_and_fill :: "'a carray \<Rightarrow> nat \<Rightarrow> 'a carray option" where
  "array__remove_and_fill a index = do {
     req (0 < a_count a \<and> a_count a \<le> length (items a) \<and> index < length (items a));
     let last_elt = a_count a - 1;
     let a = (if releaser a then a\<lparr>released := released a @ [items a ! index]\<rparr> else a);
     let a = (if index \<noteq> last_elt
              then a\<lparr>items := (items a)[index := items a ! last_elt]\<rparr> else a);
     Some (a\<lparr>a_count := a_count a - 1\<rparr>)
   }"

section \<open>Contents and invariant\<close>

definition array_list :: "'a carray \<Rightarrow> 'a list" where
  "array_list a = map the (take (a_count a) (items a))"

definition array_inv :: "'a carray \<Rightarrow> bool" where
  "array_inv a \<longleftrightarrow> a_count a \<le> capacity a \<and> 0 < capacity a \<and> length (items a) = capacity a \<and>
     (\<forall>x \<in> set (take (a_count a) (items a)). x \<noteq> None)"

lemma array_invD:
  assumes "array_inv a"
  shows "a_count a \<le> length (items a)" "length (items a) = capacity a" "a_count a \<le> capacity a"
    "0 < capacity a" "take (a_count a) (items a) = map Some (array_list a)"
  using assms
  by (simp_all add: array_inv_def array_list_def map_Some_the del: map_map)

lemma length_array_list: "array_inv a \<Longrightarrow> length (array_list a) = a_count a"
  by (simp add: array_list_def array_inv_def)

lemma array_invI:
  assumes "take n (items a) = map Some xs" "a_count a = n" "n \<le> capacity a" "0 < capacity a"
    "length (items a) = capacity a"
  shows "array_inv a" "array_list a = xs"
  using assms by (auto simp: array_inv_def array_list_def)

lemma array_item_val [array_simps]:
  assumes "array_inv a" "i < a_count a"
  shows "array__item_val a i = Some (array_list a ! i)"
proof -
  have "i < length (items a)" using assms array_invD(1) by fastforce
  moreover have "items a ! i = take (a_count a) (items a) ! i" using assms by simp
  ultimately show ?thesis
    using assms by (simp add: array__item_val_def array_invD(5) length_array_list)
qed

subsection \<open>Each operation on the contents\<close>

lemma array_new_list [array_simps]: "array_list (array__new c) = []"
  by (simp add: array__new_def array__init_def array_list_def Let_def)

lemma array_new_inv [array_invs]: "array_inv (array__new c)"
  by (simp add: array__new_def array__init_def array_inv_def Let_def)

lemma array_clear_list [array_simps]: "array_list (array__clear a) = []"
  by (simp add: array__clear_def array_list_def Let_def)

lemma array_clear_inv [array_invs]: "array_inv a \<Longrightarrow> array_inv (array__clear a)"
  by (simp add: array__clear_def array_inv_def Let_def)

lemma array_clear_count [simp]: "a_count (array__clear a) = 0"
  by (simp add: array__clear_def Let_def)

lemma array_new_count [simp]: "a_count (array__new c) = 0"
  by (simp add: array__new_def array__init_def Let_def)

lemma realloc_slots_grow:
  "length xs \<le> n \<Longrightarrow> realloc_slots xs n = xs @ replicate (n - length xs) None"
  by (simp add: realloc_slots_def)

lemma array_new_ptr_facts:
  assumes "array_inv a"
  shows "fst (array__new_ptr a) = a_count a"
    and "a_count (snd (array__new_ptr a)) = Suc (a_count a)"
    and "a_count a < capacity (snd (array__new_ptr a))"
    and "length (items (snd (array__new_ptr a))) = capacity (snd (array__new_ptr a))"
    and "take (a_count a) (items (snd (array__new_ptr a))) = take (a_count a) (items a)"
  using assms by (auto simp: array__new_ptr_def Let_def array_inv_def realloc_slots_grow)

lemma array_add_facts:
  assumes "array_inv a"
  shows "array_inv (array__add_item_ptr a x)"
    and "array_list (array__add_item_ptr a x) = array_list a @ [x]"
proof -
  let ?b = "snd (array__new_ptr a)" and ?c = "array__add_item_ptr a x"
  note f = array_new_ptr_facts [OF assms]
  have c: "?c = ?b\<lparr>items := (items ?b)[a_count a := Some x]\<rparr>"
    using f(1) by (cases "array__new_ptr a") (simp add: array__add_item_ptr_def)
  have "take (Suc (a_count a)) (items ?c) = take (a_count a) (items ?b) @ [Some x]"
    using f(3,4) by (simp add: c take_Suc_update_length)
  also have "\<dots> = map Some (array_list a @ [x])"
    using f(5) array_invD(5) [OF assms] by simp
  finally have t: "take (Suc (a_count a)) (items ?c) = map Some (array_list a @ [x])" .
  show "array_inv ?c" "array_list ?c = array_list a @ [x]"
    using array_invI [OF t] f by (simp_all add: c)
qed

lemmas array_add_inv [array_invs] = array_add_facts(1)
lemmas array_add_list [array_simps] = array_add_facts(2)

lemma array_add_count [simp]: "a_count (array__add_item_ptr a x) = Suc (a_count a)"
  by (simp add: array__add_item_ptr_def array__new_ptr_def Let_def)

lemma grow_capacity_ge: "new_count \<le> grow_capacity cap new_count \<and> cap \<le> grow_capacity cap new_count"
proof (induction cap new_count rule: grow_capacity.induct)
  case (1 cap new_count)
  then show ?case
    by (cases "cap < new_count") (auto simp: grow_capacity.simps [of cap new_count] Let_def split: if_splits)
qed

lemma grow_capacity_le:
  "grow_capacity cap new_count \<le> max cap (2 * new_count)"
proof (induction cap new_count rule: grow_capacity.induct)
  case (1 cap new_count)
  show ?case
  proof (cases "cap < new_count")
    case True
    then have "grow_capacity cap new_count \<le> max (let c = cap * 2 in if c = 0 then 1 else c) (2 * new_count)"
      using 1 by (simp add: grow_capacity.simps [of cap new_count])
    also have "\<dots> \<le> max cap (2 * new_count)" using True by (auto simp: Let_def)
    finally show ?thesis .
  next
    case False
    then show ?thesis by (simp add: grow_capacity.simps [of cap new_count])
  qed
qed

lemma array_zeroed_facts:
  assumes "array_inv a"
  shows "array_inv (array__add_zeroed_items z a n)"
    and "array_list (array__add_zeroed_items z a n) = array_list a @ replicate n z"
    and "a_count (array__add_zeroed_items z a n) = a_count a + n"
proof -
  let ?new = "a_count a + n"
  let ?cap = "grow_capacity (capacity a) ?new"
  define b where
    "b = (if ?cap \<noteq> capacity a then a\<lparr>capacity := ?cap, items := realloc_slots (items a) ?cap\<rparr> else a)"
  let ?c = "array__add_zeroed_items z a n"
  have cap: "?new \<le> ?cap" "capacity a \<le> ?cap"
    using grow_capacity_ge [of ?new "capacity a"] by auto
  note a = array_invD [OF assms]
  have b: "length (items b) = ?cap" "capacity b = ?cap" "a_count b = a_count a"
    "take (a_count a) (items b) = take (a_count a) (items a)"
    using a cap by (auto simp: b_def realloc_slots_grow)
  have c: "?c = b\<lparr>items := take (a_count a) (items b) @ replicate n (Some z)
      @ drop (a_count a + n) (items b), a_count := ?new\<rparr>"
    using b(3) by (simp add: array__add_zeroed_items_def Let_def b_def)
  have "length (take (a_count a) (items b)) = a_count a" using b a cap by (simp add: length_array_list [OF assms])
  then have t: "take ?new (items ?c) = map Some (array_list a @ replicate n z)"
    using b(4) a(5) by (simp add: c length_array_list [OF assms])
  have "length (items ?c) = capacity ?c" "a_count ?c = ?new" "capacity ?c = ?cap"
    using b(1-3) cap a(1) b(4) by (simp_all add: c min_absorb2)
  then show "array_inv ?c" "array_list ?c = array_list a @ replicate n z" "a_count ?c = ?new"
    using array_invI [OF t] cap a(4) by simp_all
qed

lemmas array_zeroed_inv [array_invs] = array_zeroed_facts(1)
lemmas array_zeroed_list [array_simps] = array_zeroed_facts(2)

lemma array_set_facts:
  assumes "array_inv a" "i < a_count a"
  shows "\<exists>b. array__item_set a i x = Some b \<and> array_inv b \<and> array_list b = (array_list a)[i := x]
    \<and> a_count b = a_count a"
proof -
  note a = array_invD [OF assms(1)]
  let ?b = "a\<lparr>items := (items a)[i := Some x]\<rparr>"
  have "take (a_count a) (items ?b) = map Some ((array_list a)[i := x])"
    using a(5) by (simp add: take_update_swap map_update)
  from array_invI [OF this] have "array_inv ?b" "array_list ?b = (array_list a)[i := x]"
    using a by simp_all
  moreover have "array__item_set a i x = Some ?b"
    using assms a(1) by (simp add: array__item_set_def)
  ultimately show ?thesis by simp
qed

lemma array_remove_facts:
  assumes "array_inv a" "i < a_count a"
  shows "\<exists>b. array__remove_item a i = Some b \<and> array_inv b \<and>
    array_list b = take i (array_list a) @ drop (Suc i) (array_list a) \<and> a_count b = a_count a - 1"
proof -
  note a = array_invD [OF assms(1)]
  let ?n = "a_count a - 1"
  define a1 where "a1 = (if releaser a then a\<lparr>released := released a @ [items a ! i]\<rparr> else a)"
  define b where "b = (if i = ?n then a1\<lparr>a_count := ?n\<rparr>
     else a1\<lparr>a_count := ?n, items := memmove_slots (items a) i (i + 1) (?n - i)\<rparr>)"
  have a1: "items a1 = items a" "a_count a1 = a_count a" "capacity a1 = capacity a"
    by (simp_all add: a1_def)
  have run: "array__remove_item a i = Some b"
    using assms a(1) a1
    by (auto simp: array__remove_item_def Let_def array__index_of_def b_def a1_def)
  have items: "items a = map Some (array_list a) @ drop (a_count a) (items a)"
    using a(5) by (metis append_take_drop_id)
  have len: "length (array_list a) = a_count a" using assms by (simp add: length_array_list)
  have "take ?n (items b) = map Some (take i (array_list a) @ drop (Suc i) (array_list a))"
  proof (cases "i = ?n")
    case True
    have "take ?n (items a) = map Some (take ?n (array_list a))"
      using len by (subst items) (simp add: take_map)
    then show ?thesis using True len a1 by (simp add: b_def)
  next
    case False
    have "take (?n - i) (drop (i + 1) (items a)) = map Some (drop (Suc i) (array_list a))"
      using len assms(2) by (subst items) (simp add: drop_map)
    moreover have "take i (items a) = map Some (take i (array_list a))"
      using len assms(2) by (subst items) (simp add: take_map)
    ultimately show ?thesis
      using False len assms(2) by (simp add: b_def memmove_slots_def)
  qed
  moreover have "length (items b) = capacity b" "a_count b = ?n" "capacity b = capacity a"
    using a assms(2) a1 by (auto simp: b_def memmove_slots_def)
  ultimately show ?thesis
    using run array_invI [of ?n b] a by fastforce
qed

lemma array_remove_and_fill_facts:
  assumes "array_inv a" "i < a_count a"
  shows "\<exists>b. array__remove_and_fill a i = Some b \<and> array_inv b \<and>
    array_list b = butlast ((array_list a)[i := last (array_list a)]) \<and> a_count b = a_count a - 1"
proof -
  note a = array_invD [OF assms(1)]
  let ?n = "a_count a - 1"
  define a1 where "a1 = (if releaser a then a\<lparr>released := released a @ [items a ! i]\<rparr> else a)"
  define b where "b = (if i \<noteq> ?n then a1\<lparr>items := (items a)[i := items a ! ?n], a_count := ?n\<rparr>
     else a1\<lparr>a_count := ?n\<rparr>)"
  have a1: "items a1 = items a" "a_count a1 = a_count a" "capacity a1 = capacity a"
    by (simp_all add: a1_def)
  have run: "array__remove_and_fill a i = Some b"
    using assms a(1) a1 by (auto simp: array__remove_and_fill_def Let_def b_def a1_def)
  have len: "length (array_list a) = a_count a" using assms by (simp add: length_array_list)
  have last: "items a ! ?n = Some (last (array_list a))"
    using assms a(1) array_item_val [OF assms(1), of ?n] len
    by (cases "array_list a = []") (auto simp: array__item_val_def last_conv_nth split: if_splits)
  have "take ?n (items b) = butlast (take (a_count a) ((items a)[i := items a ! ?n]))"
    using assms a(1) a1 by (auto simp: b_def butlast_take)
  also have "\<dots> = butlast (map Some ((array_list a)[i := last (array_list a)]))"
    using a(5) last by (simp add: take_update_swap map_update)
  finally have "take ?n (items b) = map Some (butlast ((array_list a)[i := last (array_list a)]))"
    by (simp add: map_butlast)
  moreover have "length (items b) = capacity b" "a_count b = ?n" "capacity b = capacity a"
    using a assms(2) a1 by (auto simp: b_def)
  ultimately show ?thesis
    using run array_invI [of ?n b] a by fastforce
qed

lemma array_remove_last_facts:
  assumes "array_inv a" "0 < a_count a"
  shows "\<exists>b. array__remove_last a = Some b \<and> array_inv b \<and> array_list b = butlast (array_list a)
    \<and> a_count b = a_count a - 1"
  using array_remove_facts [OF assms(1), of "a_count a - 1"] assms
  by (auto simp: array__remove_last_def length_array_list butlast_conv_take)

lemma array_insert_facts:
  assumes "array_inv a" "index \<le> a_count a"
  shows "\<exists>b. array__insert_items z a index xs = Some b \<and> array_inv b \<and>
    array_list b = take index (array_list a) @ xs @ drop index (array_list a)"
proof -
  let ?z = "array__add_zeroed_items z a (length xs)" and ?L = "array_list a"
  note z = array_zeroed_facts [OF assms(1), of z "length xs"]
  note zi = array_invD [OF z(1)]
  have len: "length ?L = a_count a" using assms by (simp add: length_array_list)
  define rest where "rest = drop (a_count ?z) (items ?z)"
  have items: "items ?z = map Some (?L @ replicate (length xs) z) @ rest"
    using zi(5) z(2) by (metis append_take_drop_id rest_def)
  define moved where
    "moved = memmove_slots (items ?z) (index + length xs) index (a_count a - index)"
  have mv: "take index moved = map Some (take index ?L)"
    "drop (index + length xs) moved = map Some (drop index ?L) @ rest"
    using assms len by (simp_all add: moved_def memmove_slots_def items take_map drop_map)
  let ?b = "?z\<lparr>items := memcpy_slots moved index (map Some xs)\<rparr>"
  have items_b: "items ?b = map Some (take index ?L @ xs @ drop index ?L) @ rest"
    using mv by (simp add: memcpy_slots_def)
  have lens: "length (items ?b) = length (items ?z)"
    unfolding items_b items using assms len by simp
  have "take (a_count ?z) (items ?b) = map Some (take index ?L @ xs @ drop index ?L)"
    unfolding items_b z(3) using assms len by simp
  from array_invI [OF this] have "array_inv ?b"
    "array_list ?b = take index ?L @ xs @ drop index ?L"
    using zi lens by simp_all
  moreover have "array__insert_items z a index xs = Some ?b"
    using assms(2) by (simp add: array__insert_items_def Let_def moved_def)
  ultimately show ?thesis by blast
qed

lemma append_from_facts:
  assumes "array_inv dst" "array_inv src"
  shows "\<exists>b. append_from dst src i = Some b \<and> array_inv b \<and>
    array_list b = array_list dst @ drop i (array_list src)"
  using assms
proof (induction dst src i rule: append_from.induct)
  case (1 dst src i)
  show ?case
  proof (cases "i < a_count src")
    case True
    with 1 have "drop i (array_list src) = array_list src ! i # drop (Suc i) (array_list src)"
      by (simp add: Cons_nth_drop_Suc length_array_list)
    with True 1 show ?thesis
      by (simp add: append_from.simps [of dst src i] array_simps array_invs)
  next
    case False
    with 1 show ?thesis
      by (simp add: append_from.simps [of dst src i] length_array_list)
  qed
qed

lemma array_add_capacity:
  assumes "array_inv a"
  shows "capacity (array__add_item_ptr a x) \<le> max (capacity a) (2 * a_count a)"
    and "capacity a \<le> capacity (array__add_item_ptr a x)"
  using assms
  by (auto simp: array__add_item_ptr_def array__new_ptr_def Let_def array_inv_def)

lemma array_list_nth: "array_inv a \<Longrightarrow> array__item_val a i = Some x \<Longrightarrow> i < a_count a \<Longrightarrow>
    array_list a ! i = x"
  by (simp add: array_item_val)

section \<open>The array as an interface\<close>

text \<open>
  What the other components rely on: a sequence that is read by position, grows at the end and
  loses one position. \<open>contents\<close> is its abstract value. The lemmas of the locale are what a
  client does with it: building a queue, draining it in order.
\<close>

locale sequence =
  fixes inv :: "'v \<Rightarrow> bool"
    and contents :: "'v \<Rightarrow> 'a list"
    and empty :: "'v"
    and push :: "'v \<Rightarrow> 'a \<Rightarrow> 'v"
    and item :: "'v \<Rightarrow> nat \<Rightarrow> 'a option"
    and remove :: "'v \<Rightarrow> nat \<Rightarrow> 'v option"
  assumes empty_inv: "inv empty"
    and empty_contents: "contents empty = []"
    and push_inv: "inv v \<Longrightarrow> inv (push v x)"
    and push_contents: "inv v \<Longrightarrow> contents (push v x) = contents v @ [x]"
    and item_contents: "inv v \<Longrightarrow> i < length (contents v) \<Longrightarrow> item v i = Some (contents v ! i)"
    and remove_contents: "inv v \<Longrightarrow> i < length (contents v) \<Longrightarrow>
      \<exists>w. remove v i = Some w \<and> inv w \<and> contents w = take i (contents v) @ drop (Suc i) (contents v)"
begin

lemma push_all: "inv v \<Longrightarrow> inv (foldl push v xs) \<and> contents (foldl push v xs) = contents v @ xs"
  by (induction xs arbitrary: v) (simp_all add: push_inv push_contents)

lemma push_all_new: "inv (foldl push empty xs) \<and> contents (foldl push empty xs) = xs"
  using push_all [of empty xs] by (simp add: empty_inv empty_contents)

lemma item_push_all: "i < length xs \<Longrightarrow> item (foldl push empty xs) i = Some (xs ! i)"
  using push_all_new [of xs] by (simp add: item_contents)

lemma remove_first:
  assumes "inv v" "contents v = x # xs"
  shows "\<exists>w. remove v 0 = Some w \<and> inv w \<and> contents w = xs"
  using remove_contents [OF assms(1), of 0] assms(2) by simp

text \<open>Removing from the front one item at a time keeps the rest in order.\<close>

fun remove_firsts :: "nat \<Rightarrow> 'v \<Rightarrow> 'v option" where
  "remove_firsts 0 v = Some v"
| "remove_firsts (Suc n) v = Option.bind (remove v 0) (remove_firsts n)"

lemma remove_firsts_contents:
  assumes "inv v" "n \<le> length (contents v)"
  shows "\<exists>w. remove_firsts n v = Some w \<and> inv w \<and> contents w = drop n (contents v)"
  using assms
proof (induction n arbitrary: v)
  case 0
  then show ?case by simp
next
  case (Suc n)
  then obtain x xs where xs: "contents v = x # xs" by (cases "contents v") auto
  with remove_first [OF Suc.prems(1) xs] obtain w where
    w: "remove v 0 = Some w" "inv w" "contents w = xs" by blast
  then show ?case using Suc.IH [of w] Suc.prems xs by simp
qed

end

interpretation carray: sequence array_inv array_list "array__new c" array__add_item_ptr
    array__item_val array__remove_item for c
  by unfold_locales
    (use array_remove_facts in \<open>auto simp: array_simps array_invs length_array_list\<close>)

end
