(* ===== verification/CList.thy ===== *)
theory CList
  imports Prelude
begin

text \<open>
  The singly linked list of cstructs/list.c and list.h, with its nodes on a heap.

  A \<open>List\<close> is a node address or NULL (\<open>None\<close>); a \<open>List *\<close> is a \<open>link\<close>: a list variable of the
  caller or the \<open>next\<close> field of a node. \<open>cells\<close> holds the nodes that are allocated, as
  \<open>(item, next)\<close>; \<open>roots\<close> the list variables; \<open>fresh\<close> is the next address that \<open>malloc\<close> gives.
  Using a freed node has no result. The loops walk the \<open>next\<close> pointers as the code does, so
  that they return is a fact to prove: it is, for every well-formed list.
\<close>

type_synonym addr = nat

datatype link = Root nat | NextOf addr

record 'a lstore =
  roots :: "nat \<Rightarrow> addr option"
  cells :: "addr \<Rightarrow> ('a \<times> addr option) option"
  fresh :: addr

fun read_link :: "'a lstore \<Rightarrow> link \<Rightarrow> addr option option" where
  "read_link s (Root r) = Some (roots s r)"
| "read_link s (NextOf a) = map_option snd (cells s a)"

fun write_link :: "'a lstore \<Rightarrow> link \<Rightarrow> addr option \<Rightarrow> 'a lstore option" where
  "write_link s (Root r) p = Some (s\<lparr>roots := (roots s)(r := p)\<rparr>)"
| "write_link s (NextOf a) p =
     (case cells s a of None \<Rightarrow> None
      | Some (x, _) \<Rightarrow> Some (s\<lparr>cells := (cells s)(a := Some (x, p))\<rparr>))"

section \<open>Operations of list.c\<close>

definition list__insert :: "link \<Rightarrow> 'a \<Rightarrow> 'a lstore \<Rightarrow> 'a lstore option" where
  "list__insert list item s = do {
     next_list \<leftarrow> read_link s list;
     let a = fresh s;
     let s = s\<lparr>cells := (cells s)(a := Some (item, next_list)), fresh := fresh s + 1\<rparr>;
     write_link s list (Some a)
   }"

definition list__remove_first :: "link \<Rightarrow> 'a lstore \<Rightarrow> ('a option \<times> 'a lstore) option" where
  "list__remove_first list s = do {
     p \<leftarrow> read_link s list;
     case p of
       None \<Rightarrow> Some (None, s)
     | Some a \<Rightarrow> do {
         (x, nxt) \<leftarrow> cells s a;
         let s = s\<lparr>cells := (cells s)(a := None)\<rparr>;
         s \<leftarrow> write_link s list nxt;
         Some (Some x, s)
       }
   }"

definition list__move_first :: "link \<Rightarrow> link \<Rightarrow> 'a lstore \<Rightarrow> ('a option \<times> 'a lstore) option" where
  "list__move_first src dst s = do {
     p \<leftarrow> read_link s src;
     case p of
       None \<Rightarrow> Some (None, s)
     | Some a \<Rightarrow> do {
         (x, b) \<leftarrow> cells s a;
         c \<leftarrow> read_link s dst;
         s \<leftarrow> write_link s dst (Some a);
         s \<leftarrow> write_link s (NextOf a) c;
         s \<leftarrow> write_link s src b;
         Some (Some x, s)
       }
   }"

text \<open>\<open>rel\<close> says whether a releaser is given; the result lists the items it is called on.\<close>

partial_function (option) delete_loop ::
  "bool \<Rightarrow> link \<Rightarrow> 'a list \<Rightarrow> 'a lstore \<Rightarrow> ('a list \<times> 'a lstore) option" where
  "delete_loop rel list log s =
     Option.bind (read_link s list) (\<lambda>p. case p of
       None \<Rightarrow> Some (log, s)
     | Some a \<Rightarrow>
         Option.bind (cells s a) (\<lambda>(x, nxt).
         Option.bind (write_link (s\<lparr>cells := (cells s)(a := None)\<rparr>) list nxt) (\<lambda>s.
         delete_loop rel list (if rel then log @ [x] else log) s)))"

declare delete_loop.simps [code]

definition list__delete_and_release ::
  "bool \<Rightarrow> link \<Rightarrow> 'a lstore \<Rightarrow> ('a list \<times> 'a lstore) option" where
  "list__delete_and_release rel list s = delete_loop rel list [] s"

definition list__delete :: "link \<Rightarrow> 'a lstore \<Rightarrow> 'a lstore option" where
  "list__delete list s = map_option snd (list__delete_and_release False list s)"

partial_function (option) find_entry_loop ::
  "('a \<Rightarrow> bool) \<Rightarrow> 'a lstore \<Rightarrow> link \<Rightarrow> link option option" where
  "find_entry_loop val_eq_needle s iter =
     Option.bind (read_link s iter) (\<lambda>p. case p of
       None \<Rightarrow> Some None
     | Some a \<Rightarrow>
         Option.bind (cells s a) (\<lambda>(x, nxt).
           if val_eq_needle x then Some (Some iter)
           else find_entry_loop val_eq_needle s (NextOf a)))"

declare find_entry_loop.simps [code]

definition list__find_entry :: "link \<Rightarrow> ('a \<Rightarrow> bool) \<Rightarrow> 'a lstore \<Rightarrow> link option option" where
  "list__find_entry list val_eq_needle s = find_entry_loop val_eq_needle s list"

partial_function (option) find_value_loop ::
  "('a \<Rightarrow> bool) \<Rightarrow> 'a lstore \<Rightarrow> addr option \<Rightarrow> 'a option option" where
  "find_value_loop val_eq_needle s iter = (case iter of
       None \<Rightarrow> Some None
     | Some a \<Rightarrow>
         Option.bind (cells s a) (\<lambda>(x, nxt).
           if val_eq_needle x then Some (Some x)
           else find_value_loop val_eq_needle s nxt))"

declare find_value_loop.simps [code]

definition list__find_value :: "link \<Rightarrow> ('a \<Rightarrow> bool) \<Rightarrow> 'a lstore \<Rightarrow> 'a option option" where
  "list__find_value list val_eq_needle s =
     Option.bind (read_link s list) (find_value_loop val_eq_needle s)"

partial_function (option) reverse_loop ::
  "nat \<Rightarrow> addr option \<Rightarrow> addr option \<Rightarrow> 'a lstore \<Rightarrow> (nat \<times> addr option \<times> 'a lstore) option" where
  "reverse_loop n iter nxt s = (case nxt of
       None \<Rightarrow> Some (n, iter, s)
     | Some a \<Rightarrow>
         Option.bind (read_link s (NextOf a)) (\<lambda>new_next.
         Option.bind (write_link s (NextOf a) iter) (\<lambda>s.
         reverse_loop (Suc n) (Some a) new_next s)))"

declare reverse_loop.simps [code]

definition list__reverse :: "link \<Rightarrow> 'a lstore \<Rightarrow> (nat \<times> 'a lstore) option" where
  "list__reverse list s = do {
     first \<leftarrow> read_link s list;
     (n, iter, s) \<leftarrow> reverse_loop 0 None first s;
     s \<leftarrow> write_link s list iter;
     Some (n, s)
   }"

partial_function (option) count_loop :: "nat \<Rightarrow> 'a lstore \<Rightarrow> addr option \<Rightarrow> nat option" where
  "count_loop n s iter = (case iter of
       None \<Rightarrow> Some n
     | Some a \<Rightarrow> Option.bind (read_link s (NextOf a)) (count_loop (Suc n) s))"

declare count_loop.simps [code]

definition list__count :: "link \<Rightarrow> 'a lstore \<Rightarrow> nat option" where
  "list__count list s = Option.bind (read_link s list) (count_loop 0 s)"

section \<open>Lists on the heap\<close>

text \<open>
  \<open>seg c p as xs q\<close>: from \<open>p\<close> the nodes \<open>as\<close> follow each other, hold the items \<open>xs\<close> and lead to
  \<open>q\<close>. \<open>is_list s r as xs\<close>: the list variable \<open>r\<close> holds the list \<open>xs\<close>, in the nodes \<open>as\<close>.
\<close>

fun seg :: "(addr \<Rightarrow> ('a \<times> addr option) option) \<Rightarrow> addr option \<Rightarrow> addr list \<Rightarrow> 'a list \<Rightarrow>
    addr option \<Rightarrow> bool" where
  "seg c p [] [] q \<longleftrightarrow> p = q"
| "seg c p (a # as) (x # xs) q \<longleftrightarrow> p = Some a \<and>
     (case c a of None \<Rightarrow> False | Some (y, n) \<Rightarrow> y = x \<and> seg c n as xs q)"
| "seg c p _ _ q \<longleftrightarrow> False"

definition is_list :: "'a lstore \<Rightarrow> nat \<Rightarrow> addr list \<Rightarrow> 'a list \<Rightarrow> bool" where
  "is_list s r as xs \<longleftrightarrow> seg (cells s) (roots s r) as xs None \<and> (\<forall>a \<in> set as. a < fresh s)"

lemma seg_length: "seg c p as xs q \<Longrightarrow> length as = length xs"
  by (induction c p as xs q rule: seg.induct) (auto split: option.splits)

lemma seg_upd [simp]: "a \<notin> set as \<Longrightarrow> seg (c(a := v)) p as xs q = seg c p as xs q"
  by (induction c p as xs q rule: seg.induct) (auto split: option.splits)

lemma seg_append:
  "length as = length xs \<Longrightarrow>
   seg c p (as @ bs) (xs @ ys) q \<longleftrightarrow> (\<exists>m. seg c p as xs m \<and> seg c m bs ys q)"
  by (induction as xs arbitrary: p rule: list_induct2) (auto split: option.splits)

lemma seg_Null: "seg c None as xs q \<longleftrightarrow> as = [] \<and> xs = [] \<and> q = None"
  by (cases as; cases xs) auto

lemma seg_Some_None:
  "seg c (Some a) as xs None \<Longrightarrow>
   \<exists>bs x ys n. as = a # bs \<and> xs = x # ys \<and> c a = Some (x, n) \<and> seg c n bs ys None"
  by (cases as; cases xs) (auto split: option.splits)

lemma seg_unique: "seg c p as xs None \<Longrightarrow> seg c p bs ys None \<Longrightarrow> as = bs"
proof (induction c p as xs "None :: addr option" arbitrary: bs ys rule: seg.induct)
  case (1 c p)
  then show ?case by (simp add: seg_Null)
next
  case (2 c p a as x xs)
  then show ?case by (cases bs; cases ys) (auto split: option.splits)
qed simp_all

lemma seg_distinct: "seg c p as xs None \<Longrightarrow> distinct as"
proof (induction c p as xs "None :: addr option" rule: seg.induct)
  case (2 c p a as x xs)
  then obtain n where n: "c a = Some (x, n)" "seg c n as xs None" "p = Some a"
    by (auto split: option.splits)
  have "a \<notin> set as"
  proof
    assume "a \<in> set as"
    then obtain us vs where as: "as = us @ a # vs" by (meson split_list)
    have len: "length us = length (take (length us) xs)"
      using seg_length [OF n(2)] as by simp
    have "seg c n (us @ a # vs) (take (length us) xs @ drop (length us) xs) None"
      using n(2) as by simp
    then have "\<exists>m. seg c m (a # vs) (drop (length us) xs) None"
      using seg_append [OF len] by blast
    then obtain m where "seg c m (a # vs) (drop (length us) xs) None" by blast
    then have "seg c (Some a) (a # vs) (drop (length us) xs) None"
      by (cases "drop (length us) xs") auto
    moreover have "seg c (Some a) (a # as) (x # xs) None" using n by simp
    ultimately have "a # vs = a # as" by (rule seg_unique)
    with as show False by simp
  qed
  with 2 n show ?case by simp
qed auto

section \<open>What each operation does to the list\<close>

text \<open>The link that stands before position \<open>i\<close> of the list in variable \<open>r\<close>.\<close>

definition link_at :: "nat \<Rightarrow> addr list \<Rightarrow> nat \<Rightarrow> link" where
  "link_at r as i = (if i = 0 then Root r else NextOf (as ! (i - 1)))"

lemma insert_root:
  assumes "is_list s r as xs"
  shows "\<exists>s'. list__insert (Root r) x s = Some s' \<and> is_list s' r (fresh s # as) (x # xs) \<and>
    (\<forall>r' bs ys. r' \<noteq> r \<longrightarrow> is_list s r' bs ys \<longrightarrow> is_list s' r' bs ys)"
proof -
  have nf: "fresh s \<notin> set as" using assms by (auto simp: is_list_def)
  have other: "fresh s \<notin> set bs" if "is_list s r' bs ys" for r' bs and ys :: "'a list"
    using that by (auto simp: is_list_def)
  let ?s = "s\<lparr>cells := (cells s)(fresh s \<mapsto> (x, roots s r)), fresh := fresh s + 1,
       roots := (roots s)(r \<mapsto> fresh s)\<rparr>"
  have "list__insert (Root r) x s = Some ?s"
    by (simp add: list__insert_def Let_def)
  moreover have "is_list ?s r (fresh s # as) (x # xs)"
    using assms nf by (auto simp: is_list_def)
  moreover have "is_list ?s r' bs ys" if "r' \<noteq> r" "is_list s r' bs ys" for r' bs ys
    using that other [OF that(2)] by (auto simp: is_list_def less_Suc_eq)
  ultimately show ?thesis by blast
qed

lemma seg_link:
  assumes "seg c p as xs None" "i < length as"
  shows "\<exists>n. c (as ! i) = Some (xs ! i, n) \<and> seg c p (take i as) (take i xs) (Some (as ! i)) \<and>
    seg c n (drop (Suc i) as) (drop (Suc i) xs) None"
proof -
  have len: "length as = length xs" using assms(1) by (rule seg_length)
  have "seg c p (take i as @ drop i as) (take i xs @ drop i xs) None" using assms by simp
  then obtain m where m: "seg c p (take i as) (take i xs) m" "seg c m (drop i as) (drop i xs) None"
    using seg_append [of "take i as" "take i xs"] len by fastforce
  have "drop i as = as ! i # drop (Suc i) as" "drop i xs = xs ! i # drop (Suc i) xs"
    using assms(2) len by (simp_all add: Cons_nth_drop_Suc)
  with m show ?thesis by (auto split: option.splits)
qed

lemma read_link_at:
  assumes "is_list s r as xs" "i \<le> length as"
  shows "read_link s (link_at r as i) = Some (if i < length as then Some (as ! i) else None)"
proof (cases i)
  case 0
  then show ?thesis using assms by (cases as; cases xs) (auto simp: is_list_def link_at_def)
next
  case (Suc j)
  then have "j < length as" using assms by simp
  with assms obtain n where n: "cells s (as ! j) = Some (xs ! j, n)"
    "seg (cells s) n (drop (Suc j) as) (drop (Suc j) xs) None"
    using seg_link [of "cells s" "roots s r" as xs j] by (auto simp: is_list_def)
  have len: "length as = length xs" using assms by (auto simp: is_list_def dest: seg_length)
  show ?thesis
  proof (cases "Suc j < length as")
    case True
    then have "drop (Suc j) as = as ! Suc j # drop (Suc (Suc j)) as" by (simp add: Cons_nth_drop_Suc)
    with n have "n = Some (as ! Suc j)" by (cases "drop (Suc j) xs") auto
    then show ?thesis using n(1) Suc True by (simp add: link_at_def)
  next
    case False
    with n len have "n = None" by simp
    then show ?thesis using n(1) Suc False by (simp add: link_at_def)
  qed
qed

lemma is_list_simps:
  assumes "is_list s r as xs"
  shows "length as = length xs" "distinct as" "seg (cells s) (roots s r) as xs None"
  using assms by (auto simp: is_list_def dest: seg_length seg_distinct)

text \<open>Other lists, on other nodes, keep their contents when only the nodes \<open>as\<close> change.\<close>

lemma is_list_frame:
  assumes "is_list s r bs ys" "roots s' r = roots s r" "fresh s \<le> fresh s'"
    "\<forall>a. a \<notin> A \<longrightarrow> cells s' a = cells s a" "set bs \<inter> A = {}"
  shows "is_list s' r bs ys"
proof -
  have "seg (cells s') p bs ys q = seg (cells s) p bs ys q" if "set bs \<inter> A = {}" for p q
    using that assms(4)
    by (induction "cells s" p bs ys q rule: seg.induct) (auto split: option.splits)
  with assms show ?thesis by (auto simp: is_list_def)
qed

lemma remove_at:
  assumes "is_list s r as xs" "i < length as"
  shows "\<exists>s'. list__remove_first (link_at r as i) s = Some (Some (xs ! i), s') \<and>
    is_list s' r (take i as @ drop (Suc i) as) (take i xs @ drop (Suc i) xs) \<and>
    (\<forall>a. a \<notin> set as \<longrightarrow> cells s' a = cells s a) \<and>
    (\<forall>r'. r' \<noteq> r \<longrightarrow> roots s' r' = roots s r') \<and> fresh s' = fresh s"
proof -
  note l = is_list_simps [OF assms(1)]
  from seg_link [OF l(3) assms(2)] obtain n where
    n: "cells s (as ! i) = Some (xs ! i, n)"
       "seg (cells s) n (drop (Suc i) as) (drop (Suc i) xs) None" by blast
  have rd: "read_link s (link_at r as i) = Some (Some (as ! i))"
    using read_link_at [OF assms(1), of i] assms(2) by simp
  have notin: "as ! i \<notin> set (drop (Suc i) as)"
    using l(2) assms(2) by (metis Cons_nth_drop_Suc distinct.simps(2) distinct_drop)
  let ?c = "(cells s)(as ! i := None)"
  have tail: "seg ?c n (drop (Suc i) as) (drop (Suc i) xs) None"
    using n(2) notin by simp
  have fr: "\<forall>a \<in> set (take i as @ drop (Suc i) as). a < fresh s"
    using assms(1) by (auto simp: is_list_def dest: in_set_takeD in_set_dropD)
  show ?thesis
  proof (cases i)
    case 0
    let ?s = "s\<lparr>cells := ?c, roots := (roots s)(r := n)\<rparr>"
    have "list__remove_first (link_at r as i) s = Some (Some (xs ! i), ?s)"
      using rd n(1) 0 by (simp add: list__remove_first_def link_at_def Let_def)
    moreover have "is_list ?s r (drop 1 as) (drop 1 xs)"
      using tail fr 0 by (auto simp: is_list_def)
    ultimately show ?thesis using 0 assms(2) by (auto intro!: exI [of _ ?s])
  next
    case (Suc j)
    then have j: "j < length as" "as ! j \<noteq> as ! i" using assms(2) l(2) by (auto simp: nth_eq_iff_index_eq)
    from seg_link [OF l(3) j(1)] obtain m where
      m: "cells s (as ! j) = Some (xs ! j, m)"
         "seg (cells s) (roots s r) (take j as) (take j xs) (Some (as ! j))" by blast
    have nj: "as ! j \<notin> set (take j as)" "as ! i \<notin> set (take j as)" "as ! j \<notin> set (drop (Suc i) as)"
      using l(2) assms(2) j Suc by (auto simp: in_set_conv_nth nth_eq_iff_index_eq)
    let ?c' = "?c(as ! j := Some (xs ! j, n))"
    let ?s = "s\<lparr>cells := ?c'\<rparr>"
    have run: "list__remove_first (link_at r as i) s = Some (Some (xs ! i), ?s)"
      using rd n(1) m(1) j Suc by (simp add: list__remove_first_def link_at_def Let_def)
    have "seg ?c' (roots s r) (take j as) (take j xs) (Some (as ! j))"
      using m(2) nj by simp
    moreover have "seg ?c' (Some (as ! j)) (as ! j # drop (Suc i) as) (xs ! j # drop (Suc i) xs) None"
      using tail nj by simp
    ultimately have "seg ?c' (roots s r) (take j as @ as ! j # drop (Suc i) as)
        (take j xs @ xs ! j # drop (Suc i) xs) None"
      using l(1) by (subst seg_append) auto
    moreover have "take i as = take j as @ [as ! j]" "take i xs = take j xs @ [xs ! j]"
      using Suc j l(1) by (simp_all add: take_Suc_conv_app_nth)
    ultimately have "is_list ?s r (take i as @ drop (Suc i) as) (take i xs @ drop (Suc i) xs)"
      using fr by (simp add: is_list_def)
    then show ?thesis using run j assms(2) by (auto intro!: exI [of _ ?s] dest: nth_mem)
  qed
qed

text \<open>\<open>first_pos P xs\<close> is the position of the first item that satisfies \<open>P\<close>, if there is one.\<close>

fun first_pos :: "('a \<Rightarrow> bool) \<Rightarrow> 'a list \<Rightarrow> nat option" where
  "first_pos P [] = None"
| "first_pos P (x # xs) = (if P x then Some 0 else map_option Suc (first_pos P xs))"

lemma first_pos_Some:
  "first_pos P xs = Some i \<longleftrightarrow> i < length xs \<and> P (xs ! i) \<and> (\<forall>j < i. \<not> P (xs ! j))"
proof (induction xs arbitrary: i)
  case (Cons x xs)
  then show ?case by (cases i) (auto simp: All_less_Suc2)
qed simp

lemma first_pos_None: "first_pos P xs = None \<longleftrightarrow> (\<forall>x \<in> set xs. \<not> P x)"
  by (induction xs) auto

lemma find_entry_loop_at:
  assumes "is_list s r as xs" "i \<le> length as"
  shows "find_entry_loop P s (link_at r as i) =
    Some (map_option (\<lambda>k. link_at r as (i + k)) (first_pos P (drop i xs)))"
  using assms(2)
proof (induction "length as - i" arbitrary: i)
  case 0
  then have "i = length as" by simp
  then show ?case
    using read_link_at [OF assms(1), of i] is_list_simps(1) [OF assms(1)]
    by (simp add: find_entry_loop.simps)
next
  case (Suc n)
  then have i: "i < length as" by simp
  note l = is_list_simps [OF assms(1)]
  from seg_link [OF l(3) i] obtain m where m: "cells s (as ! i) = Some (xs ! i, m)" by blast
  have dr: "drop i xs = xs ! i # drop (Suc i) xs" using i l(1) by (simp add: Cons_nth_drop_Suc)
  have IH: "find_entry_loop P s (NextOf (as ! i)) =
      Some (map_option (\<lambda>k. link_at r as (Suc i + k)) (first_pos P (drop (Suc i) xs)))"
    using Suc(1) [of "Suc i"] Suc(2) i by (simp add: link_at_def)
  show ?case
    using read_link_at [OF assms(1), of i] i m IH dr
    by (subst find_entry_loop.simps) (simp add: option.map_comp comp_def)
qed

lemma find_entry_list:
  assumes "is_list s r as xs"
  shows "list__find_entry (Root r) P s = Some (map_option (link_at r as) (first_pos P xs))"
proof -
  have "link_at r as 0 = Root r" "(\<lambda>k. link_at r as (0 + k)) = link_at r as"
    by (simp_all add: link_at_def fun_eq_iff)
  with find_entry_loop_at [OF assms, of 0 P] show ?thesis by (simp add: list__find_entry_def)
qed

lemma seg_NilE: "seg c p as [] None \<Longrightarrow> p = None"
  by (cases as) auto

lemma seg_ConsE:
  assumes "seg c p as (x # xs) None"
  obtains a as' n where "as = a # as'" "p = Some a" "c a = Some (x, n)" "seg c n as' xs None"
  using assms by (cases as) (auto split: option.splits)

lemma count_loop_seg: "seg (cells s) p as xs None \<Longrightarrow> count_loop n s p = Some (n + length xs)"
proof (induction xs arbitrary: as p n)
  case Nil
  then have "p = None" by (rule seg_NilE)
  then show ?case by (subst count_loop.simps) simp
next
  case (Cons x xs)
  from Cons.prems show ?case
    by (rule seg_ConsE) (subst count_loop.simps, simp add: Cons.IH)
qed

lemma count_list: "is_list s r as xs \<Longrightarrow> list__count (Root r) s = Some (length xs)"
  using count_loop_seg [of s "roots s r" as xs 0] by (simp add: is_list_def list__count_def)

lemma find_value_loop_seg:
  "seg (cells s) p as xs None \<Longrightarrow> find_value_loop P s p = Some (List.find P xs)"
proof (induction xs arbitrary: as p)
  case Nil
  then have "p = None" by (rule seg_NilE)
  then show ?case by (subst find_value_loop.simps) simp
next
  case (Cons x xs)
  from Cons.prems show ?case
    by (rule seg_ConsE) (subst find_value_loop.simps, simp add: Cons.IH)
qed

lemma find_value_list:
  "is_list s r as xs \<Longrightarrow> list__find_value (Root r) P s = Some (List.find P xs)"
  using find_value_loop_seg [of s "roots s r" as xs P] by (simp add: is_list_def list__find_value_def)

lemma reverse_loop_seg:
  assumes "seg (cells s) nxt as xs None" "seg (cells s) iter bs ys None" "set as \<inter> set bs = {}"
  shows "\<exists>p s'. reverse_loop n iter nxt s = Some (n + length xs, p, s') \<and>
    seg (cells s') p (rev as @ bs) (rev xs @ ys) None \<and> roots s' = roots s \<and> fresh s' = fresh s \<and>
    (\<forall>a. a \<notin> set as \<longrightarrow> cells s' a = cells s a)"
  using assms
proof (induction xs arbitrary: as nxt iter bs ys s n)
  case Nil
  then show ?case by (cases as) (auto simp: reverse_loop.simps)
next
  case (Cons x xs)
  then obtain a as' m where as: "as = a # as'" "nxt = Some a" "cells s a = Some (x, m)"
    "seg (cells s) m as' xs None"
    by (cases as) (auto split: option.splits)
  let ?s = "s\<lparr>cells := (cells s)(a := Some (x, iter))\<rparr>"
  have "a \<notin> set as'" using seg_distinct [OF Cons.prems(1)] as by simp
  moreover have "a \<notin> set bs" using Cons.prems(3) as by auto
  ultimately have "seg (cells ?s) m as' xs None" "seg (cells ?s) (Some a) (a # bs) (x # ys) None"
    "set as' \<inter> set (a # bs) = {}"
    using as Cons.prems by auto
  from Cons.IH [OF this, of "Suc n"] obtain p s' where
    "reverse_loop (Suc n) (Some a) m ?s = Some (Suc n + length xs, p, s')"
    "seg (cells s') p (rev as' @ a # bs) (rev xs @ x # ys) None"
    "roots s' = roots s" "fresh s' = fresh s" "\<forall>b. b \<notin> set as' \<longrightarrow> cells s' b = cells ?s b" by auto
  then show ?case using as by (subst reverse_loop.simps) auto
qed

lemma reverse_list:
  assumes "is_list s r as xs"
  shows "\<exists>s'. list__reverse (Root r) s = Some (length xs, s') \<and> is_list s' r (rev as) (rev xs) \<and>
    (\<forall>a. a \<notin> set as \<longrightarrow> cells s' a = cells s a) \<and>
    (\<forall>r'. r' \<noteq> r \<longrightarrow> roots s' r' = roots s r') \<and> fresh s' = fresh s"
proof -
  have "seg (cells s) None [] [] None" by simp
  from reverse_loop_seg [OF is_list_simps(3) [OF assms] this, of 0]
  obtain p s' where "reverse_loop 0 None (roots s r) s = Some (length xs, p, s')"
    "seg (cells s') p (rev as) (rev xs) None" "roots s' = roots s" "fresh s' = fresh s"
    "\<forall>a. a \<notin> set as \<longrightarrow> cells s' a = cells s a" by auto
  then show ?thesis
    using assms by (auto simp: list__reverse_def is_list_def)
qed

lemma move_first_list:
  assumes "is_list s r (a # as) (x # xs)" "is_list s r' bs ys" "r \<noteq> r'" "set (a # as) \<inter> set bs = {}"
  shows "\<exists>s'. list__move_first (Root r) (Root r') s = Some (Some x, s') \<and>
    is_list s' r as xs \<and> is_list s' r' (a # bs) (x # ys)"
proof -
  from assms(1) obtain n where n: "roots s r = Some a" "cells s a = Some (x, n)"
    "seg (cells s) n as xs None"
    by (auto simp: is_list_def split: option.splits)
  have "a \<notin> set as" "a \<notin> set bs" using is_list_simps(2) [OF assms(1)] assms(4) by auto
  with n assms show ?thesis
    by (auto simp: list__move_first_def is_list_def)
qed

lemma delete_loop_seg:
  assumes "is_list s r as xs"
  shows "\<exists>s'. delete_loop rel (Root r) log s = Some (if rel then log @ xs else log, s') \<and>
    roots s' r = None \<and> (\<forall>a \<in> set as. cells s' a = None) \<and>
    (\<forall>a. a \<notin> set as \<longrightarrow> cells s' a = cells s a) \<and>
    (\<forall>r'. r' \<noteq> r \<longrightarrow> roots s' r' = roots s r') \<and> fresh s' = fresh s"
  using assms
proof (induction xs arbitrary: as s log)
  case Nil
  then show ?case by (cases as) (auto simp: delete_loop.simps is_list_def)
next
  case (Cons x xs)
  from Cons.prems obtain a as' n where as: "as = a # as'" "roots s r = Some a"
    "cells s a = Some (x, n)" "seg (cells s) n as' xs None"
    by (cases as) (auto simp: is_list_def split: option.splits)
  have a: "a \<notin> set as'" using is_list_simps(2) [OF Cons.prems] as by simp
  let ?s = "s\<lparr>cells := (cells s)(a := None), roots := (roots s)(r := n)\<rparr>"
  let ?l = "if rel then log @ [x] else log"
  have "is_list ?s r as' xs" using as a Cons.prems by (auto simp: is_list_def)
  from Cons.IH [OF this, of ?l]
  obtain s' where s': "delete_loop rel (Root r) ?l ?s = Some (if rel then ?l @ xs else ?l, s')"
    "roots s' r = None" "\<forall>b \<in> set as'. cells s' b = None"
    "\<forall>b. b \<notin> set as' \<longrightarrow> cells s' b = cells ?s b" "\<forall>r'. r' \<noteq> r \<longrightarrow> roots s' r' = roots ?s r'"
    "fresh s' = fresh ?s" by blast
  have "delete_loop rel (Root r) log s = delete_loop rel (Root r) ?l ?s"
    using as by (subst delete_loop.simps) simp
  moreover have "(if rel then ?l @ xs else ?l) = (if rel then log @ x # xs else log)" by simp
  moreover have "\<forall>b \<in> set as. cells s' b = None"
    using s'(3,4) as(1) a by simp
  moreover have "\<forall>b. b \<notin> set as \<longrightarrow> cells s' b = cells s b" using s'(4) as(1) by simp
  ultimately show ?case using s'(1,2,5,6) by simp
qed

end
