(* ===== verification/CMap.thy ===== *)
theory CMap
  imports CArray CList
begin

text \<open>
  The hash map of cstructs/map.c and map.h.

  A \<open>MapStruct\<close> is a \<open>cmap\<close>: \<open>buckets\<close> is an array whose items are the chains, each the sequence
  of its key-value pairs (the theory \<open>CList\<close> shows that the pointer operations of list.c act on
  those sequences as the operations used here do). A \<open>List *\<close> into the map is a bucket index and
  a position in that bucket. \<open>m_hash\<close> and \<open>m_eq\<close> are the function pointers; an \<open>int\<close> hash is the
  32-bit word of its bits. \<open>key_releaser\<close> and \<open>value_releaser\<close> say whether a releaser is set, and
  \<open>freed_keys\<close>, \<open>freed_values\<close> log their calls.
\<close>

record ('k, 'v) cmap =
  m_count :: nat
  buckets :: "('k \<times> 'v) list carray"
  m_hash :: "'k \<Rightarrow> u32"
  m_eq :: "'k \<Rightarrow> 'k \<Rightarrow> bool"
  key_releaser :: bool
  value_releaser :: bool
  freed_keys :: "'k list"
  freed_values :: "'v list"

definition MIN_BUCKETS :: nat where "MIN_BUCKETS = 16"

text \<open>\<open>MAX_LOAD\<close> is 2.5; \<open>over_load\<close> is the comparison \<open>load > MAX_LOAD\<close> on whole loads.\<close>

definition over_load :: "nat \<Rightarrow> bool" where
  "over_load load \<longleftrightarrow> 2 * load > 5"

section \<open>Operations of map.c\<close>

definition map__new :: "('k \<Rightarrow> u32) \<Rightarrow> ('k \<Rightarrow> 'k \<Rightarrow> bool) \<Rightarrow> ('k, 'v) cmap" where
  "map__new h e =
     \<lparr>m_count = 0,
      buckets = array__add_zeroed_items []
        ((array__new (int MIN_BUCKETS))\<lparr>releaser := True\<rparr>) MIN_BUCKETS,
      m_hash = h, m_eq = e, key_releaser = False, value_releaser = False,
      freed_keys = [], freed_values = []\<rparr>"

definition bucket_index :: "u32 \<Rightarrow> nat \<Rightarrow> nat" where
  "bucket_index h n = unat h mod n"

definition bucket_find :: "('k \<times> 'v) list \<Rightarrow> 'k \<Rightarrow> ('k \<Rightarrow> 'k \<Rightarrow> bool) \<Rightarrow> nat option" where
  "bucket_find bucket needle e = first_pos (\<lambda>pair. e (fst pair) needle) bucket"

definition find_with_hash :: "('k, 'v) cmap \<Rightarrow> 'k \<Rightarrow> u32 \<Rightarrow> (nat \<times> nat) option option" where
  "find_with_hash m needle h = do {
     let n = a_count (buckets m);
     req (0 < n);
     let index = bucket_index h n;
     bucket \<leftarrow> array__item_val (buckets m) index;
     Some (map_option (Pair index) (bucket_find bucket needle (m_eq m)))
   }"

definition map__get :: "('k, 'v) cmap \<Rightarrow> 'k \<Rightarrow> ('k \<times> 'v) option option" where
  "map__get m needle = do {
     entry \<leftarrow> find_with_hash m needle (m_hash m needle);
     case entry of None \<Rightarrow> Some None
     | Some (b, pos) \<Rightarrow> do {
         bucket \<leftarrow> array__item_val (buckets m) b;
         Some (Some (bucket ! pos))
       }
   }"

text \<open>
  The inner loop of \<open>double_size\<close> over the rest of bucket \<open>index\<close> from position \<open>pos\<close> (\<open>entry\<close>):
  a pair that belongs elsewhere is taken out and put at the front of its bucket.
\<close>

fun rehash_from ::
  "('k \<Rightarrow> u32) \<Rightarrow> nat \<Rightarrow> nat \<Rightarrow> nat \<Rightarrow> ('k \<times> 'v) list \<Rightarrow> ('k \<times> 'v) list carray \<Rightarrow>
   ('k \<times> 'v) list carray option" where
  "rehash_from h n index pos [] a = Some a"
| "rehash_from h n index pos (pair # rest) a =
     (let bucket_ix = bucket_index (h (fst pair)) n in
      if bucket_ix = index then rehash_from h n index (Suc pos) rest a
      else do {
        bucket \<leftarrow> array__item_val a index;
        a \<leftarrow> array__item_set a index (take pos bucket @ drop (Suc pos) bucket);
        new_bucket \<leftarrow> array__item_val a bucket_ix;
        a \<leftarrow> array__item_set a bucket_ix (pair # new_bucket);
        rehash_from h n index pos rest a
      })"

function rehash_all ::
  "('k \<Rightarrow> u32) \<Rightarrow> nat \<Rightarrow> nat \<Rightarrow> ('k \<times> 'v) list carray \<Rightarrow> ('k \<times> 'v) list carray option" where
  "rehash_all h n index a =
     (if index < a_count a then do {
        bucket \<leftarrow> array__item_val a index;
        a \<leftarrow> rehash_from h n index 0 bucket a;
        if index \<ge> n div 2 then Some a else rehash_all h n (Suc index) a
      } else Some a)"
  by pat_completeness auto
termination
  by (relation "measure (\<lambda>(h, n, index, a). n - index)") auto

declare rehash_all.simps [simp del]

definition double_size :: "('k, 'v) cmap \<Rightarrow> ('k, 'v) cmap option" where
  "double_size m = do {
     let b = array__add_zeroed_items [] (buckets m) (a_count (buckets m));
     b \<leftarrow> rehash_all (m_hash m) (a_count b) 0 b;
     Some (m\<lparr>buckets := b\<rparr>)
   }"

definition map__set :: "('k, 'v) cmap \<Rightarrow> 'k \<Rightarrow> 'v \<Rightarrow> ('k, 'v) cmap option" where
  "map__set m key val = do {
     let h = m_hash m key;
     entry \<leftarrow> find_with_hash m key h;
     case entry of
       Some (b, pos) \<Rightarrow> do {
         bucket \<leftarrow> array__item_val (buckets m) b;
         let (k0, v0) = bucket ! pos;
         let m = (if key_releaser m \<and> k0 \<noteq> key
                  then m\<lparr>freed_keys := freed_keys m @ [k0]\<rparr> else m);
         let m = (if value_releaser m \<and> v0 \<noteq> val
                  then m\<lparr>freed_values := freed_values m @ [v0]\<rparr> else m);
         bs \<leftarrow> array__item_set (buckets m) b (bucket[pos := (key, val)]);
         Some (m\<lparr>buckets := bs\<rparr>)
       }
     | None \<Rightarrow> do {
         let load = (m_count m + 1) div a_count (buckets m);
         m \<leftarrow> (if over_load load then double_size m else Some m);
         let n = a_count (buckets m);
         let index = bucket_index h n;
         bucket \<leftarrow> array__item_val (buckets m) index;
         bs \<leftarrow> array__item_set (buckets m) index ((key, val) # bucket);
         Some (m\<lparr>buckets := bs, m_count := m_count m + 1\<rparr>)
       }
   }"

definition release_and_free_pair :: "('k, 'v) cmap \<Rightarrow> 'k \<times> 'v \<Rightarrow> ('k, 'v) cmap" where
  "release_and_free_pair m pair =
     (let m = (if key_releaser m then m\<lparr>freed_keys := freed_keys m @ [fst pair]\<rparr> else m)
      in (if value_releaser m then m\<lparr>freed_values := freed_values m @ [snd pair]\<rparr> else m))"

definition map__unset :: "('k, 'v) cmap \<Rightarrow> 'k \<Rightarrow> ('k, 'v) cmap option" where
  "map__unset m key = do {
     let h = m_hash m key;
     entry \<leftarrow> find_with_hash m key h;
     case entry of
       None \<Rightarrow> Some m
     | Some (b, pos) \<Rightarrow> do {
         bucket \<leftarrow> array__item_val (buckets m) b;
         let m = release_and_free_pair m (bucket ! pos);
         bs \<leftarrow> array__item_set (buckets m) b (take pos bucket @ drop (Suc pos) bucket);
         Some (m\<lparr>buckets := bs, m_count := m_count m - 1\<rparr>)
       }
   }"

text \<open>The loop of \<open>map__clear\<close> from bucket \<open>index\<close>: \<open>list__delete_and_release\<close> on each bucket.\<close>

function clear_from :: "('k, 'v) cmap \<Rightarrow> nat \<Rightarrow> ('k, 'v) cmap option" where
  "clear_from m index =
     (if index < a_count (buckets m) then do {
        bucket \<leftarrow> array__item_val (buckets m) index;
        bs \<leftarrow> array__item_set (buckets m) index [];
        let m' = foldl release_and_free_pair m bucket;
        clear_from (m'\<lparr>buckets := bs\<rparr>) (Suc index)
      } else Some m)"
  by pat_completeness auto
termination
  by (relation "measure (\<lambda>(m, index). a_count (buckets m) - index)")
    (auto simp: array__item_set_def split: if_splits)

declare clear_from.simps [simp del]

definition map__clear :: "('k, 'v) cmap \<Rightarrow> ('k, 'v) cmap option" where
  "map__clear m = map_option (\<lambda>m. m\<lparr>m_count := 0\<rparr>) (clear_from m 0)"

text \<open>
  \<open>map__delete\<close> has the array release every bucket in turn with \<open>release_bucket\<close> and frees the
  map: what remains is the log of the keys and values it released.
\<close>

definition map__delete :: "('k, 'v) cmap \<Rightarrow> 'k list \<times> 'v list" where
  "map__delete m =
     (let m = foldl (foldl release_and_free_pair) m (map the (array__delete (buckets m)))
      in (freed_keys m, freed_values m))"

text \<open>
  Iteration: the cursor of \<open>map__next\<close> is a bucket index, which starts at -1, and \<open>p\<close>, the rest of
  that bucket's chain (\<open>None\<close> is the token pointer that ends the loops).
\<close>

function skip_empty :: "('k, 'v) cmap \<Rightarrow> int \<Rightarrow> ('k \<times> 'v) list \<Rightarrow>
    (int \<times> ('k \<times> 'v) list) option" where
  "skip_empty m i entry =
     (if entry = [] \<and> i < int (a_count (buckets m)) - 1 then do {
        bucket \<leftarrow> array__item_val (buckets m) (nat (i + 1));
        skip_empty m (i + 1) bucket
      } else Some (i, entry))"
  by pat_completeness auto
termination
  by (relation "measure (\<lambda>(m, i, entry). nat (int (a_count (buckets m)) - i))") auto

declare skip_empty.simps [simp del]

definition map__next :: "('k, 'v) cmap \<Rightarrow> int \<Rightarrow> ('k \<times> 'v) list \<Rightarrow>
    (('k \<times> 'v) option \<times> int \<times> ('k \<times> 'v) list option) option" where
  "map__next m i p = do {
     (i, entry) \<leftarrow> skip_empty m i p;
     case entry of
       [] \<Rightarrow> Some (None, i, None)
     | pair # nxt \<Rightarrow> Some (Some pair, i, Some nxt)
   }"

text \<open>The pairs that \<open>map__for\<close> visits, in order.\<close>

partial_function (option) map_for ::
  "('k, 'v) cmap \<Rightarrow> int \<Rightarrow> ('k \<times> 'v) list \<Rightarrow> ('k \<times> 'v) list option" where
  "map_for m i p =
     Option.bind (map__next m i p) (\<lambda>(var, i, p).
       case (var, p) of
         (Some pair, Some nxt) \<Rightarrow>
           Option.bind (map_for m i nxt) (\<lambda>pairs. Some (pair # pairs))
       | _ \<Rightarrow> Some [])"

declare map_for.simps [code]

section \<open>Well-formed maps\<close>

text \<open>
  \<open>K\<close> is the set of keys that the client uses, on which \<open>eq\<close> is equality. A map is well formed
  when every pair lies in the bucket of its hash, no key occurs twice, and \<open>m_count\<close> counts the
  pairs. \<open>map_lookup\<close> is the abstract value.
\<close>

definition bucket_list :: "('k, 'v) cmap \<Rightarrow> ('k \<times> 'v) list list" where
  "bucket_list m = array_list (buckets m)"

definition key_index :: "('k, 'v) cmap \<Rightarrow> 'k \<Rightarrow> nat" where
  "key_index m k = bucket_index (m_hash m k) (a_count (buckets m))"

definition buckets_ok :: "'k set \<Rightarrow> ('k \<Rightarrow> u32) \<Rightarrow> ('k \<times> 'v) list list \<Rightarrow> bool" where
  "buckets_ok K h L \<longleftrightarrow> (\<forall>i < length L. distinct (map fst (L ! i)) \<and>
     (\<forall>pair \<in> set (L ! i). fst pair \<in> K \<and> bucket_index (h (fst pair)) (length L) = i))"

definition map_inv :: "'k set \<Rightarrow> ('k, 'v) cmap \<Rightarrow> bool" where
  "map_inv K m \<longleftrightarrow> array_inv (buckets m) \<and> 0 < a_count (buckets m) \<and>
     (\<forall>x \<in> K. \<forall>y \<in> K. m_eq m x y \<longleftrightarrow> x = y) \<and>
     buckets_ok K (m_hash m) (bucket_list m) \<and>
     m_count m = sum_list (map length (bucket_list m))"

definition map_lookup :: "('k, 'v) cmap \<Rightarrow> 'k \<Rightarrow> 'v option" where
  "map_lookup m k = map_of (bucket_list m ! key_index m k) k"

lemma length_bucket_list: "array_inv (buckets m) \<Longrightarrow> length (bucket_list m) = a_count (buckets m)"
  by (simp add: bucket_list_def length_array_list)

lemma map_invD:
  assumes "map_inv K m"
  shows "array_inv (buckets m)" "0 < a_count (buckets m)"
    "\<And>x y. x \<in> K \<Longrightarrow> y \<in> K \<Longrightarrow> m_eq m x y \<longleftrightarrow> x = y"
    "buckets_ok K (m_hash m) (bucket_list m)" "length (bucket_list m) = a_count (buckets m)"
    "m_count m = sum_list (map length (bucket_list m))"
  using assms by (simp_all add: map_inv_def length_bucket_list)

lemma bucket_index_less: "0 < n \<Longrightarrow> bucket_index h n < n"
  by (simp add: bucket_index_def)

lemma key_index_less: "map_inv K m \<Longrightarrow> key_index m k < a_count (buckets m)"
  by (simp add: key_index_def bucket_index_less map_invD)

lemma buckets_okD:
  assumes "buckets_ok K h L" "i < length L"
  shows "distinct (map fst (L ! i))" "\<And>k v. (k, v) \<in> set (L ! i) \<Longrightarrow> k \<in> K"
    "\<And>k v. (k, v) \<in> set (L ! i) \<Longrightarrow> bucket_index (h k) (length L) = i"
  using assms by (fastforce simp: buckets_ok_def)+

lemma buckets_ok_update:
  assumes "buckets_ok K h L" "i < length L" "distinct (map fst ps)"
    "\<And>k v. (k, v) \<in> set ps \<Longrightarrow> k \<in> K \<and> bucket_index (h k) (length L) = i"
  shows "buckets_ok K h (L[i := ps])"
  using assms by (auto simp: buckets_ok_def nth_list_update split: if_splits)

subsection \<open>Finding a key\<close>

text \<open>Replacing, removing and finding the pair of a key in one chain.\<close>

lemma map_of_first_pos:
  "map_of ps k = map_option (\<lambda>i. snd (ps ! i)) (first_pos (\<lambda>p. fst p = k) ps)"
  by (induction ps) (auto simp: option.map_comp comp_def)

lemma first_pos_cong: "(\<And>x. x \<in> set xs \<Longrightarrow> P x = Q x) \<Longrightarrow> first_pos P xs = first_pos Q xs"
  by (induction xs) auto

lemma map_of_replace:
  "first_pos (\<lambda>p. fst p = k) ps = Some i \<Longrightarrow> map_of (ps[i := (k, v)]) = (map_of ps)(k \<mapsto> v)"
proof (induction ps arbitrary: i)
  case (Cons p ps)
  then show ?case by (cases i) (auto simp: fun_eq_iff split: if_splits)
qed simp

lemma map_fst_replace:
  "first_pos (\<lambda>p. fst p = k) ps = Some i \<Longrightarrow> map fst (ps[i := (k, v)]) = map fst ps"
proof (induction ps arbitrary: i)
  case (Cons p ps)
  then show ?case by (cases i) (auto split: if_splits)
qed simp

lemma map_of_remove:
  "distinct (map fst ps) \<Longrightarrow> first_pos (\<lambda>p. fst p = k) ps = Some i \<Longrightarrow>
   map_of (take i ps @ drop (Suc i) ps) = (map_of ps)(k := None)"
proof (induction ps arbitrary: i)
  case (Cons p ps)
  show ?case
  proof (cases "fst p = k")
    case True
    with Cons.prems have "i = 0" by simp
    moreover have "map_of ps k = None" using Cons.prems True by (simp add: map_of_eq_None_iff)
    ultimately show ?thesis using True by (auto simp: fun_eq_iff)
  next
    case False
    with Cons.prems obtain j where j: "i = Suc j" "first_pos (\<lambda>p. fst p = k) ps = Some j" by auto
    with Cons.IH [of j] Cons.prems(1) False show ?thesis by (cases p) (auto simp: fun_eq_iff)
  qed
qed simp

lemma bucket_item:
  "map_inv K m \<Longrightarrow> i < a_count (buckets m) \<Longrightarrow>
   array__item_val (buckets m) i = Some (bucket_list m ! i)"
  by (simp add: map_invD array_item_val bucket_list_def)

lemma find_with_hash_eq:
  assumes "map_inv K m" "k \<in> K"
  shows "find_with_hash m k (m_hash m k) =
    Some (map_option (Pair (key_index m k)) (first_pos (\<lambda>p. fst p = k) (bucket_list m ! key_index m k)))"
proof -
  let ?i = "key_index m k"
  have i: "?i < length (bucket_list m)" using key_index_less [OF assms(1)] map_invD(5) [OF assms(1)] by simp
  have "first_pos (\<lambda>p. m_eq m (fst p) k) (bucket_list m ! ?i) =
      first_pos (\<lambda>p. fst p = k) (bucket_list m ! ?i)"
  proof (rule first_pos_cong)
    fix p assume "p \<in> set (bucket_list m ! ?i)"
    then have "fst p \<in> K"
      using buckets_okD(2) [OF map_invD(4) [OF assms(1)] i, of "fst p" "snd p"] by simp
    then show "m_eq m (fst p) k = (fst p = k)" using map_invD(3) [OF assms(1)] assms(2) by simp
  qed
  then show ?thesis
    using bucket_item [OF assms(1) key_index_less [OF assms(1)]] map_invD(2) [OF assms(1)]
    by (simp add: find_with_hash_def Let_def key_index_def [symmetric] bucket_find_def)
qed

lemma map_get_lookup:
  assumes "map_inv K m" "k \<in> K"
  shows "map__get m k = Some (map_option (Pair k) (map_lookup m k))"
proof -
  let ?b = "bucket_list m ! key_index m k"
  show ?thesis
  proof (cases "first_pos (\<lambda>p. fst p = k) ?b")
    case None
    then show ?thesis
      by (simp add: map__get_def find_with_hash_eq [OF assms] map_lookup_def map_of_first_pos)
  next
    case (Some i)
    then have "fst (?b ! i) = k" by (simp add: first_pos_Some)
    then have "?b ! i = (k, snd (?b ! i))" by (metis prod.collapse)
    then show ?thesis
      using Some bucket_item [OF assms(1) key_index_less [OF assms(1)]]
      by (simp add: map__get_def find_with_hash_eq [OF assms] map_lookup_def map_of_first_pos)
  qed
qed

subsection \<open>Removing and replacing\<close>

lemma bucket_set:
  assumes "map_inv K m" "i < a_count (buckets m)"
  shows "\<exists>bs. array__item_set (buckets m) i ps = Some bs \<and> array_inv bs \<and>
    array_list bs = (bucket_list m)[i := ps] \<and> a_count bs = a_count (buckets m)"
  using array_set_facts [OF map_invD(1) [OF assms(1)] assms(2)] by (simp add: bucket_list_def)

text \<open>A map whose bucket of \<open>k\<close> is replaced by the pairs \<open>ps\<close> of the same keys, with \<open>k\<close> changed.\<close>

lemma map_lookup_update:
  assumes "map_inv K m" "array_list bs = (bucket_list m)[key_index m k := ps]"
    "a_count bs = a_count (buckets m)" "map_of ps = (map_of (bucket_list m ! key_index m k))(k := v)"
    "buckets m' = bs" "m_hash m' = m_hash m"
  shows "map_lookup m' = (map_lookup m)(k := v)"
proof
  fix x
  have "key_index m' x = key_index m x" for x using assms by (simp add: key_index_def)
  moreover have "key_index m x < length (bucket_list m)"
    using assms(1) by (simp add: map_invD(5) key_index_less)
  ultimately show "map_lookup m' x = ((map_lookup m)(k := v)) x"
    using assms(2,4,5)
    by (cases "key_index m x = key_index m k")
      (auto simp: map_lookup_def bucket_list_def)
qed

lemma sum_lengths_update:
  "i < length L \<Longrightarrow> sum_list (map length (L[i := ps])) + length (L ! i) =
     sum_list (map length L) + length ps"
proof (induction L arbitrary: i)
  case (Cons p L)
  then show ?case by (cases i) auto
qed simp

lemma sum_lengths_ge: "i < length L \<Longrightarrow> length (L ! i) \<le> sum_list (map length L)"
proof (induction L arbitrary: i)
  case (Cons p L)
  then show ?case by (cases i) (auto intro: trans_le_add2)
qed simp

lemma map_inv_update:
  assumes "map_inv K m" "array_inv bs" "array_list bs = (bucket_list m)[key_index m k := ps]"
    "a_count bs = a_count (buckets m)" "buckets m' = bs" "m_hash m' = m_hash m" "m_eq m' = m_eq m"
    "distinct (map fst ps)"
    "\<And>x v. (x, v) \<in> set ps \<Longrightarrow> x \<in> K \<and> key_index m x = key_index m k"
    "m_count m' + length (bucket_list m ! key_index m k) = m_count m + length ps"
  shows "map_inv K m'"
proof -
  note m = map_invD [OF assms(1)]
  have i: "key_index m k < length (bucket_list m)" by (simp add: m key_index_less [OF assms(1)])
  have "buckets_ok K (m_hash m) ((bucket_list m)[key_index m k := ps])"
    using assms(8,9) m(4,5) by (intro buckets_ok_update i) (auto simp: key_index_def)
  moreover have "m_count m' = sum_list (map length ((bucket_list m)[key_index m k := ps]))"
    using sum_lengths_update [OF i, of ps] assms(10) m(6) by simp
  ultimately show ?thesis
    using assms(2-7) m(2,3) by (simp add: map_inv_def bucket_list_def)
qed

lemma release_pair_simps [simp]:
  "buckets (release_and_free_pair m p) = buckets m"
  "m_count (release_and_free_pair m p) = m_count m"
  "m_hash (release_and_free_pair m p) = m_hash m"
  "m_eq (release_and_free_pair m p) = m_eq m"
  "key_releaser (release_and_free_pair m p) = key_releaser m"
  "value_releaser (release_and_free_pair m p) = value_releaser m"
  by (simp_all add: release_and_free_pair_def Let_def)

lemma map_unset_facts:
  assumes "map_inv K m" "k \<in> K"
  shows "\<exists>m'. map__unset m k = Some m' \<and> map_inv K m' \<and> map_lookup m' = (map_lookup m)(k := None) \<and>
    m_hash m' = m_hash m \<and> m_eq m' = m_eq m \<and>
    key_releaser m' = key_releaser m \<and> value_releaser m' = value_releaser m \<and>
    freed_values m' = freed_values m @ (case map_lookup m k of None \<Rightarrow> []
      | Some v \<Rightarrow> if value_releaser m then [v] else [])"
proof (cases "first_pos (\<lambda>p. fst p = k) (bucket_list m ! key_index m k)")
  case None
  then have none: "map_lookup m k = None" by (simp add: map_lookup_def map_of_first_pos)
  have "map__unset m k = Some m"
    using None by (simp add: map__unset_def find_with_hash_eq [OF assms] Let_def)
  then show ?thesis using assms(1) none by (auto simp: fun_eq_iff)
next
  case (Some pos)
  let ?i = "key_index m k" and ?b = "bucket_list m ! key_index m k"
  note m = map_invD [OF assms(1)]
  have i: "?i < a_count (buckets m)" using assms(1) by (rule key_index_less)
  let ?ps = "take pos ?b @ drop (Suc pos) ?b"
  from bucket_set [OF assms(1) i, of ?ps] obtain bs where
    bs: "array__item_set (buckets m) ?i ?ps = Some bs" "array_inv bs"
      "array_list bs = (bucket_list m)[?i := ?ps]" "a_count bs = a_count (buckets m)" by blast
  let ?m = "(release_and_free_pair m (?b ! pos))\<lparr>buckets := bs, m_count := m_count m - 1\<rparr>"
  have run: "map__unset m k = Some ?m"
    using Some bs(1) bucket_item [OF assms(1) i]
    by (simp add: map__unset_def find_with_hash_eq [OF assms] Let_def)
  have dist: "distinct (map fst ?b)" using buckets_okD(1) [OF m(4)] i m(5) by simp
  have pos: "pos < length ?b" using Some by (simp add: first_pos_Some)
  have sub: "set ?ps \<subseteq> set ?b" by (auto dest: in_set_takeD in_set_dropD)
  have "map_inv K ?m"
  proof (rule map_inv_update [OF assms(1) bs(2,3,4)])
    show "distinct (map fst ?ps)"
      using distinct_remove_nth [OF dist, of pos] by (simp add: take_map drop_map)
    show "x \<in> K \<and> key_index m x = ?i" if "(x, v) \<in> set ?ps" for x v
    proof -
      have "(x, v) \<in> set ?b" using that sub by blast
      with buckets_okD(2,3) [OF m(4)] i m(5) show ?thesis by (simp add: key_index_def)
    qed
    show "m_count ?m + length ?b = m_count m + length ?ps"
      using pos sum_lengths_ge [of ?i "bucket_list m"] i m(5,6) by simp
  qed simp_all
  moreover have "map_lookup ?m = (map_lookup m)(k := None)"
    using map_of_remove [OF dist Some] by (intro map_lookup_update [OF assms(1) bs(3,4)]) simp_all
  moreover have "map_lookup m k = Some (snd (?b ! pos))"
    using Some by (simp add: map_lookup_def map_of_first_pos)
  ultimately show ?thesis using run by (auto simp: release_and_free_pair_def Let_def)
qed

subsection \<open>Doubling\<close>

lemma mod_cases_double: "r < n + n \<Longrightarrow> r = r mod n \<or> r = r mod n + n" for r :: nat
  by (cases "r < n") (simp_all add: le_mod_geq)

lemma bucket_index_double:
  assumes "bucket_index h n = x" "0 < n"
  shows "bucket_index h (n + n) = x \<or> bucket_index h (n + n) = x + n"
proof -
  have "bucket_index h (n + n) mod n = x"
    unfolding bucket_index_def assms(1) [symmetric]
    by (rule mod_mod_cancel) simp
  then show ?thesis
    using mod_cases_double [of "bucket_index h (n + n)" n] bucket_index_less [of "n + n" h] assms(2)
    by simp
qed

lemma rehash_from_facts:
  assumes "array_inv a" "index < a_count a" "j < a_count a" "j \<noteq> index"
    "drop pos (array_list a ! index) = rest"
    "\<forall>p \<in> set rest. bucket_index (h (fst p)) n = index \<or> bucket_index (h (fst p)) n = j"
  shows "\<exists>b. rehash_from h n index pos rest a = Some b \<and> array_inv b \<and> a_count b = a_count a \<and>
    array_list b = (array_list a)
      [index := take pos (array_list a ! index) @
         filter (\<lambda>p. bucket_index (h (fst p)) n = index) rest,
       j := rev (filter (\<lambda>p. bucket_index (h (fst p)) n \<noteq> index) rest) @ array_list a ! j]"
  using assms
proof (induction rest arbitrary: pos a)
  case Nil
  then have "take pos (array_list a ! index) = array_list a ! index" by simp
  with Nil show ?case by simp
next
  case (Cons p rest)
  let ?L = "array_list a" and ?B = "array_list a ! index"
  let ?lo = "\<lambda>p. bucket_index (h (fst p)) n = index"
  let ?hi = "\<lambda>p. bucket_index (h (fst p)) n \<noteq> index"
  have len: "length ?L = a_count a" using Cons.prems(1) by (rule length_array_list)
  have pos: "pos < length ?B" "?B ! pos = p" "drop (Suc pos) ?B = rest"
  proof -
    show "pos < length ?B" using Cons.prems(5) by (cases "pos < length ?B") simp_all
    show "?B ! pos = p" using Cons.prems(5) by (rule nth_via_drop)
    show "drop (Suc pos) ?B = rest" using Cons.prems(5) by (simp add: drop_Suc drop_tl)
  qed
  show ?case
  proof (cases "?lo p")
    case True
    have "take (Suc pos) ?B = take pos ?B @ [p]" using pos by (simp add: take_Suc_conv_app_nth)
    with Cons.IH [of a "Suc pos"] Cons.prems pos True show ?thesis by simp
  next
    case False
    then have j: "bucket_index (h (fst p)) n = j" using Cons.prems(6) by auto
    let ?B' = "take pos ?B @ rest"
    from array_set_facts [OF Cons.prems(1,2), of ?B'] obtain a1 where
      a1: "array__item_set a index ?B' = Some a1" "array_inv a1" "array_list a1 = ?L[index := ?B']"
        "a_count a1 = a_count a" by blast
    from array_set_facts [OF a1(2), of j "p # ?L ! j"] Cons.prems(3) a1(4) obtain a2 where
      a2: "array__item_set a1 j (p # ?L ! j) = Some a2" "array_inv a2"
        "array_list a2 = ?L[index := ?B', j := p # ?L ! j]" "a_count a2 = a_count a"
      by (auto simp: a1(3))
    have at: "array_list a2 ! index = ?B'" "array_list a2 ! j = p # ?L ! j"
      using Cons.prems(2-4) len by (simp_all add: a2(3))
    have rd: "array__item_val a index = Some ?B" "array__item_val a1 j = Some (?L ! j)"
      using Cons.prems a1 array_item_val [OF Cons.prems(1), of index] array_item_val [OF a1(2), of j]
      by simp_all
    have "drop pos (array_list a2 ! index) = rest" "take pos (array_list a2 ! index) = take pos ?B"
      using at(1) pos(1) by simp_all
    with Cons.IH [OF a2(2), of pos] Cons.prems a2(4) obtain b where
      b: "rehash_from h n index pos rest a2 = Some b" "array_inv b" "a_count b = a_count a"
        "array_list b = (array_list a2)[index := take pos ?B @ filter ?lo rest,
           j := rev (filter ?hi rest) @ array_list a2 ! j]" by auto
    have "array_list b = ?L[index := take pos ?B @ filter ?lo (p # rest),
           j := rev (filter ?hi (p # rest)) @ ?L ! j]"
      using False Cons.prems(4) at(2) b(4)
      by (simp add: a2(3) list_update_swap [of j index])
    then show ?thesis using b(1-3) a1(1) a2(1) rd pos(3) j False by (auto simp: Let_def)
  qed
qed

text \<open>The bucket list after the first \<open>i\<close> of the old buckets \<open>L\<close> have been rehashed.\<close>

definition rehashed :: "('k \<Rightarrow> u32) \<Rightarrow> nat \<Rightarrow> ('k \<times> 'v) list list \<Rightarrow> ('k \<times> 'v) list list" where
  "rehashed h i L =
     (let bi = (\<lambda>p. bucket_index (h (fst p)) (length L + length L)) in
      map (\<lambda>x. if x < i then filter (\<lambda>p. bi p = x) (L ! x) else L ! x) [0..<length L] @
      map (\<lambda>x. if x < i then rev (filter (\<lambda>p. bi p \<noteq> x) (L ! x)) else []) [0..<length L])"

lemma length_rehashed [simp]: "length (rehashed h i L) = length L + length L"
  by (simp add: rehashed_def Let_def)

lemma rehashed_0: "rehashed h 0 L = L @ replicate (length L) []"
  by (simp add: rehashed_def Let_def map_nth map_replicate_const)

lemma rehashed_nth:
  "x < length L \<Longrightarrow> rehashed h i L ! x =
     (if x < i then filter (\<lambda>p. bucket_index (h (fst p)) (length L + length L) = x) (L ! x) else L ! x)"
  "x < length L \<Longrightarrow> rehashed h i L ! (length L + x) =
     (if x < i then rev (filter (\<lambda>p. bucket_index (h (fst p)) (length L + length L) \<noteq> x) (L ! x)) else [])"
  by (simp_all add: rehashed_def Let_def nth_append)

lemma rehashed_Suc:
  assumes "i < length L"
  shows "rehashed h (Suc i) L = (rehashed h i L)
      [i := filter (\<lambda>p. bucket_index (h (fst p)) (length L + length L) = i) (L ! i),
       i + length L := rev (filter (\<lambda>p. bucket_index (h (fst p)) (length L + length L) \<noteq> i) (L ! i))]"
  (is "?l = ?r")
proof (rule nth_equalityI)
  fix x assume "x < length ?l"
  then consider "x < length L" | y where "x = length L + y" "y < length L"
    by (metis add_less_cancel_left le_Suc_ex length_rehashed not_le)
  then show "?l ! x = ?r ! x"
    using assms by cases (auto simp: rehashed_nth nth_list_update)
qed simp

lemma rehash_all_facts:
  assumes "buckets_ok K h L" "0 < length L" "array_inv a" "a_count a = length L + length L"
    "array_list a = rehashed h i L" "i \<le> length L"
  shows "\<exists>b. rehash_all h (length L + length L) i a = Some b \<and> array_inv b \<and>
    a_count b = length L + length L \<and> array_list b = rehashed h (length L) L"
  using assms(3-6)
proof (induction "length L - i" arbitrary: i a)
  case 0
  then have i: "i = length L" by simp
  let ?n = "length L + length L"
  let ?B = "rehashed h i L ! i"
  have B: "?B = rev (filter (\<lambda>p. bucket_index (h (fst p)) ?n \<noteq> 0) (L ! 0))"
    using i assms(2) rehashed_nth(2) [of 0 L h i] by simp
  have all: "\<forall>p \<in> set ?B. bucket_index (h (fst p)) ?n = i"
  proof
    fix p assume "p \<in> set ?B"
    then have p: "(fst p, snd p) \<in> set (L ! 0)" "bucket_index (h (fst p)) ?n \<noteq> 0"
      by (simp_all add: B)
    from buckets_okD(3) [OF assms(1,2) p(1)] bucket_index_double [OF _ assms(2)] p(2)
    show "bucket_index (h (fst p)) ?n = i" by (fastforce simp: i)
  qed
  have ia: "i < a_count a" using 0 i assms(2) by simp
  have it: "array__item_val a i = Some ?B"
    using array_item_val [OF "0.prems"(1) ia] "0.prems"(3) by simp
  have fix_all: "rehash_from h ?n i pos ps a = Some a" if "\<forall>p \<in> set ps. bucket_index (h (fst p)) ?n = i"
    for pos ps using that by (induction ps arbitrary: pos) auto
  have "rehash_all h ?n i a = Some a"
    using ia it fix_all [OF all] i by (subst rehash_all.simps) simp
  with 0 i show ?case by simp
next
  case (Suc d)
  let ?n = "length L + length L"
  have i: "i < length L" using Suc(2) by simp
  have B: "rehashed h i L ! i = L ! i" using i by (simp add: rehashed_nth)
  have ia: "i < a_count a" "i + length L < a_count a" using i Suc.prems by simp_all
  have it: "array__item_val a i = Some (L ! i)"
    using array_item_val [OF Suc.prems(1) ia(1)] Suc.prems(3) B by simp
  have upper: "rehashed h i L ! (i + length L) = []"
    using rehashed_nth(2) [OF i, of h i] by (simp add: add.commute)
  have two: "\<forall>p \<in> set (L ! i). bucket_index (h (fst p)) ?n = i \<or>
      bucket_index (h (fst p)) ?n = i + length L"
    using buckets_okD(3) [OF assms(1) i] bucket_index_double [OF _ assms(2)] by (metis prod.collapse)
  from rehash_from_facts [OF Suc.prems(1) ia, of 0 "L ! i" h ?n] two assms(2) Suc.prems(3) B upper
  obtain b where b: "rehash_from h ?n i 0 (L ! i) a = Some b" "array_inv b" "a_count b = a_count a"
    "array_list b = rehashed h (Suc i) L"
    by (auto simp: rehashed_Suc [OF i])
  have d: "d = length L - Suc i" using Suc(2) by simp
  from Suc(1) [OF d b(2) _ b(4)] Suc.prems(2) b(3) i
  obtain c where c: "rehash_all h ?n (Suc i) b = Some c" "array_inv c" "a_count c = ?n"
    "array_list c = rehashed h (length L) L" by auto
  have "\<not> ?n div 2 \<le> i" using i by simp
  with c b ia(1) it show ?case by (simp add: rehash_all.simps [of h ?n i a])
qed

lemma map_of_filter_key: "P k \<Longrightarrow> map_of (filter (\<lambda>p. P (fst p)) ps) k = map_of ps k"
  by (induction ps) auto

lemma map_of_rev_distinct: "distinct (map fst ps) \<Longrightarrow> map_of (rev ps) = map_of ps"
  by (subst map_of_inject_set) (simp_all flip: rev_map)

lemma rehashed_ok:
  assumes "buckets_ok K h L" "0 < length L"
  shows "buckets_ok K h (rehashed h (length L) L)"
  unfolding buckets_ok_def
proof (intro allI impI)
  fix x assume "x < length (rehashed h (length L) L)"
  then consider "x < length L" | y where "x = length L + y" "y < length L"
    by (metis add_less_cancel_left le_Suc_ex length_rehashed not_le)
  then show "distinct (map fst (rehashed h (length L) L ! x)) \<and>
      (\<forall>p \<in> set (rehashed h (length L) L ! x). fst p \<in> K \<and>
        bucket_index (h (fst p)) (length (rehashed h (length L) L)) = x)"
  proof cases
    case 1
    then show ?thesis
      using buckets_okD [OF assms(1) 1] by (fastforce simp: rehashed_nth distinct_map_filter)
  next
    case 2
    note ok = buckets_okD [OF assms(1) 2(2)]
    have "distinct (map fst (rehashed h (length L) L ! x))"
      using ok(1) 2 by (simp add: rehashed_nth distinct_map_filter flip: rev_map)
    moreover have "fst p \<in> K \<and> bucket_index (h (fst p)) (length L + length L) = x"
      if "p \<in> set (rehashed h (length L) L ! x)" for p
      using that 2 ok(2,3) [of "fst p" "snd p"]
        bucket_index_double [of "h (fst p)" "length L" y] assms(2)
      by (auto simp: rehashed_nth)
    ultimately show ?thesis by simp
  qed
qed

lemma rehashed_lookup:
  assumes "buckets_ok K h L" "0 < length L"
  shows "map_of (rehashed h (length L) L ! bucket_index (h k) (length L + length L)) k =
    map_of (L ! bucket_index (h k) (length L)) k"
proof -
  let ?x = "bucket_index (h k) (length L)" and ?n = "length L + length L"
  have x: "?x < length L" using assms(2) by (rule bucket_index_less)
  note ok = buckets_okD [OF assms(1) x]
  from bucket_index_double [OF refl assms(2), of "h k"] show ?thesis
  proof
    assume "bucket_index (h k) ?n = ?x"
    then show ?thesis
      using x map_of_filter_key [of "\<lambda>k. bucket_index (h k) ?n = ?x" k "L ! ?x"]
      by (simp add: rehashed_nth)
  next
    assume i: "bucket_index (h k) ?n = ?x + length L"
    then have "bucket_index (h k) ?n \<noteq> ?x" using assms(2) by simp
    moreover have "distinct (map fst (filter (\<lambda>p. bucket_index (h (fst p)) ?n \<noteq> ?x) (L ! ?x)))"
      using ok(1) by (simp add: distinct_map_filter)
    ultimately show ?thesis
      using x i map_of_filter_key [of "\<lambda>k. bucket_index (h k) ?n \<noteq> ?x" k "L ! ?x"]
      by (simp add: rehashed_nth(2) [OF x] add.commute [of ?x] map_of_rev_distinct)
  qed
qed

lemma rehashed_full:
  "rehashed h (length L) L =
     map (\<lambda>x. filter (\<lambda>p. bucket_index (h (fst p)) (length L + length L) = x) (L ! x)) [0..<length L] @
     map (\<lambda>x. rev (filter (\<lambda>p. bucket_index (h (fst p)) (length L + length L) \<noteq> x) (L ! x))) [0..<length L]"
  by (simp add: rehashed_def Let_def)

lemma rehashed_sum: "sum_list (map length (rehashed h (length L) L)) = sum_list (map length L)"
proof -
  let ?bi = "\<lambda>p. bucket_index (h (fst p)) (length L + length L)"
  have "sum_list (map length (rehashed h (length L) L)) =
      (\<Sum>x \<leftarrow> [0..<length L]. length (filter (\<lambda>p. ?bi p = x) (L ! x))) +
      (\<Sum>x \<leftarrow> [0..<length L]. length (filter (\<lambda>p. ?bi p \<noteq> x) (L ! x)))"
    by (simp add: rehashed_full comp_def)
  also have "\<dots> = (\<Sum>x \<leftarrow> [0..<length L]. length (filter (\<lambda>p. ?bi p = x) (L ! x)) +
      length (filter (\<lambda>p. ?bi p \<noteq> x) (L ! x)))"
    by (simp add: sum_list_addf)
  also have "\<dots> = (\<Sum>x \<leftarrow> [0..<length L]. length (L ! x))"
    by (simp add: sum_length_filter_compl)
  also have "\<dots> = sum_list (map length L)"
    by (metis (no_types, lifting) map_map map_nth comp_def map_eq_conv)
  finally show ?thesis .
qed

lemma double_size_facts:
  assumes "map_inv K m"
  shows "\<exists>b. double_size m = Some (m\<lparr>buckets := b\<rparr>) \<and> map_inv K (m\<lparr>buckets := b\<rparr>) \<and>
    map_lookup (m\<lparr>buckets := b\<rparr>) = map_lookup m \<and> a_count b = 2 * a_count (buckets m)"
proof -
  note m = map_invD [OF assms]
  let ?L = "bucket_list m" and ?n = "a_count (buckets m)"
  let ?z = "array__add_zeroed_items [] (buckets m) ?n"
  note z = array_zeroed_facts [OF m(1), of "[]" ?n]
  have zl: "array_list ?z = rehashed (m_hash m) 0 ?L"
    using z(2) m(5) by (simp add: rehashed_0 bucket_list_def)
  have zc: "a_count ?z = length ?L + length ?L" using z(3) m(5) by simp
  have pos: "0 < length ?L" using m(2,5) by simp
  from rehash_all_facts [OF m(4) pos z(1) zc zl] obtain b where
    b: "rehash_all (m_hash m) (length ?L + length ?L) 0 ?z = Some b" "array_inv b"
      "a_count b = length ?L + length ?L" "array_list b = rehashed (m_hash m) (length ?L) ?L" by auto
  have run: "double_size m = Some (m\<lparr>buckets := b\<rparr>)"
    using b(1) zc by (simp add: double_size_def)
  have "map_inv K (m\<lparr>buckets := b\<rparr>)"
    using m b rehashed_ok [OF m(4) pos] rehashed_sum [of "m_hash m" ?L]
    by (simp add: map_inv_def bucket_list_def)
  moreover have "map_lookup (m\<lparr>buckets := b\<rparr>) = map_lookup m"
    using rehashed_lookup [OF m(4) pos] b(3,4) m(5)
    by (simp add: map_lookup_def key_index_def fun_eq_iff bucket_list_def)
  ultimately show ?thesis using run b(3) m(5) by auto
qed

lemma map_insert_facts:
  assumes "map_inv K m" "k \<in> K" "map_lookup m k = None" "i = key_index m k"
  shows "\<exists>bs. array__item_set (buckets m) i ((k, v) # bucket_list m ! i) = Some bs \<and>
    map_inv K (m\<lparr>buckets := bs, m_count := m_count m + 1\<rparr>) \<and>
    map_lookup (m\<lparr>buckets := bs, m_count := m_count m + 1\<rparr>) = (map_lookup m)(k \<mapsto> v)"
proof -
  note m = map_invD [OF assms(1)]
  let ?i = "key_index m k" and ?ps = "(k, v) # bucket_list m ! key_index m k"
  have i: "?i < a_count (buckets m)" using assms(1) by (rule key_index_less)
  from bucket_set [OF assms(1) i, of ?ps] obtain bs where
    bs: "array__item_set (buckets m) ?i ?ps = Some bs" "array_inv bs"
      "array_list bs = (bucket_list m)[?i := ?ps]" "a_count bs = a_count (buckets m)" by blast
  let ?m = "m\<lparr>buckets := bs, m_count := m_count m + 1\<rparr>"
  note ok = buckets_okD [OF m(4), of ?i, unfolded m(5), OF i]
  have "map_inv K ?m"
  proof (rule map_inv_update [OF assms(1) bs(2,3,4)])
    show "distinct (map fst ?ps)"
      using ok(1) assms(3) by (simp add: map_lookup_def map_of_eq_None_iff)
    show "x \<in> K \<and> key_index m x = ?i" if "(x, w) \<in> set ?ps" for x w
      using that ok(2,3) assms(2) by (auto simp: key_index_def)
  qed simp_all
  moreover have "map_lookup ?m = (map_lookup m)(k \<mapsto> v)"
    by (rule map_lookup_update [OF assms(1) bs(3,4)]) (simp_all add: fun_eq_iff)
  ultimately show ?thesis using bs(1) assms(4) by auto
qed

lemma map_set_facts:
  assumes "map_inv K m" "k \<in> K"
  shows "\<exists>m'. map__set m k v = Some m' \<and> map_inv K m' \<and> map_lookup m' = (map_lookup m)(k \<mapsto> v) \<and>
    m_hash m' = m_hash m \<and> m_eq m' = m_eq m \<and>
    key_releaser m' = key_releaser m \<and> value_releaser m' = value_releaser m"
proof (cases "first_pos (\<lambda>p. fst p = k) (bucket_list m ! key_index m k)")
  case None
  then have none: "map_lookup m k = None" by (simp add: map_lookup_def map_of_first_pos)
  let ?load = "(m_count m + 1) div a_count (buckets m)"
  obtain b where d: "(if over_load ?load then double_size m else Some m) = Some (m\<lparr>buckets := b\<rparr>)"
    "map_inv K (m\<lparr>buckets := b\<rparr>)" "map_lookup (m\<lparr>buckets := b\<rparr>) = map_lookup m"
    using double_size_facts [OF assms(1)] assms(1)
    by (cases "over_load ?load") (auto intro: that [of "buckets m"])
  let ?m = "m\<lparr>buckets := b\<rparr>"
  let ?i = "key_index ?m k"
  have "map_lookup ?m k = None" using none d(3) by simp
  from map_insert_facts [OF d(2) assms(2) this refl, of v] obtain bs where
    bs: "array__item_set b ?i ((k, v) # bucket_list ?m ! ?i) = Some bs"
      "map_inv K (?m\<lparr>buckets := bs, m_count := m_count m + 1\<rparr>)"
      "map_lookup (?m\<lparr>buckets := bs, m_count := m_count m + 1\<rparr>) = (map_lookup m)(k \<mapsto> v)"
    using d(3) by auto
  have "array__item_val b ?i = Some (bucket_list ?m ! ?i)"
    using bucket_item [OF d(2) key_index_less [OF d(2)]] by simp
  then have "map__set m k v = Some (?m\<lparr>buckets := bs, m_count := m_count m + 1\<rparr>)"
    using None d(1) bs(1)
    by (simp add: map__set_def find_with_hash_eq [OF assms] Let_def key_index_def)
  with bs(2,3) show ?thesis by simp
next
  case (Some pos)
  let ?i = "key_index m k" and ?b = "bucket_list m ! key_index m k"
  note m = map_invD [OF assms(1)]
  have i: "?i < a_count (buckets m)" using assms(1) by (rule key_index_less)
  let ?ps = "?b[pos := (k, v)]"
  from bucket_set [OF assms(1) i, of ?ps] obtain bs where
    bs: "array__item_set (buckets m) ?i ?ps = Some bs" "array_inv bs"
      "array_list bs = (bucket_list m)[?i := ?ps]" "a_count bs = a_count (buckets m)" by blast
  define m1 where "m1 = (if key_releaser m \<and> fst (?b ! pos) \<noteq> k
      then m\<lparr>freed_keys := freed_keys m @ [fst (?b ! pos)]\<rparr> else m)"
  define m2 where "m2 = (if value_releaser m1 \<and> snd (?b ! pos) \<noteq> v
      then m1\<lparr>freed_values := freed_values m1 @ [snd (?b ! pos)]\<rparr> else m1)"
  have m2: "buckets m2 = buckets m" "m_count m2 = m_count m" "m_hash m2 = m_hash m"
    "m_eq m2 = m_eq m" "key_releaser m2 = key_releaser m" "value_releaser m2 = value_releaser m"
    by (simp_all add: m2_def m1_def)
  let ?m = "m2\<lparr>buckets := bs\<rparr>"
  have run: "map__set m k v = Some ?m"
    using Some bs(1) bucket_item [OF assms(1) i]
    by (cases "?b ! pos") (simp add: map__set_def find_with_hash_eq [OF assms] Let_def m1_def m2_def)
  note ok = buckets_okD [OF m(4), of ?i, unfolded m(5), OF i]
  have "map_inv K ?m"
  proof (rule map_inv_update [OF assms(1) bs(2,3,4)])
    show "distinct (map fst ?ps)" using ok(1) Some by (simp add: map_fst_replace)
    show "x \<in> K \<and> key_index m x = ?i" if "(x, w) \<in> set ?ps" for x w
    proof -
      from that have "(x, w) = (k, v) \<or> (x, w) \<in> set ?b"
        by (meson insertE set_update_subset_insert subset_iff)
      then show ?thesis using ok(2,3) assms(2) by (auto simp: key_index_def)
    qed
  qed (simp_all add: m2)
  moreover have "map_lookup ?m = (map_lookup m)(k \<mapsto> v)"
    using Some m2 by (intro map_lookup_update [OF assms(1) bs(3,4)]) (simp_all add: map_of_replace)
  ultimately show ?thesis using run m2 by auto
qed

text \<open>Setting a key that is not in the map releases nothing.\<close>

lemma double_size_frees_nothing: "double_size m = Some m' \<Longrightarrow> freed_values m' = freed_values m"
  by (auto simp: double_size_def Let_def)

lemma map_set_fresh_frees_nothing:
  assumes "map_inv K m" "k \<in> K" "map_lookup m k = None" "map__set m k v = Some m'"
  shows "freed_values m' = freed_values m"
proof -
  have "first_pos (\<lambda>p. fst p = k) (bucket_list m ! key_index m k) = None"
    using assms(3) by (simp add: map_lookup_def map_of_first_pos)
  then show ?thesis
    using assms(4) by (auto simp: map__set_def find_with_hash_eq [OF assms(1,2)] Let_def
        split: if_splits dest: double_size_frees_nothing)
qed

lemma map_new_facts:
  assumes "\<forall>x \<in> K. \<forall>y \<in> K. e x y \<longleftrightarrow> x = y"
  shows "map_inv K (map__new h e :: ('k, 'v) cmap)"
    and "map_lookup (map__new h e :: ('k, 'v) cmap) = (\<lambda>_. None)"
proof -
  let ?a = "(array__new (int MIN_BUCKETS) :: ('k \<times> 'v) list carray)\<lparr>releaser := True\<rparr>"
  have a: "array_inv ?a" "array_list ?a = []" "a_count ?a = 0"
    using array_new_inv [of "int MIN_BUCKETS"] array_new_list [of "int MIN_BUCKETS"]
    by (simp_all add: array_inv_def array_list_def)
  note z = array_zeroed_facts [OF a(1), of "[]" MIN_BUCKETS]
  have L: "bucket_list (map__new h e :: ('k, 'v) cmap) = replicate MIN_BUCKETS []"
    using z(2) a(2) by (simp add: bucket_list_def map__new_def)
  have c: "a_count (buckets (map__new h e :: ('k, 'v) cmap)) = MIN_BUCKETS"
    using z(3) a(3) by (simp add: map__new_def)
  show "map_inv K (map__new h e :: ('k, 'v) cmap)"
    using assms z(1) c L
    by (simp add: map_inv_def buckets_ok_def MIN_BUCKETS_def) (simp add: map__new_def MIN_BUCKETS_def)
  show "map_lookup (map__new h e :: ('k, 'v) cmap) = (\<lambda>_. None)"
  proof
    fix k
    have "key_index (map__new h e :: ('k, 'v) cmap) k < MIN_BUCKETS"
      unfolding key_index_def c by (rule bucket_index_less) (simp add: MIN_BUCKETS_def)
    then show "map_lookup (map__new h e :: ('k, 'v) cmap) k = None"
      by (simp add: map_lookup_def L)
  qed
qed

subsection \<open>Iterating\<close>

lemma map_next_Cons: "map__next m i (x # p) = Some (Some x, i, Some p)"
  by (simp add: map__next_def skip_empty.simps [of m i "x # p"])

lemma map_next_Nil_step:
  assumes "map_inv K m" "-1 \<le> i" "i < int (a_count (buckets m)) - 1"
  shows "map__next m i [] = map__next m (i + 1) (bucket_list m ! nat (i + 1))"
proof -
  have "array__item_val (buckets m) (nat (i + 1)) = Some (bucket_list m ! nat (i + 1))"
    using assms by (intro bucket_item [OF assms(1)]) linarith
  with assms(3) have "skip_empty m i [] = skip_empty m (i + 1) (bucket_list m ! nat (i + 1))"
    by (subst skip_empty.simps) simp
  then show ?thesis by (simp add: map__next_def)
qed

lemma map_for_append:
  assumes "map_for m i [] = Some ps"
  shows "map_for m i p = Some (p @ ps)"
proof (induction p)
  case Nil
  then show ?case using assms by simp
next
  case (Cons x p)
  then show ?case by (subst map_for.simps) (simp add: map_next_Cons)
qed

lemma map_for_Nil:
  assumes "map_inv K m" "-1 \<le> i" "i < int (a_count (buckets m))"
  shows "map_for m i [] = Some (concat (drop (nat (i + 1)) (bucket_list m)))"
  using assms(2,3)
proof (induction "nat (int (a_count (buckets m)) - 1 - i)" arbitrary: i)
  case 0
  then have i: "i = int (a_count (buckets m)) - 1" by simp
  then have "skip_empty m i [] = Some (i, [])" by (subst skip_empty.simps) simp
  then have "map__next m i [] = Some (None, i, None)" by (simp add: map__next_def)
  then show ?case
    using i map_invD(5) [OF assms(1)] by (subst map_for.simps) simp
next
  case (Suc d)
  then have i: "i < int (a_count (buckets m)) - 1" by simp
  let ?j = "nat (i + 1)"
  have j: "?j < length (bucket_list m)" using i Suc.prems map_invD(5) [OF assms(1)] by simp
  have "map_for m i [] = map_for m (i + 1) (bucket_list m ! ?j)"
    using map_next_Nil_step [OF assms(1) Suc.prems(1) i] by (simp add: map_for.simps [of m i] map_for.simps [of m "i + 1"])
  also have "\<dots> = Some (bucket_list m ! ?j @ concat (drop (nat (i + 1 + 1)) (bucket_list m)))"
    using Suc i by (intro map_for_append) simp
  also have "nat (i + 1 + 1) = Suc ?j" using Suc.prems(1) by simp
  finally show ?case using j by (simp flip: Cons_nth_drop_Suc)
qed

lemma map_for_all:
  assumes "map_inv K m"
  shows "map_for m (-1) [] = Some (concat (bucket_list m))"
  using map_for_Nil [OF assms, of "-1"] map_invD(2) [OF assms] by simp

lemma buckets_ok_disjoint:
  assumes "buckets_ok K h L" "i < length L" "j < length L" "i \<noteq> j"
  shows "fst ` set (L ! i) \<inter> fst ` set (L ! j) = {}"
proof (rule equals0I)
  fix k assume "k \<in> fst ` set (L ! i) \<inter> fst ` set (L ! j)"
  then obtain v w where "(k, v) \<in> set (L ! i)" "(k, w) \<in> set (L ! j)" by auto
  with buckets_okD(3) [OF assms(1,2)] buckets_okD(3) [OF assms(1,3)] assms(4) show False by blast
qed

text \<open>Every pair of the map, each once.\<close>

lemma concat_bucket_list:
  assumes "map_inv K m"
  shows "distinct (map fst (concat (bucket_list m)))"
    and "(k, v) \<in> set (concat (bucket_list m)) \<longleftrightarrow> map_lookup m k = Some v"
    and "length (concat (bucket_list m)) = m_count m"
proof -
  note m = map_invD [OF assms]
  have dist: "distinct (map fst (concat L))"
    if "\<forall>ps \<in> set L. distinct (map fst ps)"
      "\<forall>i < length L. \<forall>j < length L. i \<noteq> j \<longrightarrow> fst ` set (L ! i) \<inter> fst ` set (L ! j) = {}"
    for L :: "('a \<times> 'b) list list"
    using that
  proof (induction L)
    case (Cons ps L)
    have "\<forall>i < length L. \<forall>j < length L. i \<noteq> j \<longrightarrow> fst ` set (L ! i) \<inter> fst ` set (L ! j) = {}"
    proof (intro allI impI)
      fix i j assume "i < length L" "j < length L" "i \<noteq> j"
      then show "fst ` set (L ! i) \<inter> fst ` set (L ! j) = {}"
        using Cons.prems(2) [rule_format, of "Suc i" "Suc j"] by simp
    qed
    moreover have "fst ` set ps \<inter> fst ` set qs = {}" if "qs \<in> set L" for qs
    proof -
      from that obtain j where "j < length L" "qs = L ! j" by (auto simp: in_set_conv_nth)
      then show ?thesis using Cons.prems(2) [rule_format, of 0 "Suc j"] by simp
    qed
    then have "fst ` set ps \<inter> fst ` set (concat L) = {}" by (simp add: set_concat image_Union) blast
    ultimately show ?case using Cons.IH Cons.prems(1) by simp
  qed simp
  have disj: "fst ` set (bucket_list m ! i) \<inter> fst ` set (bucket_list m ! j) = {}"
    if "i < length (bucket_list m)" "j < length (bucket_list m)" "i \<noteq> j" for i j
    using that by (rule buckets_ok_disjoint [OF m(4)])
  show "distinct (map fst (concat (bucket_list m)))"
    using buckets_okD(1) [OF m(4)] disj by (intro dist) (auto simp: in_set_conv_nth)
  show "length (concat (bucket_list m)) = m_count m" using m(6) by (simp add: length_concat)
  have i: "key_index m k < length (bucket_list m)" using key_index_less [OF assms] m(5) by simp
  have "(k, v) \<in> set (concat (bucket_list m)) \<longleftrightarrow> (k, v) \<in> set (bucket_list m ! key_index m k)"
  proof
    assume "(k, v) \<in> set (concat (bucket_list m))"
    then obtain j where j: "j < length (bucket_list m)" "(k, v) \<in> set (bucket_list m ! j)"
      by (auto simp: in_set_conv_nth [of _ "bucket_list m"])
    then have "key_index m k = j" using buckets_okD(3) [OF m(4) j(1)] m(5) by (simp add: key_index_def)
    with j show "(k, v) \<in> set (bucket_list m ! key_index m k)" by simp
  next
    assume "(k, v) \<in> set (bucket_list m ! key_index m k)"
    with nth_mem [OF i] show "(k, v) \<in> set (concat (bucket_list m))" by auto
  qed
  also have "\<dots> \<longleftrightarrow> map_lookup m k = Some v"
    using buckets_okD(1) [OF m(4) i] by (simp add: map_lookup_def)
  finally show "(k, v) \<in> set (concat (bucket_list m)) \<longleftrightarrow> map_lookup m k = Some v" .
qed

subsection \<open>Releasing\<close>

lemma release_pairs_log:
  "freed_keys (foldl release_and_free_pair m ps) =
     freed_keys m @ (if key_releaser m then map fst ps else [])"
  "freed_values (foldl release_and_free_pair m ps) =
     freed_values m @ (if value_releaser m then map snd ps else [])"
  "key_releaser (foldl release_and_free_pair m ps) = key_releaser m"
  "value_releaser (foldl release_and_free_pair m ps) = value_releaser m"
  "buckets (foldl release_and_free_pair m ps) = buckets m"
  "m_count (foldl release_and_free_pair m ps) = m_count m"
  "m_hash (foldl release_and_free_pair m ps) = m_hash m"
  "m_eq (foldl release_and_free_pair m ps) = m_eq m"
  by (induction ps arbitrary: m) (auto simp: release_and_free_pair_def Let_def)

lemma release_buckets_log:
  "freed_keys (foldl (foldl release_and_free_pair) m L) =
     freed_keys m @ (if key_releaser m then map fst (concat L) else [])"
  "freed_values (foldl (foldl release_and_free_pair) m L) =
     freed_values m @ (if value_releaser m then map snd (concat L) else [])"
  by (induction L arbitrary: m) (auto simp: release_pairs_log)

text \<open>The bucket array keeps its releaser and has released nothing while the map is in use.\<close>

definition map_owns :: "('k, 'v) cmap \<Rightarrow> bool" where
  "map_owns m \<longleftrightarrow> releaser (buckets m) \<and> released (buckets m) = []"

lemma item_set_owns:
  "array__item_set a i x = Some b \<Longrightarrow> releaser b = releaser a \<and> released b = released a"
  by (auto simp: array__item_set_def split: if_splits)

lemma rehash_from_owns:
  "rehash_from h n index pos rest a = Some b \<Longrightarrow> releaser b = releaser a \<and> released b = released a"
proof (induction rest arbitrary: pos a)
  case (Cons p rest)
  then show ?case by (auto simp: Let_def split: if_splits dest!: item_set_owns)
qed simp

lemma rehash_all_owns:
  "rehash_all h n index a = Some b \<Longrightarrow> releaser b = releaser a \<and> released b = released a"
proof (induction h n index a rule: rehash_all.induct)
  case (1 h n index a)
  show ?case
  proof (cases "index < a_count a")
    case True
    with 1(2) obtain bucket c where
      c: "array__item_val a index = Some bucket" "rehash_from h n index 0 bucket a = Some c"
        "(if index \<ge> n div 2 then Some c else rehash_all h n (Suc index) c) = Some b"
      by (subst (asm) rehash_all.simps) auto
    show ?thesis
      using 1(1) [OF True c(1,2)] c(3) rehash_from_owns [OF c(2)] by (auto split: if_splits)
  next
    case False
    with 1(2) show ?thesis by (subst (asm) rehash_all.simps) simp
  qed
qed

lemma add_zeroed_owns [simp]:
  "releaser (array__add_zeroed_items z a n) = releaser a"
  "released (array__add_zeroed_items z a n) = released a"
  by (simp_all add: array__add_zeroed_items_def Let_def)

lemma double_size_owns: "double_size m = Some m' \<Longrightarrow> map_owns m' = map_owns m"
  by (auto simp: double_size_def map_owns_def Let_def dest!: rehash_all_owns)

lemma map_ops_own:
  "map_owns (map__new h e)"
  "map__set m k v = Some m' \<Longrightarrow> map_owns m \<Longrightarrow> map_owns m'"
  "map__unset m k = Some m' \<Longrightarrow> map_owns m \<Longrightarrow> map_owns m'"
proof -
  show "map_owns (map__new h e)"
    by (simp add: map_owns_def map__new_def array__new_def array__init_def Let_def)
  show "map_owns m'" if "map__set m k v = Some m'" "map_owns m"
    using that
    by (auto simp: map__set_def map_owns_def run_iffs if_distrib [of buckets] if_distrib [of releaser]
        dest!: item_set_owns dest: double_size_owns [unfolded map_owns_def] cong: if_cong)
  show "map_owns m'" if "map__unset m k = Some m'" "map_owns m"
    using that
    by (auto simp: map__unset_def Let_def map_owns_def split: option.splits dest!: item_set_owns)
qed

lemma map_delete_log:
  assumes "map_inv K m" "map_owns m"
  shows "map__delete m =
    (freed_keys m @ (if key_releaser m then map fst (concat (bucket_list m)) else []),
     freed_values m @ (if value_releaser m then map snd (concat (bucket_list m)) else []))"
proof -
  have "map the (array__delete (buckets m)) = bucket_list m"
    using assms(2) by (simp add: array__delete_def array__release_def array__clear_def Let_def
        map_owns_def bucket_list_def array_list_def)
  then show ?thesis by (simp add: map__delete_def Let_def release_buckets_log)
qed

lemma clear_from_facts:
  assumes "map_inv K m" "index \<le> a_count (buckets m)" "\<forall>i < index. bucket_list m ! i = []"
  shows "\<exists>m'. clear_from m index = Some m' \<and> array_inv (buckets m') \<and>
    bucket_list m' = replicate (a_count (buckets m)) [] \<and>
    a_count (buckets m') = a_count (buckets m) \<and> m_hash m' = m_hash m \<and> m_eq m' = m_eq m \<and>
    freed_keys m' = freed_keys m @
      (if key_releaser m then map fst (concat (drop index (bucket_list m))) else []) \<and>
    freed_values m' = freed_values m @
      (if value_releaser m then map snd (concat (drop index (bucket_list m))) else [])"
  using map_invD(1,5) [OF assms(1)] assms(2,3)
proof (induction "a_count (buckets m) - index" arbitrary: m index)
  case 0
  then have i: "index = a_count (buckets m)" by simp
  then have "bucket_list m = replicate (a_count (buckets m)) []"
    using 0 by (intro nth_equalityI) simp_all
  then show ?case using 0 i by (subst clear_from.simps) simp
next
  case (Suc d)
  let ?b = "bucket_list m ! index"
  have i: "index < a_count (buckets m)" using Suc(2) by simp
  from array_set_facts [OF Suc.prems(1) i, of "[]"] obtain bs where
    bs: "array__item_set (buckets m) index [] = Some bs" "array_inv bs"
      "array_list bs = (bucket_list m)[index := []]" "a_count bs = a_count (buckets m)"
    by (auto simp: bucket_list_def)
  let ?m = "(foldl release_and_free_pair m ?b)\<lparr>buckets := bs\<rparr>"
  have it: "array__item_val (buckets m) index = Some ?b"
    using array_item_val [OF Suc.prems(1) i] by (simp add: bucket_list_def)
  have bl: "bucket_list ?m = (bucket_list m)[index := []]" using bs(3) by (simp add: bucket_list_def)
  have dr: "drop index (bucket_list m) = ?b # drop (Suc index) (bucket_list m)"
    using i Suc.prems(2) by (simp add: Cons_nth_drop_Suc)
  have "d = a_count (buckets ?m) - Suc index" using Suc(2) bs(4) by simp
  from Suc(1) [OF this] obtain m' where m': "clear_from ?m (Suc index) = Some m'"
    "array_inv (buckets m')" "bucket_list m' = replicate (a_count (buckets m)) []"
    "a_count (buckets m') = a_count (buckets m)" "m_hash m' = m_hash m" "m_eq m' = m_eq m"
    "freed_keys m' = freed_keys ?m @
      (if key_releaser ?m then map fst (concat (drop (Suc index) (bucket_list ?m))) else [])"
    "freed_values m' = freed_values ?m @
      (if value_releaser ?m then map snd (concat (drop (Suc index) (bucket_list ?m))) else [])"
    using bs Suc.prems i bl by (auto simp: release_pairs_log less_Suc_eq nth_list_update)
  have "clear_from m index = Some m'"
    using m'(1) bs(1) it i by (subst clear_from.simps) (simp add: Let_def)
  with m'(2-) show ?case by (auto simp: bl dr release_pairs_log)
qed

lemma map_clear_facts:
  assumes "map_inv K m"
  shows "\<exists>m'. map__clear m = Some m' \<and> map_inv K m' \<and> map_lookup m' = (\<lambda>_. None) \<and>
    freed_keys m' = freed_keys m @ (if key_releaser m then map fst (concat (bucket_list m)) else []) \<and>
    freed_values m' = freed_values m @ (if value_releaser m then map snd (concat (bucket_list m)) else [])"
proof -
  from clear_from_facts [OF assms, of 0] obtain m' where
    m': "clear_from m 0 = Some m'" "array_inv (buckets m')"
    "bucket_list m' = replicate (a_count (buckets m)) []"
    "a_count (buckets m') = a_count (buckets m)" "m_hash m' = m_hash m" "m_eq m' = m_eq m"
    "freed_keys m' = freed_keys m @ (if key_releaser m then map fst (concat (bucket_list m)) else [])"
    "freed_values m' = freed_values m @ (if value_releaser m then map snd (concat (bucket_list m)) else [])"
    by auto
  let ?m = "m'\<lparr>m_count := 0\<rparr>"
  have n: "0 < a_count (buckets m)" by (rule map_invD(2) [OF assms])
  have bl: "bucket_list ?m = replicate (a_count (buckets m)) []" using m'(3) by (simp add: bucket_list_def)
  have inv: "map_inv K ?m"
    using m' n map_invD(3) [OF assms] bl by (simp add: map_inv_def buckets_ok_def)
  have "map_lookup ?m = (\<lambda>_. None)"
    using key_index_less [OF inv] m'(4) by (simp add: map_lookup_def bl fun_eq_iff)
  with m' inv show ?thesis by (simp add: map__clear_def)
qed

section \<open>The map as an interface\<close>

text \<open>
  What the clients of a map rely on: it implements a partial function on the keys \<open>K\<close>. The lemmas
  of the locale are the uses that msgbox makes of it.
\<close>

locale dictionary =
  fixes K :: "'k set"
    and inv :: "'m \<Rightarrow> bool"
    and lookup :: "'m \<Rightarrow> 'k \<Rightarrow> 'v option"
    and get :: "'m \<Rightarrow> 'k \<Rightarrow> ('k \<times> 'v) option option"
    and put :: "'m \<Rightarrow> 'k \<Rightarrow> 'v \<Rightarrow> 'm option"
    and unset :: "'m \<Rightarrow> 'k \<Rightarrow> 'm option"
  assumes get_lookup: "inv m \<Longrightarrow> k \<in> K \<Longrightarrow> get m k = Some (map_option (Pair k) (lookup m k))"
    and put_lookup: "inv m \<Longrightarrow> k \<in> K \<Longrightarrow>
      \<exists>m'. put m k v = Some m' \<and> inv m' \<and> lookup m' = (lookup m)(k \<mapsto> v)"
    and unset_lookup: "inv m \<Longrightarrow> k \<in> K \<Longrightarrow>
      \<exists>m'. unset m k = Some m' \<and> inv m' \<and> lookup m' = (lookup m)(k := None)"
begin

lemma get_put:
  assumes "inv m" "k \<in> K" "put m k v = Some m'" "j \<in> K"
  shows "get m' j = (if j = k then Some (Some (k, v)) else get m j)"
  using put_lookup [OF assms(1,2), of v] assms get_lookup by auto

lemma get_unset:
  assumes "inv m" "k \<in> K" "unset m k = Some m'" "j \<in> K"
  shows "get m' j = (if j = k then Some None else get m j)"
  using unset_lookup [OF assms(1,2)] assms get_lookup by auto

text \<open>A key that is put and then unset leaves no trace in the other keys.\<close>

lemma unset_put:
  assumes "inv m" "k \<in> K" "lookup m k = None" "put m k v = Some m1"
  shows "\<exists>m2. unset m1 k = Some m2 \<and> inv m2 \<and> lookup m2 = lookup m"
proof -
  from put_lookup [OF assms(1,2), of v] assms(4) have m1: "inv m1" "lookup m1 = (lookup m)(k \<mapsto> v)"
    by auto
  from unset_lookup [OF m1(1) assms(2)] m1(2) assms(3) show ?thesis by (auto simp: fun_upd_idem)
qed

end

text \<open>A dictionary that can be created empty.\<close>

locale new_dictionary = dictionary +
  fixes new :: "'m"
  assumes new_inv: "inv new" and new_lookup: "lookup new = (\<lambda>_. None)"
begin

lemma get_new: "k \<in> K \<Longrightarrow> get new k = Some None"
  by (simp add: get_lookup new_inv new_lookup)

lemma get_put_new: "k \<in> K \<Longrightarrow> \<exists>m. put new k v = Some m \<and> inv m \<and> get m k = Some (Some (k, v))"
  using put_lookup [OF new_inv, of k v] get_lookup by fastforce

end

interpretation cmap: dictionary K "map_inv K" map_lookup map__get map__set map__unset for K
proof unfold_locales
  show "map__get m k = Some (map_option (Pair k) (map_lookup m k))"
    if "map_inv K m" "k \<in> K" for m :: "('a, 'b) cmap" and k
    using that by (rule map_get_lookup)
  show "\<exists>m'. map__set m k v = Some m' \<and> map_inv K m' \<and> map_lookup m' = (map_lookup m)(k \<mapsto> v)"
    if "map_inv K m" "k \<in> K" for m :: "('a, 'b) cmap" and k v
    using map_set_facts [OF that, of v] by blast
  show "\<exists>m'. map__unset m k = Some m' \<and> map_inv K m' \<and> map_lookup m' = (map_lookup m)(k := None)"
    if "map_inv K m" "k \<in> K" for m :: "('a, 'b) cmap" and k
    using map_unset_facts [OF that] by blast
qed

end
