(* ===== verification/Address.thy ===== *)
theory Address
  imports MsgTypes CMap
begin

text \<open>
  Addresses in msgbox.c: hashing and comparing them (and the reply ids) for the hash maps, printing
  them, and parsing the address strings that the user gives. The functions of the C library that
  the code calls here (\<open>memcmp\<close>, \<open>strncmp\<close>, \<open>strchr\<close>, \<open>strtol\<close>, \<open>inet_pton\<close>, \<open>inet_ntoa\<close>,
  \<open>snprintf\<close> with its size limit) are modelled as far as the code uses them. A C string is the list
  of its characters before the terminator.
\<close>

section \<open>Hashing and comparing\<close>

text \<open>The eight bytes of an \<open>Address\<close> in memory.\<close>

definition address_bytes :: "Address \<Rightarrow> bytes" where
  "address_bytes a = le32 (ip a) @ le16 (port a) @ le16 (addr_protocol a)"

text \<open>\<open>char\<close> is signed and \<open>int\<close> arithmetic wraps, as the compilers the project uses make it.\<close>

definition address_hash :: "Address \<Rightarrow> u32" where
  "address_hash a = foldl (\<lambda>hash b. hash * 234 + scast b) 0 (address_bytes a)"

definition address_eq :: "Address \<Rightarrow> Address \<Rightarrow> bool" where
  "address_eq a1 a2 \<longleftrightarrow> address_bytes a1 = address_bytes a2"

text \<open>A reply id as a map key is the id cast to a pointer.\<close>

definition reply_id_key :: "u16 \<Rightarrow> vptr" where
  "reply_id_key r = ucast r"

definition reply_id_hash :: "vptr \<Rightarrow> u32" where
  "reply_id_hash r = ucast r"

definition reply_id_eq :: "vptr \<Rightarrow> vptr \<Rightarrow> bool" where
  "reply_id_eq r1 r2 \<longleftrightarrow> (ucast r1 :: u16) = ucast r2"

definition reply_keys :: "vptr set" where
  "reply_keys = range reply_id_key"

lemma address_bytes_inject [simp]: "address_bytes a = address_bytes b \<longleftrightarrow> a = b"
  by (cases a; cases b) (simp add: address_bytes_def)

lemma address_eq_iff: "address_eq a b \<longleftrightarrow> a = b"
  by (simp add: address_eq_def)

lemma reply_key_in [simp, intro]: "reply_id_key r \<in> reply_keys"
  by (simp add: reply_keys_def)

lemma ucast_reply_key [simp]: "(ucast (reply_id_key r) :: u16) = r"
  by (rule bit_word_eqI) (simp add: reply_id_key_def bit_simps)

lemma reply_id_key_inject [simp]: "reply_id_key r = reply_id_key s \<longleftrightarrow> r = s"
  by (metis ucast_reply_key)

lemma reply_id_eq_iff: "x \<in> reply_keys \<Longrightarrow> y \<in> reply_keys \<Longrightarrow> reply_id_eq x y \<longleftrightarrow> x = y"
  by (auto simp: reply_keys_def reply_id_eq_def)

text \<open>The two kinds of map that msgbox creates are dictionaries.\<close>

definition new_conn_status_map :: "(Address, nat) cmap" where
  "new_conn_status_map =
     (map__new address_hash address_eq)\<lparr>key_releaser := True, value_releaser := True\<rparr>"

definition new_reply_contexts :: "(vptr, vptr) cmap" where
  "new_reply_contexts = map__new reply_id_hash reply_id_eq"

lemma map_inv_releasers [simp]:
  "map_inv K (m\<lparr>key_releaser := a, value_releaser := b\<rparr>) = map_inv K m"
  "map_lookup (m\<lparr>key_releaser := a, value_releaser := b\<rparr>) = map_lookup m"
  by (simp_all add: map_inv_def bucket_list_def map_lookup_def key_index_def fun_eq_iff)

interpretation conn_status_map: new_dictionary UNIV "map_inv UNIV" map_lookup map__get map__set
    map__unset new_conn_status_map
proof unfold_locales
  show "map_inv UNIV new_conn_status_map"
    by (simp add: new_conn_status_map_def map_new_facts address_eq_iff)
  show "map_lookup new_conn_status_map = (\<lambda>_. None)"
    using map_new_facts(2) [of UNIV address_eq] by (simp add: new_conn_status_map_def address_eq_iff)
qed

interpretation reply_map: new_dictionary reply_keys "map_inv reply_keys" map_lookup map__get map__set
    map__unset new_reply_contexts
proof unfold_locales
  show "map_inv reply_keys new_reply_contexts"
    by (simp add: new_reply_contexts_def map_new_facts reply_id_eq_iff)
  show "map_lookup new_reply_contexts = (\<lambda>_. None)"
    using map_new_facts(2) [of reply_keys reply_id_eq]
    by (simp add: new_reply_contexts_def reply_id_eq_iff)
qed

section \<open>Printing addresses\<close>

definition digit_char :: "nat \<Rightarrow> char" where
  "digit_char d = char_of (48 + d)"

definition is_digit :: "char \<Rightarrow> bool" where
  "is_digit c \<longleftrightarrow> 48 \<le> (of_char c :: nat) \<and> (of_char c :: nat) \<le> 57"

definition digit_val :: "char \<Rightarrow> nat" where
  "digit_val c = of_char c - 48"

text \<open>The \<open>%d\<close> conversion of a number that is not negative.\<close>

fun dec_string :: "nat \<Rightarrow> string" where
  "dec_string n = (if n < 10 then [digit_char n] else dec_string (n div 10) @ [digit_char (n mod 10)])"

declare dec_string.simps [simp del]

definition inet_ntoa :: "u32 \<Rightarrow> string" where
  "inet_ntoa a =
     (let octet = (\<lambda>i. dec_string (unat (le32 a ! i))) in
      octet 0 @ ''.'' @ octet 1 @ ''.'' @ octet 2 @ ''.'' @ octet 3)"

text \<open>\<open>snprintf\<close> keeps at most \<open>size - 1\<close> characters.\<close>

definition snprintf :: "nat \<Rightarrow> string \<Rightarrow> string" where
  "snprintf n s = take (n - 1) s"

definition address_as_str :: "Address \<Rightarrow> string" where
  "address_as_str a =
     (let protocol = (if addr_protocol a = msg_udp then ''udp'' else ''tcp'') in
      snprintf 32 (protocol @ ''://'' @ inet_ntoa (ip a) @ '':'' @ dec_string (unat (port a))))"

definition msg_ip_str :: "msg_Conn \<Rightarrow> string" where
  "msg_ip_str c = inet_ntoa (remote_ip c)"

definition msg_address_str :: "msg_Conn \<Rightarrow> string" where
  "msg_address_str c = address_as_str (address_of_conn c)"

section \<open>Parsing addresses\<close>

text \<open>
  \<open>inet_pton(AF_INET, \<dots>)\<close>: four decimal octets of at most 255 without leading zeros, separated
  by dots. The state is the finished octets, the current one, and whether it has a digit yet.
\<close>

fun pton_step :: "nat list \<times> nat \<times> bool \<Rightarrow> char \<Rightarrow> (nat list \<times> nat \<times> bool) option" where
  "pton_step (octets, cur, saw_digit) c =
     (if is_digit c then
        (let new = cur * 10 + digit_val c in
         if saw_digit \<and> cur = 0 then None else if new > 255 then None
         else Some (octets, new, True))
      else if c = CHR ''.'' \<and> saw_digit then
        (if length octets = 3 then None else Some (octets @ [cur], 0, False))
      else None)"

fun pton_loop :: "nat list \<times> nat \<times> bool \<Rightarrow> string \<Rightarrow> (nat list \<times> nat \<times> bool) option" where
  "pton_loop st [] = Some st"
| "pton_loop st (c # cs) = (case pton_step st c of None \<Rightarrow> None | Some st' \<Rightarrow> pton_loop st' cs)"

definition inet_pton :: "string \<Rightarrow> u32 option" where
  "inet_pton s = (case pton_loop ([], 0, False) s of
     Some (octets, cur, saw_digit) \<Rightarrow>
       if length octets = 3 \<and> saw_digit
       then Some (of_le32 (map of_nat (octets @ [cur]))) else None
   | None \<Rightarrow> None)"

definition is_space :: "char \<Rightarrow> bool" where
  "is_space c \<longleftrightarrow> c = CHR '' '' \<or> 9 \<le> (of_char c :: nat) \<and> (of_char c :: nat) \<le> 13"

definition digits_val :: "string \<Rightarrow> nat" where
  "digits_val s = foldl (\<lambda>n c. n * 10 + digit_val c) 0 s"

text \<open>\<open>strtol\<close> in base ten: the value, kept in the range of \<open>long\<close>, and what is left of the string.\<close>

definition strtol :: "string \<Rightarrow> int \<times> string" where
  "strtol s =
     (let t = dropWhile is_space s;
          neg = (t \<noteq> [] \<and> hd t = CHR ''-'');
          u = (if t \<noteq> [] \<and> (hd t = CHR ''-'' \<or> hd t = CHR ''+'') then tl t else t);
          ds = takeWhile is_digit u;
          v = (if neg then - int (digits_val ds) else int (digits_val ds))
      in if ds = [] then (0, s)
         else (max (- (2 ^ 63)) (min (2 ^ 63 - 1) v), dropWhile is_digit u))"

text \<open>The assignment of a \<open>long\<close>, cast to \<open>int\<close>, to the 16-bit port.\<close>

definition port_of_long :: "int \<Rightarrow> u16" where
  "port_of_long v = ucast (word_of_int v :: u32)"

text \<open>
  \<open>parse_address_str\<close> returns an error message or NULL, and fills in the connection as far as it
  got. \<open>ip_len > 15 || ip_len < 1\<close> guards the copy into the 16-byte buffer.
\<close>

definition quoted :: "string \<Rightarrow> string" where
  "quoted s = CHR 0x27 # s @ [CHR 0x27]"

definition parse_address_str :: "string \<Rightarrow> msg_Conn \<Rightarrow> string option \<times> msg_Conn" where
  "parse_address_str address c =
     (if take 6 address \<noteq> ''tcp://'' \<and> take 6 address \<noteq> ''udp://'' then
        (Some (snprintf 1024 (''Failing due to unrecognized prefix: '' @ address)), c)
      else
        let c = c\<lparr>protocol_type := (if take 6 address = ''tcp://'' then msg_tcp else msg_udp)\<rparr>;
            ip_start = drop 6 address;
            ip_str = takeWhile (\<lambda>x. x \<noteq> CHR '':'') ip_start;
            colon = dropWhile (\<lambda>x. x \<noteq> CHR '':'') ip_start;
            ip_len = length ip_str
        in
        if colon = [] then
          (Some (snprintf 1024 (''Can'' @ [CHR 0x27] @ ''t parse address '' @ quoted address @
             ''; missing colon after ip'')), c)
        else if ip_len > 15 \<or> ip_len < 1 then
          (Some (snprintf 1024 (''Failing because ip length='' @ dec_string ip_len @
             ''; expected to be 1-15 (in addresss '' @ quoted address @ '')'')), c)
        else
          case (if ip_str = ''*'' then Some 0 else inet_pton ip_str) of
            None \<Rightarrow>
              (Some (snprintf 1024 (''Couldn'' @ [CHR 0x27] @ ''t parse ip string '' @ quoted ip_str @
                 ''.'')), c)
          | Some addr \<Rightarrow>
              let c = c\<lparr>remote_ip := addr\<rparr> in
              if tl colon = [] then
                (Some (snprintf 1024 (''Empty port string in address '' @ quoted address)), c)
              else
                let (v, end_ptr) = strtol (tl colon); c = c\<lparr>remote_port := port_of_long v\<rparr> in
                if end_ptr \<noteq> [] then
                  (Some (snprintf 1024 (''Invalid port string in address '' @ quoted address)), c)
                else (None, c))"

section \<open>Printing and parsing are inverse\<close>

lemma is_digit_char [simp]: "d < 10 \<Longrightarrow> is_digit (digit_char d)"
  by (simp add: is_digit_def digit_char_def of_char_of)

lemma digit_val_char [simp]: "d < 10 \<Longrightarrow> digit_val (digit_char d) = d"
  by (simp add: digit_val_def digit_char_def of_char_of)

lemma digit_not [simp]:
  "is_digit c \<Longrightarrow> c \<noteq> CHR '':''" "is_digit c \<Longrightarrow> c \<noteq> CHR ''.''" "is_digit c \<Longrightarrow> c \<noteq> CHR ''*''"
  "is_digit c \<Longrightarrow> c \<noteq> CHR ''-''" "is_digit c \<Longrightarrow> c \<noteq> CHR ''+''" "is_digit c \<Longrightarrow> \<not> is_space c"
  by (auto simp: is_digit_def is_space_def)

lemma dec_string_digits: "\<forall>c \<in> set (dec_string n). is_digit c"
proof (induction n rule: dec_string.induct)
  case (1 n)
  then show ?case by (subst dec_string.simps) auto
qed

lemma dec_string_nonempty [simp]: "dec_string n \<noteq> []"
  by (subst dec_string.simps) simp

lemma digits_val_dec_string: "digits_val (dec_string n) = n"
proof (induction n rule: dec_string.induct)
  case (1 n)
  then show ?case
    by (subst dec_string.simps) (auto simp: digits_val_def)
qed

lemma pton_loop_append:
  "pton_loop st (s @ t) = (case pton_loop st s of None \<Rightarrow> None | Some st' \<Rightarrow> pton_loop st' t)"
  by (induction st s rule: pton_loop.induct) (auto split: option.splits)

lemma pton_loop_dec_string:
  "n \<le> 255 \<Longrightarrow> pton_loop (octets, 0, False) (dec_string n) = Some (octets, n, True)"
proof (induction n rule: dec_string.induct)
  case (1 n)
  show ?case
  proof (cases "n < 10")
    case True
    then show ?thesis by (subst dec_string.simps) simp
  next
    case False
    with 1 have "pton_loop (octets, 0, False) (dec_string (n div 10)) = Some (octets, n div 10, True)"
      by simp
    with False "1.prems" show ?thesis
      by (subst dec_string.simps) (simp add: pton_loop_append)
  qed
qed

lemma pton_dot: "length octets < 3 \<Longrightarrow>
    pton_loop (octets, n, True) (''.'' @ s) = pton_loop (octets @ [n], 0, False) s"
  by (simp add: is_digit_def)

lemma unat_u8_le: "unat (b :: u8) \<le> 255"
  using unsigned_less [of b, where ?'a = nat] by simp

lemma inet_pton_ntoa [simp]: "inet_pton (inet_ntoa a) = Some a"
proof -
  let ?o = "\<lambda>i. unat (le32 a ! i)"
  have "pton_loop ([], 0, False) (inet_ntoa a) = Some ([?o 0, ?o 1, ?o 2], ?o 3, True)"
    by (simp add: inet_ntoa_def Let_def pton_loop_append pton_loop_dec_string unat_u8_le is_digit_def)
  moreover have "map of_nat [?o 0, ?o 1, ?o 2, ?o 3] = le32 a"
    by (simp add: le32_def)
  ultimately show ?thesis by (simp add: inet_pton_def)
qed

lemma strtol_dec_string:
  assumes "n < 2 ^ 63"
  shows "strtol (dec_string n) = (int n, [])"
proof -
  have hd: "is_digit (hd (dec_string n))" using dec_string_digits [of n] by simp
  then have "dropWhile is_space (dec_string n) = dec_string n"
    by (cases "dec_string n") simp_all
  moreover have "takeWhile is_digit (dec_string n) = dec_string n" "dropWhile is_digit (dec_string n) = []"
    using dec_string_digits [of n] by (simp_all add: takeWhile_eq_all_conv dropWhile_eq_Nil_conv)
  ultimately show ?thesis
    using hd assms
    by (simp add: strtol_def Let_def digits_val_dec_string del: takeWhile_eq_all_conv dropWhile_eq_Nil_conv)
qed

lemma port_of_long_unat [simp]: "port_of_long (int (unat p)) = p"
  by (rule bit_word_eqI) (simp add: port_of_long_def bit_simps)

lemma port_of_long_uint [simp]: "port_of_long (uint p) = p"
  by (rule bit_word_eqI) (simp add: port_of_long_def bit_simps)

text \<open>A port that is out of range is not an error: it wraps.\<close>

lemma port_of_long_mod: "uint (port_of_long v) = v mod 2 ^ 16"
  by (simp add: port_of_long_def unsigned_ucast_eq uint_word_of_int take_bit_eq_mod mod_mod_cancel)

lemma length_dec_string: "n < 10 ^ Suc k \<Longrightarrow> length (dec_string n) \<le> Suc k"
proof (induction n arbitrary: k rule: dec_string.induct)
  case (1 n)
  show ?case
  proof (cases "n < 10")
    case True
    then show ?thesis by (subst dec_string.simps) simp
  next
    case False
    with 1 obtain j where j: "k = Suc j" by (cases k) auto
    with 1 False have "length (dec_string (n div 10)) \<le> Suc j"
      by (intro "1.IH") (simp_all add: less_mult_imp_div_less mult.commute)
    with False j show ?thesis by (subst dec_string.simps) simp
  qed
qed

lemma length_inet_ntoa: "length (inet_ntoa a) \<le> 15" "7 \<le> length (inet_ntoa a)"
proof -
  have *: "length (dec_string (unat (b :: u8))) \<le> 3" "1 \<le> length (dec_string (unat b))" for b
    using length_dec_string [of "unat b" 2] unat_u8_le [of b] by (simp_all add: Suc_le_eq)
  show "length (inet_ntoa a) \<le> 15" "7 \<le> length (inet_ntoa a)"
    using * [of "le32 a ! 0"] * [of "le32 a ! 1"] * [of "le32 a ! 2"] * [of "le32 a ! 3"]
    by (simp_all add: inet_ntoa_def Let_def)
qed

text \<open>The 32 bytes of \<open>address_str\<close> are enough: nothing is cut off.\<close>

lemma address_as_str_eq:
  "address_as_str a = (if addr_protocol a = msg_udp then ''udp'' else ''tcp'') @ ''://'' @
     inet_ntoa (ip a) @ '':'' @ dec_string (unat (port a))"
proof -
  have "length (dec_string (unat (port a))) \<le> 5"
    using length_dec_string [of "unat (port a)" 4] unsigned_less [of "port a", where ?'a = nat] by simp
  then show ?thesis using length_inet_ntoa(1) [of "ip a"]
    by (simp add: address_as_str_def snprintf_def Let_def)
qed

lemma inet_ntoa_chars: "\<forall>c \<in> set (inet_ntoa a). is_digit c \<or> c = CHR ''.''"
  using dec_string_digits by (auto simp: inet_ntoa_def Let_def)

lemma inet_ntoa_no_colon: "CHR '':'' \<notin> set (inet_ntoa a)" "inet_ntoa a \<noteq> ''*''"
proof -
  show "CHR '':'' \<notin> set (inet_ntoa a)" using inet_ntoa_chars [of a] digit_not(1) by fastforce
  show "inet_ntoa a \<noteq> ''*''" using length_inet_ntoa(2) [of a] by auto
qed

lemma port_of_long_nat [simp]: "port_of_long (int n) = of_nat n"
  by (rule word_uint_eqI) (simp add: port_of_long_mod unsigned_of_nat take_bit_eq_mod of_nat_mod)

text \<open>Parsing an address that is written out in full, with any port number that a \<open>long\<close> holds.\<close>

lemma parse_text:
  assumes "pre = ''tcp://'' \<or> pre = ''udp://''" "n < 2 ^ 63"
  shows "parse_address_str (pre @ inet_ntoa w @ '':'' @ dec_string n) c =
    (None, c\<lparr>protocol_type := (if pre = ''tcp://'' then msg_tcp else msg_udp), remote_ip := w,
       remote_port := of_nat n\<rparr>)"
proof -
  let ?ip = "inet_ntoa w" and ?port = "dec_string n"
  have len: "length pre = 6" using assms(1) by auto
  have tk: "takeWhile (\<lambda>x. x \<noteq> CHR '':'') (?ip @ '':'' @ ?port) = ?ip"
    "dropWhile (\<lambda>x. x \<noteq> CHR '':'') (?ip @ '':'' @ ?port) = '':'' @ ?port"
  proof -
    have "\<And>x. x \<in> set ?ip \<Longrightarrow> x \<noteq> CHR '':''" using inet_ntoa_no_colon(1) [of w] by blast
    then show "takeWhile (\<lambda>x. x \<noteq> CHR '':'') (?ip @ '':'' @ ?port) = ?ip"
      "dropWhile (\<lambda>x. x \<noteq> CHR '':'') (?ip @ '':'' @ ?port) = '':'' @ ?port"
      by (simp_all add: takeWhile_append2 dropWhile_append2)
  qed
  have ne: "?ip \<noteq> []" using length_inet_ntoa(2) [of w] by auto
  show ?thesis
    unfolding parse_address_str_def
    using assms(1) len tk strtol_dec_string [OF assms(2)] length_inet_ntoa [of w]
      inet_ntoa_no_colon(2) [of w] ne
    by (auto simp: Let_def)
qed

end
