(* ===== verification/MsgState.thy ===== *)
theory MsgState
  imports Address
begin

text \<open>
  The state of msgbox.c: its static variables, the objects on its heap, and the operating system
  that it calls.

  \<^item> \<open>mbox\<close> holds the static arrays and the status map, and a heap per kind of object: connection
    objects, connection statuses and message buffers. A freed object is absent from its heap, so
    a use after free, a double free or a wild pointer has no result. New objects get fresh names.
  \<^item> An \<open>os\<close> says how the environment answers each system call: a function of the number of the
    call (\<open>clock\<close>) and its arguments. Every behaviour of an environment is one such function, so a
    theorem for all \<open>os\<close> holds for every network, peer and failure. The same record chooses the
    contents of memory that \<open>malloc\<close> returns.
  \<^item> \<open>trace\<close> records the system calls and the calls of user callbacks, in order: what an observer
    of the library sees.
\<close>

section \<open>Objects\<close>

type_synonym status_ptr = nat

record buffer =
  b_meta :: Metadata
  b_body :: bytes

text \<open>\<open>reply_contexts\<close> is \<open>None\<close> once \<open>map__delete\<close> has freed the map.\<close>

record ConnStatus =
  last_seen_at :: int
  reply_contexts :: "(vptr, vptr) cmap option"
  st_conn_context :: vptr
  next_reply_id :: u16
  st_remote_address :: Address
  total_buffer :: msg_Data
  waiting_buffer :: msg_Data

text \<open>The object that \<open>make_call\<close> frees after a callback.\<close>

datatype heap_ptr = ConnPtr conn_ptr | BufPtr buf_id

record PendingCall =
  pc_conn :: conn_ptr
  pc_event :: msg_Event
  pc_data :: msg_Data
  to_free :: "heap_ptr option"

text \<open>Times are in microseconds.\<close>

record Timeout =
  t_at :: int
  t_conn :: conn_ptr
  t_status :: status_ptr
  t_reply_id :: u16

record pollfd =
  fd :: int
  events :: u16
  revents :: u16

section \<open>The operating system\<close>

datatype errno = EWOULDBLOCK | EINPROGRESS | EFAULT | EINVAL | EBADF | EINTR | ECONNRESET
  | ECONNREFUSED | ETIMEDOUT | EOTHER nat

datatype 'a sysret = Ok 'a | Err errno

text \<open>An address as the socket interface takes it: both fields in network byte order.\<close>

record sockaddr_in =
  sin_port :: u16
  sin_addr :: u32

record os =
  os_socket :: "nat \<Rightarrow> u16 \<Rightarrow> int sysret"
  os_getfl :: "nat \<Rightarrow> int \<Rightarrow> u32 sysret"
  os_setfl :: "nat \<Rightarrow> int \<Rightarrow> u32 \<Rightarrow> unit sysret"
  os_setsockopt :: "nat \<Rightarrow> int \<Rightarrow> unit sysret"
  os_bind :: "nat \<Rightarrow> int \<Rightarrow> sockaddr_in \<Rightarrow> unit sysret"
  os_connect :: "nat \<Rightarrow> int \<Rightarrow> sockaddr_in \<Rightarrow> unit sysret"
  os_listen :: "nat \<Rightarrow> int \<Rightarrow> unit sysret"
  os_accept :: "nat \<Rightarrow> int \<Rightarrow> (int \<times> sockaddr_in) sysret"
  os_recv :: "nat \<Rightarrow> int \<Rightarrow> nat \<Rightarrow> bool \<Rightarrow> bytes sysret"
  os_recvfrom :: "nat \<Rightarrow> int \<Rightarrow> nat \<Rightarrow> (bytes \<times> sockaddr_in) sysret"
  os_send :: "nat \<Rightarrow> int \<Rightarrow> bytes \<Rightarrow> nat sysret"
  os_sendto :: "nat \<Rightarrow> int \<Rightarrow> bytes \<Rightarrow> sockaddr_in \<Rightarrow> nat sysret"
  os_close :: "nat \<Rightarrow> int \<Rightarrow> unit sysret"
  os_poll :: "nat \<Rightarrow> pollfd list \<Rightarrow> int \<Rightarrow> (nat \<times> u16 list) sysret"
  os_so_error :: "nat \<Rightarrow> int \<Rightarrow> errno"
  os_time :: "nat \<Rightarrow> int"
  os_strerror :: "errno \<Rightarrow> string"
  os_malloc_meta :: "nat \<Rightarrow> Metadata"
  os_malloc_byte :: "nat \<Rightarrow> nat \<Rightarrow> u8"

datatype observed =
    Sys_socket u16
  | Sys_fcntl int
  | Sys_setsockopt int
  | Sys_bind int sockaddr_in
  | Sys_connect int sockaddr_in
  | Sys_listen int
  | Sys_accept int
  | Sys_recv int nat bool
  | Sys_recvfrom int nat
  | Sys_send int bytes
  | Sys_sendto int bytes sockaddr_in
  | Sys_close int
  | Sys_poll "pollfd list" int
  | Sys_getsockopt int
  | Sys_time
  | Sys_malloc nat
  | Stderr string
  | Callback callback_id conn_ptr msg_Event msg_Data

section \<open>The state\<close>

record mbox =
  init_done :: bool
  immediate_callbacks :: "PendingCall carray"
  conns :: "conn_ptr carray"
  removals :: "nat carray"
  poll_fds :: "pollfd carray"
  timeouts :: "Timeout carray"
  conn_status :: "(Address, status_ptr) cmap"
  conn_heap :: "conn_ptr \<Rightarrow> msg_Conn option"
  status_heap :: "status_ptr \<Rightarrow> ConnStatus option"
  buf_heap :: "buf_id \<Rightarrow> buffer option"
  next_id :: nat
  last_errno :: errno
  clock :: nat
  trace :: "observed list"

text \<open>Before the first call every static pointer is NULL: nothing may be used but \<open>init_done\<close>.\<close>

definition null_array :: "'a carray" where
  "null_array = \<lparr>a_count = 0, capacity = 0, items = [], releaser = False, released = []\<rparr>"

definition initial_mbox :: mbox where
  "initial_mbox =
     \<lparr>init_done = False, immediate_callbacks = null_array, conns = null_array,
      removals = null_array, poll_fds = null_array, timeouts = null_array,
      conn_status = new_conn_status_map, conn_heap = (\<lambda>_. None), status_heap = (\<lambda>_. None),
      buf_heap = (\<lambda>_. None), next_id = 1, last_errno = EOTHER 0, clock = 0, trace = []\<rparr>"

definition init_poll_fds :: "mbox \<Rightarrow> mbox" where
  "init_poll_fds s = s\<lparr>poll_fds := array__new 8\<rparr>"

definition init_if_needed :: "mbox \<Rightarrow> mbox" where
  "init_if_needed s =
     (if init_done s then s
      else
        let s = s\<lparr>immediate_callbacks := array__new 16, conns := array__new 8,
                  removals := array__new 8, timeouts := array__new 8\<rparr>;
            s = init_poll_fds s
        in s\<lparr>conn_status := new_conn_status_map, init_done := True\<rparr>)"

section \<open>System calls\<close>

text \<open>
  A call is recorded, advances the clock, and either gives its value or sets \<open>errno\<close>; the result
  \<open>None\<close> is the return value -1.
\<close>

definition syscall :: "observed \<Rightarrow> (nat \<Rightarrow> 'a sysret) \<Rightarrow> mbox \<Rightarrow> 'a option \<times> mbox" where
  "syscall call answer s =
     (let r = answer (clock s); s = s\<lparr>clock := clock s + 1, trace := trace s @ [call]\<rparr>
      in case r of Ok v \<Rightarrow> (Some v, s) | Err e \<Rightarrow> (None, s\<lparr>last_errno := e\<rparr>))"

definition get_errno :: "mbox \<Rightarrow> errno" where
  "get_errno s = last_errno s"

definition set_errno :: "errno \<Rightarrow> mbox \<Rightarrow> mbox" where
  "set_errno e s = s\<lparr>last_errno := e\<rparr>"

definition err_str :: "os \<Rightarrow> mbox \<Rightarrow> string" where
  "err_str os s = os_strerror os (last_errno s)"

definition closesocket :: "os \<Rightarrow> int \<Rightarrow> mbox \<Rightarrow> unit option \<times> mbox" where
  "closesocket os sock = syscall (Sys_close sock) (\<lambda>t. os_close os t sock)"

text \<open>The number of microseconds since 1970, as \<open>gettimeofday\<close> gives it.\<close>

definition now :: "os \<Rightarrow> mbox \<Rightarrow> int \<times> mbox" where
  "now os s = (os_time os (clock s), s\<lparr>clock := clock s + 1, trace := trace s @ [Sys_time]\<rparr>)"

definition O_NONBLOCK :: u32 where "O_NONBLOCK = 0x800"

text \<open>The name of the failing call, or NULL.\<close>

definition make_non_blocking :: "os \<Rightarrow> int \<Rightarrow> mbox \<Rightarrow> string option \<times> mbox" where
  "make_non_blocking os sock s =
     (let (flags, s) = syscall (Sys_fcntl sock) (\<lambda>t. os_getfl os t sock) s in
      case flags of None \<Rightarrow> (Some ''fcntl'', s)
      | Some fl \<Rightarrow>
          let (r, s) = syscall (Sys_fcntl sock) (\<lambda>t. os_setfl os t sock (fl OR O_NONBLOCK)) s in
          case r of None \<Rightarrow> (Some ''fcntl'', s) | Some _ \<Rightarrow> (None, s))"

text \<open>On linux the send flags avoid SIGPIPE, so there is nothing to do.\<close>

definition avoid_sigpipe :: "int \<Rightarrow> int" where
  "avoid_sigpipe sock = 0"

definition set_sockaddr_for_conn :: "msg_Conn \<Rightarrow> sockaddr_in" where
  "set_sockaddr_for_conn c = \<lparr>sin_port = htons (remote_port c), sin_addr = remote_ip c\<rparr>"

section \<open>Memory\<close>

definition update_conn :: "conn_ptr \<Rightarrow> (msg_Conn \<Rightarrow> msg_Conn) \<Rightarrow> mbox \<Rightarrow> mbox option" where
  "update_conn p f s = do {
     c \<leftarrow> conn_heap s p;
     Some (s\<lparr>conn_heap := (conn_heap s)(p := Some (f c))\<rparr>)
   }"

definition update_status :: "status_ptr \<Rightarrow> (ConnStatus \<Rightarrow> ConnStatus) \<Rightarrow> mbox \<Rightarrow> mbox option" where
  "update_status p f s = do {
     st \<leftarrow> status_heap s p;
     Some (s\<lparr>status_heap := (status_heap s)(p := Some (f st))\<rparr>)
   }"

definition update_buffer :: "buf_id \<Rightarrow> (buffer \<Rightarrow> buffer) \<Rightarrow> mbox \<Rightarrow> mbox option" where
  "update_buffer p f s = do {
     b \<leftarrow> buf_heap s p;
     Some (s\<lparr>buf_heap := (buf_heap s)(p := Some (f b))\<rparr>)
   }"

text \<open>The buffer whose first message byte \<open>d\<close> points to; its preamble is at hand only there.\<close>

definition buffer_of :: "msg_Data \<Rightarrow> buf_id option" where
  "buffer_of d = (case data_bytes d of Some (b, off) \<Rightarrow> if off = 0 then Some b else None | None \<Rightarrow> None)"

definition free_ptr :: "heap_ptr \<Rightarrow> mbox \<Rightarrow> mbox option" where
  "free_ptr p s = (case p of
     ConnPtr c \<Rightarrow> do { _ \<leftarrow> conn_heap s c; Some (s\<lparr>conn_heap := (conn_heap s)(c := None)\<rparr>) }
   | BufPtr b \<Rightarrow> do { _ \<leftarrow> buf_heap s b; Some (s\<lparr>buf_heap := (buf_heap s)(b := None)\<rparr>) })"

definition msg_new_data_space :: "os \<Rightarrow> nat \<Rightarrow> mbox \<Rightarrow> msg_Data \<times> mbox" where
  "msg_new_data_space os n s =
     (let b = next_id s; t = clock s;
          buf = \<lparr>b_meta = os_malloc_meta os t, b_body = map (os_malloc_byte os t) [0..<n]\<rparr>
      in (\<lparr>num_bytes = n, data_bytes = Some (b, 0)\<rparr>,
          s\<lparr>buf_heap := (buf_heap s)(b := Some buf), next_id := b + 1, clock := t + 1,
            trace := trace s @ [Sys_malloc n]\<rparr>))"

definition char_byte :: "char \<Rightarrow> u8" where
  "char_byte c = of_nat (of_char c)"

definition c_string :: "string \<Rightarrow> bytes" where
  "c_string str = map char_byte str @ [0]"

definition msg_new_data :: "os \<Rightarrow> string \<Rightarrow> mbox \<Rightarrow> (msg_Data \<times> mbox) option" where
  "msg_new_data os str s = do {
     let (d, s) = msg_new_data_space os (length str + 1) s;
     b \<leftarrow> buffer_of d;
     s \<leftarrow> update_buffer b (\<lambda>buf. buf\<lparr>b_body := c_string str\<rparr>) s;
     Some (d, s)
   }"

definition msg_delete_data :: "msg_Data \<Rightarrow> mbox \<Rightarrow> mbox option" where
  "msg_delete_data d s = do { b \<leftarrow> buffer_of d; free_ptr (BufPtr b) s }"

definition new_connection :: "vptr \<Rightarrow> callback_id \<Rightarrow> mbox \<Rightarrow> conn_ptr \<times> mbox" where
  "new_connection ctx cb s =
     (let p = next_id s;
          c = \<lparr>conn_context = ctx, reply_context = null, callback = cb, remote_ip = 0,
               remote_port = 0, protocol_type = 0, socket = 0, for_listening = False,
               reply_id = 0, index = 0\<rparr>
      in (p, s\<lparr>conn_heap := (conn_heap s)(p := Some c), next_id := p + 1\<rparr>))"

end
