(* ===== verification/Status.thy ===== *)
theory Status
  imports MsgState
begin

text \<open>
  The status that msgbox.c keeps per remote address, in the map \<open>conn_status\<close>, and the list of
  timeouts of requests that wait for a reply.
\<close>

section \<open>Connection status\<close>

definition new_conn_status :: "int \<Rightarrow> Address \<Rightarrow> mbox \<Rightarrow> status_ptr \<times> mbox" where
  "new_conn_status time_now address s =
     (let p = next_id s;
          status = \<lparr>last_seen_at = time_now, reply_contexts = Some new_reply_contexts,
                    st_conn_context = null, next_reply_id = 1, st_remote_address = address,
                    total_buffer = msg_no_data, waiting_buffer = msg_no_data\<rparr>
      in (p, s\<lparr>status_heap := (status_heap s)(p := Some status), next_id := p + 1\<rparr>))"

text \<open>The header that is copied in front of the buffer is the one \<open>read_header\<close> has converted.\<close>

definition new_conn_status_buffer :: "os \<Rightarrow> status_ptr \<Rightarrow> Header \<Rightarrow> mbox \<Rightarrow> mbox option" where
  "new_conn_status_buffer os status header s = do {
     let (d, s) = msg_new_data_space os (unat (hdr_num_bytes header)) s;
     s \<leftarrow> update_status status (\<lambda>st. st\<lparr>total_buffer := d, waiting_buffer := d\<rparr>) s;
     b \<leftarrow> buffer_of d;
     update_buffer b (\<lambda>buf. buf\<lparr>b_meta := (b_meta buf)\<lparr>md_header := header\<rparr>\<rparr>) s
   }"

definition delete_conn_status_buffer :: "status_ptr \<Rightarrow> mbox \<Rightarrow> mbox option" where
  "delete_conn_status_buffer status s = do {
     st \<leftarrow> status_heap s status;
     s \<leftarrow> msg_delete_data (total_buffer st) s;
     update_status status (\<lambda>st. st\<lparr>total_buffer := msg_no_data, waiting_buffer := msg_no_data\<rparr>) s
   }"

text \<open>
  The releaser of the status map: it frees the map of reply contexts. The status object itself is
  never freed, so pointers to it stay valid while the map inside it does not.
\<close>

definition delete_conn_status :: "status_ptr \<Rightarrow> mbox \<Rightarrow> mbox option" where
  "delete_conn_status status s = do {
     st \<leftarrow> status_heap s status;
     req (reply_contexts st \<noteq> None);
     update_status status (\<lambda>st. st\<lparr>reply_contexts := None\<rparr>) s
   }"

fun delete_conn_statuses :: "status_ptr list \<Rightarrow> mbox \<Rightarrow> mbox option" where
  "delete_conn_statuses [] s = Some s"
| "delete_conn_statuses (p # ps) s = Option.bind (delete_conn_status p s) (delete_conn_statuses ps)"

text \<open>
  \<open>map__unset\<close> and \<open>map__set\<close> on \<open>conn_status\<close>: the map operation, then \<open>delete_conn_status\<close> on
  each value that it released.
\<close>

definition conn_status_unset :: "Address \<Rightarrow> mbox \<Rightarrow> mbox option" where
  "conn_status_unset address s = do {
     m \<leftarrow> map__unset (conn_status s) address;
     let dropped = drop (length (freed_values (conn_status s))) (freed_values m);
     delete_conn_statuses dropped (s\<lparr>conn_status := m\<rparr>)
   }"

definition conn_status_set :: "Address \<Rightarrow> status_ptr \<Rightarrow> mbox \<Rightarrow> mbox option" where
  "conn_status_set address status s = do {
     m \<leftarrow> map__set (conn_status s) address status;
     let dropped = drop (length (freed_values (conn_status s))) (freed_values m);
     delete_conn_statuses dropped (s\<lparr>conn_status := m\<rparr>)
   }"

definition status_of_conn :: "conn_ptr \<Rightarrow> mbox \<Rightarrow> status_ptr option option" where
  "status_of_conn p s = do {
     c \<leftarrow> conn_heap s p;
     pair \<leftarrow> map__get (conn_status s) (address_of_conn c);
     Some (map_option snd pair)
   }"

section \<open>Reply contexts\<close>

text \<open>The uses of the map of a status: each fails once the map has been freed.\<close>

definition reply_context_get :: "status_ptr \<Rightarrow> u16 \<Rightarrow> mbox \<Rightarrow> vptr option option" where
  "reply_context_get status r s = do {
     st \<leftarrow> status_heap s status;
     m \<leftarrow> reply_contexts st;
     pair \<leftarrow> map__get m (reply_id_key r);
     Some (map_option snd pair)
   }"

definition reply_context_set :: "status_ptr \<Rightarrow> u16 \<Rightarrow> vptr \<Rightarrow> mbox \<Rightarrow> mbox option" where
  "reply_context_set status r ctx s = do {
     st \<leftarrow> status_heap s status;
     m \<leftarrow> reply_contexts st;
     m \<leftarrow> map__set m (reply_id_key r) ctx;
     update_status status (\<lambda>st. st\<lparr>reply_contexts := Some m\<rparr>) s
   }"

definition reply_context_unset :: "status_ptr \<Rightarrow> u16 \<Rightarrow> mbox \<Rightarrow> mbox option" where
  "reply_context_unset status r s = do {
     st \<leftarrow> status_heap s status;
     m \<leftarrow> reply_contexts st;
     m \<leftarrow> map__unset m (reply_id_key r);
     update_status status (\<lambda>st. st\<lparr>reply_contexts := Some m\<rparr>) s
   }"

section \<open>Timeouts\<close>

definition udp_timeout_sec :: int where "udp_timeout_sec = 1"

definition make_timeout :: "int \<Rightarrow> conn_ptr \<Rightarrow> status_ptr \<Rightarrow> u16 \<Rightarrow> Timeout" where
  "make_timeout a c st r = \<lparr>t_at = a, t_conn = c, t_status = st, t_reply_id = r\<rparr>"

definition add_timeout :: "os \<Rightarrow> conn_ptr \<Rightarrow> status_ptr \<Rightarrow> u16 \<Rightarrow> mbox \<Rightarrow> mbox" where
  "add_timeout os conn status r s =
     (let (t, s) = now os s; timeout_at = t + udp_timeout_sec * 1000000
      in s\<lparr>timeouts := array__add_item_ptr (timeouts s) (make_timeout timeout_at conn status r)\<rparr>)"

text \<open>The loop of \<open>remove_timeout\<close> from index \<open>i\<close>: the first timeout that matches is removed.\<close>

function remove_timeout_from :: "status_ptr \<Rightarrow> u16 \<Rightarrow> nat \<Rightarrow> Timeout carray \<Rightarrow> Timeout carray option" where
  "remove_timeout_from status r i a =
     (if i < a_count a then do {
        timeout \<leftarrow> array__item_val a i;
        if t_status timeout \<noteq> status \<or> t_reply_id timeout \<noteq> r
        then remove_timeout_from status r (Suc i) a
        else array__remove_item a i
      } else Some a)"
  by pat_completeness auto
termination
  by (relation "measure (\<lambda>(status, r, i, a). a_count a - i)") auto

declare remove_timeout_from.simps [simp del]

definition remove_timeout :: "status_ptr \<Rightarrow> u16 \<Rightarrow> mbox \<Rightarrow> mbox option" where
  "remove_timeout status r s =
     map_option (\<lambda>a. s\<lparr>timeouts := a\<rparr>) (remove_timeout_from status r 0 (timeouts s))"

section \<open>Invariant of the status map\<close>

text \<open>
  \<open>status_ok\<close>: the status map is a well-formed map whose values are distinct live statuses that
  own a map of reply contexts and carry the address they are filed under.
\<close>

definition status_ok :: "mbox \<Rightarrow> bool" where
  "status_ok s \<longleftrightarrow> map_inv UNIV (conn_status s) \<and> key_releaser (conn_status s) \<and>
     value_releaser (conn_status s) \<and>
     (\<forall>a p. map_lookup (conn_status s) a = Some p \<longrightarrow>
        (\<exists>st m. status_heap s p = Some st \<and> st_remote_address st = a \<and>
           reply_contexts st = Some m \<and> map_inv reply_keys m)) \<and>
     (\<forall>a p. map_lookup (conn_status s) a = Some p \<longrightarrow> p < next_id s)"

lemma status_okD:
  assumes "status_ok s"
  shows "map_inv UNIV (conn_status s)" "value_releaser (conn_status s)" "key_releaser (conn_status s)"
  using assms by (simp_all add: status_ok_def)

lemma status_ok_lookup:
  assumes "status_ok s" "map_lookup (conn_status s) a = Some p"
  obtains st m where "status_heap s p = Some st" "st_remote_address st = a"
    "reply_contexts st = Some m" "map_inv reply_keys m" "p < next_id s"
  using assms unfolding status_ok_def by blast

text \<open>Two addresses never share a status.\<close>

lemma status_ok_inj:
  assumes "status_ok s" "map_lookup (conn_status s) a = Some p" "map_lookup (conn_status s) b = Some p"
  shows "a = b"
proof -
  obtain st where "status_heap s p = Some st" "st_remote_address st = a"
    using assms(1,2) by (rule status_ok_lookup)
  moreover obtain st' where "status_heap s p = Some st'" "st_remote_address st' = b"
    using assms(1,3) by (rule status_ok_lookup)
  ultimately show ?thesis by simp
qed

lemma status_of_conn_eq:
  assumes "status_ok s" "conn_heap s p = Some c"
  shows "status_of_conn p s = Some (map_lookup (conn_status s) (address_of_conn c))"
  using assms cmap.get_lookup [OF status_okD(1) [OF assms(1)], of "address_of_conn c"]
  by (simp add: status_of_conn_def option.map_comp comp_def option.map_ident)

lemma status_ok_new: "status_ok (s\<lparr>conn_status := new_conn_status_map\<rparr>)"
  by (simp add: status_ok_def conn_status_map.new_inv conn_status_map.new_lookup)
    (simp add: new_conn_status_map_def)

text \<open>Dropping an address frees the reply contexts of its status and touches no other status.\<close>

lemma conn_status_unset_facts:
  assumes "status_ok s"
  shows "\<exists>m f. conn_status_unset a s = Some (s\<lparr>conn_status := m, status_heap := f\<rparr>) \<and>
    status_ok (s\<lparr>conn_status := m, status_heap := f\<rparr>) \<and>
    map_lookup m = (map_lookup (conn_status s))(a := None) \<and>
    (\<forall>p. map_lookup (conn_status s) a \<noteq> Some p \<longrightarrow> f p = status_heap s p) \<and>
    (\<forall>p. map_lookup (conn_status s) a = Some p \<longrightarrow>
       f p = map_option (\<lambda>st. st\<lparr>reply_contexts := None\<rparr>) (status_heap s p))"
proof -
  note ok = status_okD [OF assms]
  from map_unset_facts [OF ok(1), of a] ok(2) obtain m where
    m: "map__unset (conn_status s) a = Some m" "map_inv UNIV m"
      "map_lookup m = (map_lookup (conn_status s))(a := None)"
      "key_releaser m = key_releaser (conn_status s)" "value_releaser m = value_releaser (conn_status s)"
      "freed_values m = freed_values (conn_status s) @
        (case map_lookup (conn_status s) a of None \<Rightarrow> []
         | Some v \<Rightarrow> if value_releaser (conn_status s) then [v] else [])" by blast
  show ?thesis
  proof (cases "map_lookup (conn_status s) a")
    case None
    then have "conn_status_unset a s = Some (s\<lparr>conn_status := m, status_heap := status_heap s\<rparr>)"
      using m None by (simp add: conn_status_unset_def Let_def)
    moreover have "status_ok (s\<lparr>conn_status := m, status_heap := status_heap s\<rparr>)"
      using assms m by (auto simp: status_ok_def)
    ultimately show ?thesis
      using m(3) None by (intro exI [of _ m] exI [of _ "status_heap s"]) simp
  next
    case (Some p)
    obtain st rm where st: "status_heap s p = Some st" "st_remote_address st = a"
      "reply_contexts st = Some rm" using assms Some by (rule status_ok_lookup)
    let ?f = "(status_heap s)(p := Some (st\<lparr>reply_contexts := None\<rparr>))"
    let ?s = "s\<lparr>conn_status := m, status_heap := ?f\<rparr>"
    have run: "conn_status_unset a s = Some ?s"
      using m st Some ok(2)
      by (simp add: conn_status_unset_def Let_def delete_conn_status_def update_status_def)
    have "q \<noteq> p" if "map_lookup m b = Some q" for b q
      using that m(3) status_ok_inj [OF assms, of b q a] Some by (auto split: if_splits)
    then have "status_ok ?s"
      using assms m by (auto simp: status_ok_def split: if_splits)
    with run m(3) Some st show ?thesis by (intro exI [of _ m] exI [of _ ?f]) auto
  qed
qed

text \<open>Filing a fresh status under a new address.\<close>

lemma conn_status_set_facts:
  assumes "status_ok s" "map_lookup (conn_status s) a = None" "status_heap s p = Some st"
    "st_remote_address st = a" "reply_contexts st = Some rm" "map_inv reply_keys rm" "p < next_id s"
  shows "\<exists>m. conn_status_set a p s = Some (s\<lparr>conn_status := m\<rparr>) \<and> status_ok (s\<lparr>conn_status := m\<rparr>) \<and>
    map_lookup m = (map_lookup (conn_status s))(a \<mapsto> p)"
proof -
  note ok = status_okD [OF assms(1)]
  from map_set_facts [OF ok(1), of a p] obtain m where
    m: "map__set (conn_status s) a p = Some m" "map_inv UNIV m"
      "map_lookup m = (map_lookup (conn_status s))(a \<mapsto> p)"
      "key_releaser m = key_releaser (conn_status s)" "value_releaser m = value_releaser (conn_status s)"
    by auto
  have "freed_values m = freed_values (conn_status s)"
    using map_set_fresh_frees_nothing [OF ok(1) _ assms(2) m(1)] by simp
  then have run: "conn_status_set a p s = Some (s\<lparr>conn_status := m\<rparr>)"
    using m(1) by (simp add: conn_status_set_def Let_def)
  moreover have "status_ok (s\<lparr>conn_status := m\<rparr>)"
    using assms m by (auto simp: status_ok_def split: if_splits)
  ultimately show ?thesis using m(3) by blast
qed

section \<open>Removing a timeout\<close>

text \<open>The contents after \<open>remove_timeout\<close>: the first match is gone, the order is kept.\<close>

fun remove_first_match :: "('a \<Rightarrow> bool) \<Rightarrow> 'a list \<Rightarrow> 'a list" where
  "remove_first_match P [] = []"
| "remove_first_match P (x # xs) = (if P x then xs else x # remove_first_match P xs)"

lemma remove_timeout_from_facts:
  assumes "array_inv a" "i \<le> a_count a"
  shows "\<exists>b. remove_timeout_from st r i a = Some b \<and> array_inv b \<and>
    array_list b = take i (array_list a) @
      remove_first_match (\<lambda>t. t_status t = st \<and> t_reply_id t = r) (drop i (array_list a))"
  using assms
proof (induction "a_count a - i" arbitrary: i)
  case 0
  then show ?case
    by (subst remove_timeout_from.simps) (simp add: length_array_list)
next
  case (Suc n)
  then have i: "i < a_count a" by simp
  let ?L = "array_list a"
  have len: "length ?L = a_count a" using assms(1) by (rule length_array_list)
  have dr: "drop i ?L = ?L ! i # drop (Suc i) ?L" using i len by (simp add: Cons_nth_drop_Suc)
  have it: "array__item_val a i = Some (?L ! i)" by (rule array_item_val [OF assms(1) i])
  show ?case
  proof (cases "t_status (?L ! i) = st \<and> t_reply_id (?L ! i) = r")
    case True
    with array_remove_facts [OF assms(1) i] i it dr show ?thesis
      by (subst remove_timeout_from.simps) auto
  next
    case False
    have "n = a_count a - Suc i" "Suc i \<le> a_count a" using Suc(2) i by simp_all
    from Suc(1) [OF this(1) assms(1) this(2)] False i it dr len show ?thesis
      by (subst remove_timeout_from.simps) (auto simp: take_Suc_conv_app_nth)
  qed
qed

lemma remove_timeout_facts:
  assumes "array_inv (timeouts s)"
  shows "\<exists>a. remove_timeout st r s = Some (s\<lparr>timeouts := a\<rparr>) \<and> array_inv a \<and>
    array_list a = remove_first_match (\<lambda>t. t_status t = st \<and> t_reply_id t = r) (array_list (timeouts s))"
  using remove_timeout_from_facts [OF assms, of 0 st r] by (auto simp: remove_timeout_def)

end
