(* ===== verification/Wire.thy ===== *)
theory Wire
  imports Status
begin

text \<open>
  Sending in msgbox.c: \<open>set_header\<close>, \<open>send_all\<close> and \<open>send_data\<close>.

  The bytes that \<open>send\<close> accepted are recorded with the call, so \<open>sent_on sock\<close> is the stream that
  the library wrote to a socket. \<open>send_all\<close> retries while the socket would block, for as long as
  it takes: it is a partial function, and the last section says when it returns.
\<close>

definition set_header :: "msg_Data \<Rightarrow> u16 \<Rightarrow> u16 \<Rightarrow> u32 \<Rightarrow> mbox \<Rightarrow> mbox option" where
  "set_header d msg_type rid num s = do {
     b \<leftarrow> buffer_of d;
     update_buffer b (\<lambda>buf. buf\<lparr>b_meta := (b_meta buf)\<lparr>md_header := network_header msg_type rid num\<rparr>\<rparr>) s
   }"

text \<open>The memory from \<open>data.bytes - header_len\<close> on, \<open>data.num_bytes + header_len\<close> bytes of it.\<close>

definition packet :: "msg_Data \<Rightarrow> mbox \<Rightarrow> bytes option" where
  "packet d s = do {
     b \<leftarrow> buffer_of d;
     buf \<leftarrow> buf_heap s b;
     req (num_bytes d \<le> length (b_body buf));
     Some (header_bytes (md_header (b_meta buf)) @ take (num_bytes d) (b_body buf))
   }"

definition sys_send :: "os \<Rightarrow> int \<Rightarrow> bytes \<Rightarrow> mbox \<Rightarrow> nat option \<times> mbox" where
  "sys_send os sock out s =
     (case os_send os (clock s) sock out of
        Ok n \<Rightarrow> (Some n, s\<lparr>clock := clock s + 1, trace := trace s @ [Sys_send sock (take n out)]\<rparr>)
      | Err e \<Rightarrow> (None, s\<lparr>clock := clock s + 1, trace := trace s @ [Sys_send sock []], last_errno := e\<rparr>))"

definition sys_sendto :: "os \<Rightarrow> int \<Rightarrow> bytes \<Rightarrow> sockaddr_in \<Rightarrow> mbox \<Rightarrow> nat option \<times> mbox" where
  "sys_sendto os sock out sa s =
     syscall (Sys_sendto sock out sa) (\<lambda>t. os_sendto os t sock out sa) s"

partial_function (option) send_loop :: "os \<Rightarrow> int \<Rightarrow> bytes \<Rightarrow> mbox \<Rightarrow> (int \<times> mbox) option" where
  "send_loop os sock out s =
     (if out = [] then Some (0, s)
      else case sys_send os sock out s of (just_sent, s) \<Rightarrow>
        (case just_sent of
           None \<Rightarrow> if get_errno s = EWOULDBLOCK then send_loop os sock out s else Some (- 1, s)
         | Some n \<Rightarrow> if n \<le> length out then send_loop os sock (drop n out) s else None))"

declare send_loop.simps [code]

definition send_all :: "os \<Rightarrow> int \<Rightarrow> msg_Data \<Rightarrow> mbox \<Rightarrow> (int \<times> mbox) option" where
  "send_all os sock d s = do { out \<leftarrow> packet d s; send_loop os sock out s }"

text \<open>The name of the failing system call, or \<open>no_error\<close>.\<close>

definition send_data :: "os \<Rightarrow> conn_ptr \<Rightarrow> msg_Data \<Rightarrow> mbox \<Rightarrow> (string option \<times> mbox) option" where
  "send_data os conn d s = do {
     c \<leftarrow> conn_heap s conn;
     if protocol_type c = msg_tcp then do {
       (r, s) \<leftarrow> send_all os (socket c) d s;
       Some (if r \<noteq> 0 then Some ''send'' else None, s)
     } else do {
       out \<leftarrow> packet d s;
       if for_listening c then do {
         let (r, s) = sys_sendto os (socket c) out (set_sockaddr_for_conn c) s;
         Some (if r = None then Some ''sendto'' else None, s)
       } else do {
         let (r, s) = sys_send os (socket c) out s;
         Some (if r = None then Some ''send'' else None, s)
       }
     }
   }"

section \<open>Only the outside world changes\<close>

text \<open>\<open>only_io s s'\<close>: nothing but the clock, the trace and \<open>errno\<close> differ.\<close>

definition only_io :: "mbox \<Rightarrow> mbox \<Rightarrow> bool" where
  "only_io s s' \<longleftrightarrow> s' = s\<lparr>clock := clock s', trace := trace s', last_errno := last_errno s'\<rparr>"

lemma only_io_refl [simp]: "only_io s s"
  by (simp add: only_io_def)

lemma only_io_iff:
  "only_io s s' \<longleftrightarrow> init_done s' = init_done s \<and> immediate_callbacks s' = immediate_callbacks s \<and>
    conns s' = conns s \<and> removals s' = removals s \<and> poll_fds s' = poll_fds s \<and>
    timeouts s' = timeouts s \<and> conn_status s' = conn_status s \<and> conn_heap s' = conn_heap s \<and>
    status_heap s' = status_heap s \<and> buf_heap s' = buf_heap s \<and> next_id s' = next_id s"
  by (cases s; cases s') (auto simp: only_io_def)

lemma only_io_fields:
  assumes "only_io s s'"
  shows "init_done s' = init_done s" "immediate_callbacks s' = immediate_callbacks s"
    "conns s' = conns s" "removals s' = removals s" "poll_fds s' = poll_fds s"
    "timeouts s' = timeouts s" "conn_status s' = conn_status s" "conn_heap s' = conn_heap s"
    "status_heap s' = status_heap s" "buf_heap s' = buf_heap s" "next_id s' = next_id s"
  using assms by (simp_all add: only_io_iff)

lemma only_io_trans: "only_io a b \<Longrightarrow> only_io b c \<Longrightarrow> only_io a c"
  by (simp add: only_io_iff)

lemma only_io_syscall [frame_simps]: "only_io s (snd (syscall call answer s))"
  by (simp add: only_io_iff syscall_def Let_def split: sysret.split)

lemma only_io_send [frame_simps]: "only_io s (snd (sys_send os sock out s))"
  by (simp add: only_io_iff sys_send_def split: sysret.split)

lemma only_io_sendto [frame_simps]: "only_io s (snd (sys_sendto os sock out sa s))"
  by (simp add: sys_sendto_def only_io_syscall)

section \<open>The stream that is sent\<close>

fun sent_bytes :: "int \<Rightarrow> observed \<Rightarrow> bytes" where
  "sent_bytes sock (Sys_send sock' bs) = (if sock' = sock then bs else [])"
| "sent_bytes sock _ = []"

definition sent_on :: "int \<Rightarrow> observed list \<Rightarrow> bytes" where
  "sent_on sock tr = concat (map (sent_bytes sock) tr)"

lemma sent_on_append [simp]: "sent_on sock (tr @ tr') = sent_on sock tr @ sent_on sock tr'"
  by (simp add: sent_on_def)

lemma sent_on_single [simp]: "sent_on sock [ob] = sent_bytes sock ob" "sent_on sock [] = []"
  by (simp_all add: sent_on_def)

text \<open>
  Whenever the loop returns, it has only talked to the socket; on success it has written exactly
  the bytes given, in order, and on failure a prefix of them.
\<close>

definition sends_prefix :: "int \<Rightarrow> bytes \<Rightarrow> mbox \<Rightarrow> int \<Rightarrow> mbox \<Rightarrow> bool" where
  "sends_prefix sock out s r s' \<longleftrightarrow> only_io s s' \<and>
     (\<exists>n \<le> length out. sent_on sock (trace s') = sent_on sock (trace s) @ take n out \<and>
        (r = 0 \<longleftrightarrow> n = length out)) \<and> (r = 0 \<or> r = - 1)"

lemma sends_prefix_step:
  assumes "sends_prefix sock (drop k out) s1 r s'" "k \<le> length out" "only_io s s1"
    "sent_on sock (trace s1) = sent_on sock (trace s) @ take k out"
  shows "sends_prefix sock out s r s'"
proof -
  from assms(1) obtain n where n: "n \<le> length (drop k out)" "only_io s1 s'" "r = 0 \<or> r = - 1"
    "sent_on sock (trace s') = sent_on sock (trace s1) @ take n (drop k out)"
    "r = 0 \<longleftrightarrow> n = length (drop k out)"
    by (auto simp: sends_prefix_def)
  have "k + n \<le> length out" "r = 0 \<longleftrightarrow> k + n = length out" using n(1,5) assms(2) by auto
  moreover have "sent_on sock (trace s') = sent_on sock (trace s) @ take (k + n) out"
    using n(4) assms(4) by (simp add: take_add)
  ultimately show ?thesis
    using n(2,3) assms(3) only_io_trans unfolding sends_prefix_def by blast
qed

lemma send_loop_prefix:
  assumes "send_loop os sock out s = Some (r, s')"
  shows "sends_prefix sock out s r s'"
proof -
  have "sends_prefix sock out s (fst (r, s')) (snd (r, s'))"
  proof (rule send_loop.raw_induct [where P = "\<lambda>os sock out s y. sends_prefix sock out s (fst y) (snd y)",
      OF _ assms])
  fix f os sock out s y
  assume IH0: "\<And>os sock out s y. f os sock out s = Some y \<Longrightarrow> sends_prefix sock out s (fst y) (snd y)"
    and eq0: "(if out = [] then Some (0, s)
      else case sys_send os sock out s of (just_sent, s) \<Rightarrow>
        (case just_sent of
           None \<Rightarrow> if get_errno s = EWOULDBLOCK then f os sock out s else Some (- 1, s)
         | Some n \<Rightarrow> if n \<le> length out then f os sock (drop n out) s else None)) = Some y"
  obtain r s' where y: "y = (r, s')" by fastforce
  note IH = IH0 [of _ _ _ _ "(r, s')", simplified] and eq = eq0 [unfolded y]
  obtain j s1 where j: "sys_send os sock out s = (j, s1)" by fastforce
  have io: "only_io s s1" using only_io_send [of s os sock out] j by simp
  have "sends_prefix sock out s r s'"
  proof (cases "out = []")
    case True
    with eq show ?thesis by (simp add: sends_prefix_def)
  next
    case ne: False
    show ?thesis
    proof (cases j)
      case None
      then have tr: "sent_on sock (trace s1) = sent_on sock (trace s)"
        using j by (auto simp: sys_send_def split: sysret.splits)
      show ?thesis
      proof (cases "get_errno s1 = EWOULDBLOCK")
        case True
        with eq ne None j have "f os sock out s1 = Some (r, s')" by simp
        from IH [OF this] show ?thesis using sends_prefix_step [of sock 0 out] io tr by simp
      next
        case False
        with eq ne None j have "r = - 1" "s' = s1" by simp_all
        with io tr ne show ?thesis by (auto simp: sends_prefix_def intro!: exI [of _ 0])
      qed
    next
      case (Some n)
      then have tr: "sent_on sock (trace s1) = sent_on sock (trace s) @ take n out"
        using j by (auto simp: sys_send_def split: sysret.splits)
      from eq ne Some j have "n \<le> length out" "f os sock (drop n out) s1 = Some (r, s')"
        by (simp_all split: if_splits)
      with IH io tr show ?thesis by (blast intro: sends_prefix_step)
    qed
  qed
  with y show "sends_prefix sock out s (fst y) (snd y)" by simp
  qed
  then show ?thesis by simp
qed

section \<open>When sending returns\<close>

text \<open>
  \<open>send\<close> as its manual page describes it never accepts more than it is given. The environment
  makes progress on a socket when, from any moment on, it answers some call with an accepted byte
  or with an error other than "would block".
\<close>

definition send_stalls :: "os \<Rightarrow> nat \<Rightarrow> int \<Rightarrow> bytes \<Rightarrow> bool" where
  "send_stalls os t sock out \<longleftrightarrow> os_send os t sock out = Err EWOULDBLOCK \<or> os_send os t sock out = Ok 0"

definition send_accepts :: "os \<Rightarrow> int \<Rightarrow> bool" where
  "send_accepts os sock \<longleftrightarrow> (\<forall>t out n. os_send os t sock out = Ok n \<longrightarrow> n \<le> length out)"

definition send_progress :: "os \<Rightarrow> int \<Rightarrow> bool" where
  "send_progress os sock \<longleftrightarrow> (\<forall>t out. out \<noteq> [] \<longrightarrow> (\<exists>k. \<not> send_stalls os (t + k) sock out))"

text \<open>A socket that refuses for ever is never given up.\<close>

lemma send_loop_stuck:
  assumes "\<forall>t bs. os_send os t sock bs = Err EWOULDBLOCK" "out \<noteq> []"
  shows "send_loop os sock out s = None"
proof (rule ccontr)
  assume "send_loop os sock out s \<noteq> None"
  then obtain y where y: "send_loop os sock out s = Some y" by blast
  have "(\<forall>t bs. os_send os t sock bs = Err EWOULDBLOCK) \<longrightarrow> out = []"
  proof (rule send_loop.raw_induct [where
        P = "\<lambda>os sock out s y. (\<forall>t bs. os_send os t sock bs = Err EWOULDBLOCK) \<longrightarrow> out = []", OF _ y])
    fix f os sock out s y
    assume IH: "\<And>os sock out s y. f os sock out s = Some y \<Longrightarrow>
        (\<forall>t bs. os_send os t sock bs = Err EWOULDBLOCK) \<longrightarrow> out = []"
      and eq: "(if out = [] then Some (0, s)
        else case sys_send os sock out s of (just_sent, s) \<Rightarrow>
          (case just_sent of
             None \<Rightarrow> if get_errno s = EWOULDBLOCK then f os sock out s else Some (- 1, s)
           | Some n \<Rightarrow> if n \<le> length out then f os sock (drop n out) s else None)) = Some y"
    show "(\<forall>t bs. os_send os t sock bs = Err EWOULDBLOCK) \<longrightarrow> out = []"
    proof (intro impI, rule ccontr)
      assume full: "\<forall>t bs. os_send os t sock bs = Err EWOULDBLOCK" and ne: "out \<noteq> []"
      obtain j s1 where j: "sys_send os sock out s = (j, s1)" by fastforce
      with full have "j = None" "get_errno s1 = EWOULDBLOCK"
        by (auto simp: sys_send_def get_errno_def)
      with eq ne j have "f os sock out s1 = Some y" by simp
      from IH [OF this] full ne show False by simp
    qed
  qed
  with assms show False by blast
qed

lemma send_loop_unstall:
  assumes "\<not> send_stalls os (clock s + k) sock out" "out \<noteq> []" "send_accepts os sock"
    "\<And>n s. 0 < n \<Longrightarrow> n \<le> length out \<Longrightarrow> \<exists>r s'. send_loop os sock (drop n out) s = Some (r, s')"
  shows "\<exists>r s'. send_loop os sock out s = Some (r, s')"
  using assms(1)
proof (induction k arbitrary: s)
  case 0
  then show ?case
  proof (cases "os_send os (clock s) sock out")
    case (Ok n)
    then have "0 < n" "n \<le> length out"
      using 0 assms(3) by (auto simp: send_stalls_def send_accepts_def intro: gr0I)
    with Ok assms(2,4) show ?thesis
      by (subst send_loop.simps) (simp add: sys_send_def)
  next
    case (Err e)
    then show ?thesis
      using 0 assms(2) by (subst send_loop.simps) (auto simp: sys_send_def send_stalls_def get_errno_def)
  qed
next
  case (Suc k)
  show ?case
  proof (cases "send_stalls os (clock s) sock out")
    case True
    let ?s = "snd (sys_send os sock out s)"
    have "clock ?s = clock s + 1" by (simp add: sys_send_def split: sysret.split)
    with Suc.prems have "\<not> send_stalls os (clock ?s + k) sock out" by simp
    from Suc.IH [OF this] show ?thesis
      using True assms(2)
      by (subst send_loop.simps) (auto simp: sys_send_def send_stalls_def get_errno_def)
  next
    case False
    show ?thesis
    proof (cases "os_send os (clock s) sock out")
      case (Ok n)
      then have "0 < n" "n \<le> length out"
        using False assms(3) by (auto simp: send_stalls_def send_accepts_def intro: gr0I)
      with Ok assms(2,4) show ?thesis
        by (subst send_loop.simps) (simp add: sys_send_def)
    next
      case (Err e)
      then show ?thesis
        using False assms(2) by (subst send_loop.simps) (auto simp: sys_send_def send_stalls_def get_errno_def)
    qed
  qed
qed

lemma send_loop_returns:
  assumes "send_accepts os sock" "send_progress os sock"
  shows "\<exists>r s'. send_loop os sock out s = Some (r, s')"
proof (induction "length out" arbitrary: out s rule: less_induct)
  case less
  show ?case
  proof (cases "out = []")
    case True
    then show ?thesis by (subst send_loop.simps) simp
  next
    case False
    with assms(2) obtain k where k: "\<not> send_stalls os (clock s + k) sock out"
      by (auto simp: send_progress_def)
    show ?thesis
      by (rule send_loop_unstall [OF k False assms(1)]) (use less False in simp)
  qed
qed

end
