(* ===== verification/Callbacks.thy ===== *)
theory Callbacks
  imports Wire
begin

text \<open>
  The queue of pending callbacks: \<open>send_callback\<close> and its error variants append to it, and
  \<open>make_call\<close> runs one entry. The user's callback is a parameter \<open>user\<close>: what the function with a
  given name does to the state when it is called with a connection, an event and data.
\<close>

type_synonym user_code = "callback_id \<Rightarrow> conn_ptr \<Rightarrow> msg_Event \<Rightarrow> msg_Data \<Rightarrow> mbox \<Rightarrow> mbox option"

definition send_callback ::
  "conn_ptr \<Rightarrow> msg_Event \<Rightarrow> msg_Data \<Rightarrow> heap_ptr option \<Rightarrow> mbox \<Rightarrow> mbox" where
  "send_callback conn ev d free s =
     s\<lparr>immediate_callbacks := array__add_item_ptr (immediate_callbacks s)
         \<lparr>pc_conn = conn, pc_event = ev, pc_data = d, to_free = free\<rparr>\<rparr>"

definition send_callback_error ::
  "os \<Rightarrow> conn_ptr \<Rightarrow> string \<Rightarrow> heap_ptr option \<Rightarrow> mbox \<Rightarrow> mbox option" where
  "send_callback_error os conn msg free s = do {
     (d, s) \<leftarrow> msg_new_data os msg s;
     Some (send_callback conn msg_error d free s)
   }"

definition send_callback_os_error ::
  "os \<Rightarrow> conn_ptr \<Rightarrow> string \<Rightarrow> heap_ptr option \<Rightarrow> mbox \<Rightarrow> mbox option" where
  "send_callback_os_error os conn msg free s =
     send_callback_error os conn (snprintf 1024 (msg @ '': '' @ err_str os s)) free s"

text \<open>The string that the user reads through \<open>msg_as_str\<close> or \<open>msg_error_str\<close>.\<close>

definition msg_as_str :: "msg_Data \<Rightarrow> mbox \<Rightarrow> bytes option" where
  "msg_as_str d s = do {
     b \<leftarrow> buffer_of d;
     buf \<leftarrow> buf_heap s b;
     req (0 \<in> set (b_body buf));
     Some (takeWhile (\<lambda>x. x \<noteq> 0) (b_body buf))
   }"

definition msg_error_str :: "msg_Data \<Rightarrow> mbox \<Rightarrow> bytes option" where
  "msg_error_str d s = msg_as_str d s"

text \<open>
  The first half of \<open>make_call\<close>: for udp data the preamble of the buffer, whatever it holds, is
  copied into the connection, and the context is restored from the status of that address.
\<close>

definition restore_udp :: "PendingCall \<Rightarrow> mbox \<Rightarrow> (status_ptr option \<times> mbox) option" where
  "restore_udp call s = do {
     c \<leftarrow> conn_heap s (pc_conn call);
     if protocol_type c = msg_udp \<and> data_bytes (pc_data call) \<noteq> None then do {
       b \<leftarrow> buffer_of (pc_data call);
       buf \<leftarrow> buf_heap s b;
       let m = b_meta buf;
       s \<leftarrow> update_conn (pc_conn call)
             (\<lambda>c. set_address_of_conn (md_remote_address m) (c\<lparr>reply_context := md_reply_context m\<rparr>)) s;
       status \<leftarrow> status_of_conn (pc_conn call) s;
       case status of
         None \<Rightarrow> Some (None, s)
       | Some p \<Rightarrow> do {
           st \<leftarrow> status_heap s p;
           s \<leftarrow> update_conn (pc_conn call) (\<lambda>c. c\<lparr>conn_context := st_conn_context st\<rparr>) s;
           Some (Some p, s)
         }
     } else Some (None, s)
   }"

text \<open>After the callback: the context that the user left is saved in the status.\<close>

definition save_udp :: "conn_ptr \<Rightarrow> status_ptr option \<Rightarrow> mbox \<Rightarrow> mbox option" where
  "save_udp conn status s = do {
     c \<leftarrow> conn_heap s conn;
     case status of
       Some p \<Rightarrow>
         if protocol_type c = msg_udp
         then update_status p (\<lambda>st. st\<lparr>st_conn_context := conn_context c\<rparr>) s
         else Some s
     | None \<Rightarrow> Some s
   }"

definition make_call :: "user_code \<Rightarrow> PendingCall \<Rightarrow> mbox \<Rightarrow> mbox option" where
  "make_call user call s = do {
     (status, s) \<leftarrow> restore_udp call s;
     c \<leftarrow> conn_heap s (pc_conn call);
     let s = s\<lparr>trace := trace s @ [Callback (callback c) (pc_conn call) (pc_event call) (pc_data call)]\<rparr>;
     s \<leftarrow> user (callback c) (pc_conn call) (pc_event call) (pc_data call) s;
     s \<leftarrow> save_udp (pc_conn call) status s;
     s \<leftarrow> (if data_bytes (pc_data call) \<noteq> None then msg_delete_data (pc_data call) s else Some s);
     case to_free call of Some p \<Rightarrow> free_ptr p s | None \<Rightarrow> Some s
   }"

text \<open>The loop of \<open>msg_runloop\<close> over the saved array of pending calls.\<close>

function make_calls_from :: "user_code \<Rightarrow> PendingCall carray \<Rightarrow> nat \<Rightarrow> mbox \<Rightarrow> mbox option" where
  "make_calls_from user saved i s =
     (if i < a_count saved then do {
        call \<leftarrow> array__item_val saved i;
        s \<leftarrow> make_call user call s;
        make_calls_from user saved (Suc i) s
      } else Some s)"
  by pat_completeness auto
termination
  by (relation "measure (\<lambda>(user, saved, i, s). a_count saved - i)") auto

declare make_calls_from.simps [simp del]

section \<open>Queueing\<close>

definition pending :: "mbox \<Rightarrow> PendingCall list" where
  "pending s = array_list (immediate_callbacks s)"

lemma send_callback_pending:
  assumes "array_inv (immediate_callbacks s)"
  shows "pending (send_callback conn ev d free s) =
      pending s @ [\<lparr>pc_conn = conn, pc_event = ev, pc_data = d, to_free = free\<rparr>]"
    and "array_inv (immediate_callbacks (send_callback conn ev d free s))"
  using assms by (simp_all add: pending_def send_callback_def array_simps array_invs)

lemma send_callback_frame [simp]:
  "init_done (send_callback conn ev d free s) = init_done s"
  "conns (send_callback conn ev d free s) = conns s"
  "removals (send_callback conn ev d free s) = removals s"
  "poll_fds (send_callback conn ev d free s) = poll_fds s"
  "timeouts (send_callback conn ev d free s) = timeouts s"
  "conn_status (send_callback conn ev d free s) = conn_status s"
  "conn_heap (send_callback conn ev d free s) = conn_heap s"
  "status_heap (send_callback conn ev d free s) = status_heap s"
  "buf_heap (send_callback conn ev d free s) = buf_heap s"
  "next_id (send_callback conn ev d free s) = next_id s"
  "trace (send_callback conn ev d free s) = trace s"
  "clock (send_callback conn ev d free s) = clock s"
  "last_errno (send_callback conn ev d free s) = last_errno s"
  by (simp_all add: send_callback_def)

lemma msg_new_data_eq:
  "msg_new_data os str s =
     Some (\<lparr>num_bytes = length str + 1, data_bytes = Some (next_id s, 0)\<rparr>,
       s\<lparr>buf_heap := (buf_heap s)(next_id s := Some \<lparr>b_meta = os_malloc_meta os (clock s), b_body = c_string str\<rparr>),
         next_id := next_id s + 1, clock := clock s + 1, trace := trace s @ [Sys_malloc (length str + 1)]\<rparr>)"
  by (simp add: msg_new_data_def msg_new_data_space_def Let_def buffer_of_def update_buffer_def)

text \<open>
  What an error event looks like when it is queued: a fresh buffer that holds the message and
  whose preamble is whatever \<open>malloc\<close> left there.
\<close>

definition error_state :: "os \<Rightarrow> conn_ptr \<Rightarrow> string \<Rightarrow> heap_ptr option \<Rightarrow> mbox \<Rightarrow> mbox" where
  "error_state os conn msg free s =
     send_callback conn msg_error \<lparr>num_bytes = length msg + 1, data_bytes = Some (next_id s, 0)\<rparr> free
       (s\<lparr>buf_heap := (buf_heap s)(next_id s := Some \<lparr>b_meta = os_malloc_meta os (clock s), b_body = c_string msg\<rparr>),
          next_id := next_id s + 1, clock := clock s + 1, trace := trace s @ [Sys_malloc (length msg + 1)]\<rparr>)"

lemma send_callback_error_eq: "send_callback_error os conn msg free s = Some (error_state os conn msg free s)"
  by (simp add: send_callback_error_def msg_new_data_eq error_state_def)

lemma send_callback_os_error_eq:
  "send_callback_os_error os conn msg free s =
     Some (error_state os conn (snprintf 1024 (msg @ '': '' @ err_str os s)) free s)"
  by (simp add: send_callback_os_error_def send_callback_error_eq)

lemma error_state_frame [simp]:
  "init_done (error_state os conn msg free s) = init_done s"
  "conns (error_state os conn msg free s) = conns s"
  "removals (error_state os conn msg free s) = removals s"
  "poll_fds (error_state os conn msg free s) = poll_fds s"
  "timeouts (error_state os conn msg free s) = timeouts s"
  "conn_status (error_state os conn msg free s) = conn_status s"
  "conn_heap (error_state os conn msg free s) = conn_heap s"
  "status_heap (error_state os conn msg free s) = status_heap s"
  "next_id (error_state os conn msg free s) = next_id s + 1"
  "last_errno (error_state os conn msg free s) = last_errno s"
  by (simp_all add: error_state_def)

lemma error_state_pending:
  assumes "array_inv (immediate_callbacks s)"
  shows "pending (error_state os conn msg free s) =
      pending s @ [\<lparr>pc_conn = conn, pc_event = msg_error,
        pc_data = \<lparr>num_bytes = length msg + 1, data_bytes = Some (next_id s, 0)\<rparr>, to_free = free\<rparr>]"
    and "array_inv (immediate_callbacks (error_state os conn msg free s))"
  using assms by (simp_all add: error_state_def send_callback_pending) (simp add: pending_def)

section \<open>Draining\<close>

lemma make_calls_step:
  assumes "array_inv saved" "i < a_count saved"
  shows "make_calls_from user saved i s =
    Option.bind (make_call user (array_list saved ! i) s) (make_calls_from user saved (Suc i))"
  by (subst make_calls_from.simps) (simp add: assms array_item_val [OF assms])

text \<open>The loop runs the saved calls one by one, in the order in which they were queued.\<close>

fun run_calls :: "user_code \<Rightarrow> PendingCall list \<Rightarrow> mbox \<Rightarrow> mbox option" where
  "run_calls user [] s = Some s"
| "run_calls user (call # calls) s = Option.bind (make_call user call s) (run_calls user calls)"

lemma make_calls_run:
  assumes "array_inv saved" "i \<le> a_count saved"
  shows "make_calls_from user saved i s = run_calls user (drop i (array_list saved)) s"
  using assms(2)
proof (induction "a_count saved - i" arbitrary: i s)
  case 0
  then show ?case
    using length_array_list [OF assms(1)] by (subst make_calls_from.simps) simp
next
  case (Suc n)
  then have i: "i < a_count saved" by simp
  have "drop i (array_list saved) = array_list saved ! i # drop (Suc i) (array_list saved)"
    using i length_array_list [OF assms(1)] by (simp add: Cons_nth_drop_Suc)
  moreover have "make_calls_from user saved (Suc i) = run_calls user (drop (Suc i) (array_list saved))"
    using Suc by (intro ext) simp
  ultimately show ?case by (simp add: make_calls_step [OF assms(1) i])
qed

end
