(* ===== verification/Conns.thy ===== *)
theory Conns
  imports Callbacks
begin

text \<open>
  The arrays \<open>conns\<close> and \<open>poll_fds\<close>, which msgbox.c keeps index-matched, the queue \<open>removals\<close> of
  connections to take out of them, and \<open>local_disconnect\<close>. This is the mac/linux version, on
  \<open>poll\<close>.
\<close>

section \<open>Poll modes\<close>

definition poll_mode_read :: u32 where "poll_mode_read = 1"
definition poll_mode_write :: u32 where "poll_mode_write = 2"
definition poll_mode_err :: u32 where "poll_mode_err = 4"

definition POLLIN :: u16 where "POLLIN = 1"
definition POLLOUT :: u16 where "POLLOUT = 4"
definition POLLERR :: u16 where "POLLERR = 8"
definition POLLHUP :: u16 where "POLLHUP = 16"
definition POLLNVAL :: u16 where "POLLNVAL = 32"

definition has_mode :: "u32 \<Rightarrow> u32 \<Rightarrow> bool" where
  "has_mode m mode_bit \<longleftrightarrow> m AND mode_bit \<noteq> 0"

text \<open>The mode that is asked for is ignored: a new entry always polls for reading.\<close>

definition add_to_poll_fds :: "int \<Rightarrow> u32 \<Rightarrow> mbox \<Rightarrow> mbox" where
  "add_to_poll_fds new_sock poll_mode s =
     s\<lparr>poll_fds := array__add_item_ptr (poll_fds s) \<lparr>fd = new_sock, events = POLLIN, revents = 0\<rparr>\<rparr>"

definition remove_from_poll_fds :: "nat \<Rightarrow> mbox \<Rightarrow> mbox option" where
  "remove_from_poll_fds i s =
     map_option (\<lambda>a. s\<lparr>poll_fds := a\<rparr>) (array__remove_and_fill (poll_fds s) i)"

definition remove_last_polling_conn :: "mbox \<Rightarrow> mbox option" where
  "remove_last_polling_conn s = do {
     a \<leftarrow> array__remove_last (conns s);
     b \<leftarrow> array__remove_last (poll_fds s);
     Some (s\<lparr>conns := a, poll_fds := b\<rparr>)
   }"

definition set_conn_to_poll_mode :: "nat \<Rightarrow> u32 \<Rightarrow> mbox \<Rightarrow> mbox option" where
  "set_conn_to_poll_mode i poll_mode s = do {
     p \<leftarrow> array__item_val (poll_fds s) i;
     a \<leftarrow> array__item_set (poll_fds s) i
           (p\<lparr>events := (if has_mode poll_mode poll_mode_read then POLLIN else POLLOUT)\<rparr>);
     Some (s\<lparr>poll_fds := a\<rparr>)
   }"

text \<open>\<open>poll\<close> writes the \<open>revents\<close> of each entry; the result is its return value.\<close>

fun set_revents :: "u16 list \<Rightarrow> pollfd list \<Rightarrow> pollfd list" where
  "set_revents (r # rs) (p # ps) = p\<lparr>revents := r\<rparr> # set_revents rs ps"
| "set_revents _ ps = ps"

definition check_poll_fds :: "os \<Rightarrow> int \<Rightarrow> mbox \<Rightarrow> int \<times> mbox" where
  "check_poll_fds os timeout_in_ms s =
     (let fds = array_list (poll_fds s);
          (r, s) = syscall (Sys_poll fds timeout_in_ms) (\<lambda>t. os_poll os t fds timeout_in_ms) s
      in case r of None \<Rightarrow> (- 1, s)
         | Some (n, revs) \<Rightarrow>
             (int n, s\<lparr>poll_fds := (poll_fds s)
                \<lparr>items := map Some (set_revents revs fds) @ drop (length fds) (items (poll_fds s))\<rparr>\<rparr>))"

definition poll_fds_mode :: "nat \<Rightarrow> mbox \<Rightarrow> u32 option" where
  "poll_fds_mode i s = do {
     p \<leftarrow> array__item_val (poll_fds s) i;
     let poll_mode = 0;
     let poll_mode = (if revents p AND POLLIN \<noteq> 0 then poll_mode OR poll_mode_read else poll_mode);
     let poll_mode = (if revents p AND POLLOUT \<noteq> 0 then poll_mode OR poll_mode_write else poll_mode);
     let poll_mode = (if revents p AND (POLLERR OR POLLNVAL OR POLLHUP) \<noteq> 0
                      then poll_mode OR poll_mode_err else poll_mode);
     Some poll_mode
   }"

section \<open>Removing connections\<close>

definition remove_conn_at :: "nat \<Rightarrow> mbox \<Rightarrow> mbox option" where
  "remove_conn_at i s = do {
     a \<leftarrow> array__remove_and_fill (conns s) i;
     let s = s\<lparr>conns := a\<rparr>;
     s \<leftarrow> (if i < a_count (conns s) then do {
              filled_conn \<leftarrow> array__item_val (conns s) i;
              update_conn filled_conn (\<lambda>c. c\<lparr>index := i\<rparr>) s
            } else Some s);
     remove_from_poll_fds i s
   }"

text \<open>The loop over \<open>removals\<close>, which does not change that array, and its clearing.\<close>

function remove_conns_from :: "nat carray \<Rightarrow> nat \<Rightarrow> mbox \<Rightarrow> mbox option" where
  "remove_conns_from rs i s =
     (if i < a_count rs then do {
        ix \<leftarrow> array__item_val rs i;
        s \<leftarrow> remove_conn_at ix s;
        remove_conns_from rs (Suc i) s
      } else Some s)"
  by pat_completeness auto
termination
  by (relation "measure (\<lambda>(rs, i, s). a_count rs - i)") auto

declare remove_conns_from.simps [simp del]

definition process_removals :: "mbox \<Rightarrow> mbox option" where
  "process_removals s = do {
     s \<leftarrow> remove_conns_from (removals s) 0 s;
     Some (s\<lparr>removals := array__clear (removals s)\<rparr>)
   }"

section \<open>Disconnecting\<close>

definition local_disconnect :: "os \<Rightarrow> conn_ptr \<Rightarrow> msg_Event \<Rightarrow> mbox \<Rightarrow> mbox option" where
  "local_disconnect os conn ev s = do {
     c \<leftarrow> conn_heap s conn;
     s \<leftarrow> conn_status_unset (address_of_conn c) s;
     let is_listening_udp = (for_listening c \<and> protocol_type c = msg_udp);
     let free = (if is_listening_udp then None else Some (ConnPtr conn));
     let s = send_callback conn ev msg_no_data free s;
     if is_listening_udp then Some s
     else do {
       let (_, s) = closesocket os (socket c) s;
       Some (s\<lparr>removals := array__add_item_ptr (removals s) (index c)\<rparr>)
     }
   }"

section \<open>The arrays stay index-matched\<close>

definition conn_list :: "mbox \<Rightarrow> conn_ptr list" where
  "conn_list s = array_list (conns s)"

definition pollfd_list :: "mbox \<Rightarrow> pollfd list" where
  "pollfd_list s = array_list (poll_fds s)"

text \<open>
  Every connection in \<open>conns\<close> is a live object that knows its own index, and the entry of
  \<open>poll_fds\<close> at that index polls its socket.
\<close>

definition matched :: "(conn_ptr \<Rightarrow> msg_Conn option) \<Rightarrow> conn_ptr list \<Rightarrow> pollfd list \<Rightarrow> bool" where
  "matched h cs ps \<longleftrightarrow> length cs = length ps \<and>
     (\<forall>i < length cs. \<exists>c. h (cs ! i) = Some c \<and> index c = i \<and> fd (ps ! i) = socket c)"

definition conns_ok :: "mbox \<Rightarrow> bool" where
  "conns_ok s \<longleftrightarrow> array_inv (conns s) \<and> array_inv (poll_fds s) \<and>
     matched (conn_heap s) (conn_list s) (pollfd_list s)"

lemma conns_okD:
  assumes "conns_ok s"
  shows "array_inv (conns s)" "array_inv (poll_fds s)" "length (conn_list s) = a_count (conns s)"
    "length (pollfd_list s) = a_count (poll_fds s)" "a_count (poll_fds s) = a_count (conns s)"
  using assms by (auto simp: conns_ok_def matched_def conn_list_def pollfd_list_def length_array_list)

lemma matched_nth:
  assumes "matched h cs ps" "i < length cs"
  obtains c where "h (cs ! i) = Some c" "index c = i" "fd (ps ! i) = socket c"
  using assms by (auto simp: matched_def)

lemma matched_distinct: "matched h cs ps \<Longrightarrow> distinct cs"
  unfolding distinct_conv_nth matched_def by (metis option.inject)

lemma matched_frame:
  assumes "matched h cs ps" "\<And>p c. p \<in> set cs \<Longrightarrow> h p = Some c \<Longrightarrow>
     \<exists>c'. h' p = Some c' \<and> index c' = index c \<and> socket c' = socket c"
  shows "matched h' cs ps"
  using assms unfolding matched_def by (metis nth_mem)

text \<open>Swapping the last connection into position \<open>i\<close> and telling it its new index.\<close>

lemma matched_fill:
  assumes "matched h cs ps" "i < length cs" "h (last cs) = Some c"
  shows "matched (if i < length cs - 1 then h(last cs := Some (c\<lparr>index := i\<rparr>)) else h)
    (butlast (cs[i := last cs])) (butlast (ps[i := last ps]))"
proof -
  have len: "length cs = length ps" "cs \<noteq> []" "ps \<noteq> []" using assms by (auto simp: matched_def)
  have last: "last cs = cs ! (length cs - 1)" "last ps = ps ! (length cs - 1)"
    using len by (simp_all add: last_conv_nth)
  obtain cl where cl: "h (cs ! (length cs - 1)) = Some cl" "fd (ps ! (length cs - 1)) = socket cl"
    using assms(1,2) by (elim matched_nth [where i = "length cs - 1"]) auto
  have dist: "distinct cs" using assms(1) by (rule matched_distinct)
  show ?thesis
    unfolding matched_def
  proof (intro conjI allI impI)
    fix j assume "j < length (butlast (cs[i := last cs]))"
    then have j: "j < length cs - 1" by simp
    then obtain cj where cj: "h (cs ! j) = Some cj" "index cj = j" "fd (ps ! j) = socket cj"
      using assms(1) by (elim matched_nth [where i = j]) auto
    have neq: "cs ! j \<noteq> last cs" using j dist last(1) by (simp add: nth_eq_iff_index_eq)
    show "\<exists>d. (if i < length cs - 1 then h(last cs := Some (c\<lparr>index := i\<rparr>)) else h)
        (butlast (cs[i := last cs]) ! j) = Some d \<and> index d = j \<and>
        fd (butlast (ps[i := last ps]) ! j) = socket d"
      using j cj neq cl last len assms(2,3)
      by (cases "j = i") (auto simp: nth_butlast nth_list_update)
  qed (use len in simp)
qed

text \<open>Taking out a connection that is there: the arrays stay matched and lose just that one.\<close>

lemma remove_conn_at_facts:
  assumes "conns_ok s" "i < a_count (conns s)"
  shows "\<exists>a b h. remove_conn_at i s = Some (s\<lparr>conns := a, poll_fds := b, conn_heap := h\<rparr>) \<and>
    conns_ok (s\<lparr>conns := a, poll_fds := b, conn_heap := h\<rparr>) \<and>
    array_list a = butlast ((conn_list s)[i := last (conn_list s)]) \<and>
    a_count a = a_count (conns s) - 1 \<and> dom h = dom (conn_heap s)"
proof -
  note ok = conns_okD [OF assms(1)]
  let ?L = "conn_list s" and ?P = "pollfd_list s"
  have m: "matched (conn_heap s) ?L ?P" using assms(1) by (simp add: conns_ok_def)
  have i: "i < length ?L" "i < a_count (poll_fds s)" using ok assms(2) by simp_all
  have ne: "?L \<noteq> []" using i by auto
  from array_remove_and_fill_facts [OF ok(1) assms(2)] obtain a where
    a: "array__remove_and_fill (conns s) i = Some a" "array_inv a"
      "array_list a = butlast (?L[i := last ?L])" "a_count a = a_count (conns s) - 1"
    by (auto simp: conn_list_def)
  from array_remove_and_fill_facts [OF ok(2) i(2)] obtain b where
    b: "array__remove_and_fill (poll_fds s) i = Some b" "array_inv b"
      "array_list b = butlast (?P[i := last ?P])"
    by (auto simp: pollfd_list_def)
  obtain c where c: "conn_heap s (last ?L) = Some c"
    using m ne by (auto simp: last_conv_nth elim: matched_nth [where i = "length ?L - 1"])
  let ?h = "if i < length ?L - 1 then (conn_heap s)(last ?L := Some (c\<lparr>index := i\<rparr>)) else conn_heap s"
  have run: "remove_conn_at i s = Some (s\<lparr>conns := a, poll_fds := b, conn_heap := ?h\<rparr>)"
  proof (cases "i < length ?L - 1")
    case True
    then have "array__item_val a i = Some (last ?L)"
      using array_item_val [OF a(2), of i] a(3,4) ok(3) by (simp add: nth_butlast)
    with True a b c ok(3) show ?thesis
      by (simp add: remove_conn_at_def Let_def remove_from_poll_fds_def update_conn_def)
  next
    case False
    with a b ok(3) show ?thesis
      by (simp add: remove_conn_at_def Let_def remove_from_poll_fds_def)
  qed
  have "conns_ok (s\<lparr>conns := a, poll_fds := b, conn_heap := ?h\<rparr>)"
    using matched_fill [OF m i(1) c] a b by (simp add: conns_ok_def conn_list_def pollfd_list_def)
  moreover have "dom ?h = dom (conn_heap s)" using c by auto
  ultimately show ?thesis using run a(3,4) by blast
qed

text \<open>Adding a connection with its socket at the end of both arrays.\<close>

lemma add_conn_ok:
  assumes "conns_ok s" "conn_heap s p = Some c" "p \<notin> set (conn_list s)"
    "index c = a_count (conns s)" "socket c = sock"
  shows "conns_ok (add_to_poll_fds sock mode (s\<lparr>conns := array__add_item_ptr (conns s) p\<rparr>))"
proof -
  note ok = conns_okD [OF assms(1)]
  let ?p = "\<lparr>fd = sock, events = POLLIN, revents = 0\<rparr>"
  have "matched (conn_heap s) (conn_list s @ [p]) (pollfd_list s @ [?p])"
    unfolding matched_def
  proof (intro conjI allI impI)
    show "length (conn_list s @ [p]) = length (pollfd_list s @ [?p])" using ok by simp
    fix i assume "i < length (conn_list s @ [p])"
    then consider "i < length (conn_list s)" | "i = length (conn_list s)" by fastforce
    then show "\<exists>c. conn_heap s ((conn_list s @ [p]) ! i) = Some c \<and> index c = i \<and>
        fd ((pollfd_list s @ [?p]) ! i) = socket c"
    proof cases
      case 1
      moreover have "matched (conn_heap s) (conn_list s) (pollfd_list s)"
        using assms(1) by (simp add: conns_ok_def)
      ultimately show ?thesis using ok by (auto simp: nth_append elim: matched_nth)
    next
      case 2
      then show ?thesis using assms ok by (simp add: nth_append)
    qed
  qed
  then show ?thesis
    using ok by (simp add: conns_ok_def add_to_poll_fds_def conn_list_def pollfd_list_def
        array_simps array_invs)
qed

lemma remove_last_ok:
  assumes "conns_ok s" "0 < a_count (conns s)"
  shows "\<exists>a b. remove_last_polling_conn s = Some (s\<lparr>conns := a, poll_fds := b\<rparr>) \<and>
    conns_ok (s\<lparr>conns := a, poll_fds := b\<rparr>) \<and> array_list a = butlast (conn_list s)"
proof -
  note ok = conns_okD [OF assms(1)]
  from array_remove_last_facts [OF ok(1) assms(2)] obtain a where
    a: "array__remove_last (conns s) = Some a" "array_inv a" "array_list a = butlast (conn_list s)"
    by (auto simp: conn_list_def)
  have "0 < a_count (poll_fds s)" using ok(5) assms(2) by simp
  from array_remove_last_facts [OF ok(2) this] obtain b where
    b: "array__remove_last (poll_fds s) = Some b" "array_inv b" "array_list b = butlast (pollfd_list s)"
    by (auto simp: pollfd_list_def)
  have "matched (conn_heap s) (butlast (conn_list s)) (butlast (pollfd_list s))"
    using assms(1) by (auto simp: conns_ok_def matched_def nth_butlast)
  with a b have "conns_ok (s\<lparr>conns := a, poll_fds := b\<rparr>)"
    by (simp add: conns_ok_def conn_list_def pollfd_list_def)
  moreover have "remove_last_polling_conn s = Some (s\<lparr>conns := a, poll_fds := b\<rparr>)"
    using a b by (simp add: remove_last_polling_conn_def)
  ultimately show ?thesis using a(3) by blast
qed

text \<open>\<open>conns_ok\<close> depends on the two arrays and the heap of connections only.\<close>

lemma conns_ok_cong:
  assumes "conns s' = conns s" "poll_fds s' = poll_fds s" "conn_heap s' = conn_heap s"
  shows "conns_ok s' = conns_ok s" "conn_list s' = conn_list s"
  using assms by (simp_all add: conns_ok_def conn_list_def pollfd_list_def)

lemma conns_ok_update_conn:
  assumes "conns_ok s" "update_conn p f s = Some s'"
    "\<And>c. conn_heap s p = Some c \<Longrightarrow> index (f c) = index c \<and> socket (f c) = socket c"
  shows "conns_ok s'" "conn_list s' = conn_list s"
proof -
  obtain c where c: "conn_heap s p = Some c" "s' = s\<lparr>conn_heap := (conn_heap s)(p := Some (f c))\<rparr>"
    using assms(2) by (auto simp: update_conn_def)
  have "matched ((conn_heap s)(p := Some (f c))) (conn_list s) (pollfd_list s)"
  proof (rule matched_frame [of "conn_heap s"])
    show "matched (conn_heap s) (conn_list s) (pollfd_list s)"
      using assms(1) by (simp add: conns_ok_def)
  qed (use c(1) assms(3) [OF c(1)] in \<open>auto split: if_splits\<close>)
  then show "conns_ok s'" "conn_list s' = conn_list s"
    using assms(1) c(2) by (simp_all add: conns_ok_def conn_list_def pollfd_list_def)
qed

section \<open>Several removals in one pass\<close>

lemma remove_conns_step:
  assumes "array_inv rs" "i < a_count rs"
  shows "remove_conns_from rs i s =
    Option.bind (remove_conn_at (array_list rs ! i) s) (remove_conns_from rs (Suc i))"
  by (subst remove_conns_from.simps) (simp add: assms array_item_val [OF assms])

fun remove_conns :: "nat list \<Rightarrow> mbox \<Rightarrow> mbox option" where
  "remove_conns [] s = Some s"
| "remove_conns (i # is) s = Option.bind (remove_conn_at i s) (remove_conns is)"

lemma remove_conns_from_run:
  assumes "array_inv rs" "i \<le> a_count rs"
  shows "remove_conns_from rs i s = remove_conns (drop i (array_list rs)) s"
  using assms(2)
proof (induction "a_count rs - i" arbitrary: i s)
  case 0
  then show ?case
    using length_array_list [OF assms(1)] by (subst remove_conns_from.simps) simp
next
  case (Suc n)
  then have i: "i < a_count rs" by simp
  have "drop i (array_list rs) = array_list rs ! i # drop (Suc i) (array_list rs)"
    using i length_array_list [OF assms(1)] by (simp add: Cons_nth_drop_Suc)
  moreover have "remove_conns_from rs (Suc i) = remove_conns (drop (Suc i) (array_list rs))"
    using Suc by (intro ext) simp
  ultimately show ?case by (simp add: remove_conns_step [OF assms(1) i])
qed

text \<open>
  When the indices come in descending order, each pass takes out the connection that had that
  index at the start: a fill moves only the last connection, which is at or beyond the index.
\<close>

lemma butlast_fill_mset:
  "i < length xs \<Longrightarrow> mset (butlast (xs[i := last xs])) = mset xs - {#xs ! i#}"
  using butlast_update_mset [of i xs] by (metis add_mset_remove_trivial)

lemma remove_conns_descending:
  assumes "conns_ok s" "sorted_wrt (>) is" "\<forall>i \<in> set is. i < a_count (conns s)"
  shows "\<exists>s'. remove_conns is s = Some s' \<and> conns_ok s' \<and> removals s' = removals s \<and>
    mset (conn_list s') = mset (conn_list s) - mset (map ((!) (conn_list s)) is)"
  using assms
proof (induction "is" arbitrary: s)
  case (Cons i "is")
  note ok = conns_okD [OF Cons.prems(1)]
  have i: "i < a_count (conns s)" using Cons.prems(3) by simp
  let ?L = "conn_list s"
  from remove_conn_at_facts [OF Cons.prems(1) i] obtain a b h where
    r: "remove_conn_at i s = Some (s\<lparr>conns := a, poll_fds := b, conn_heap := h\<rparr>)"
      "conns_ok (s\<lparr>conns := a, poll_fds := b, conn_heap := h\<rparr>)"
      "array_list a = butlast (?L[i := last ?L])" "a_count a = a_count (conns s) - 1" by blast
  let ?s = "s\<lparr>conns := a, poll_fds := b, conn_heap := h\<rparr>"
  have lt: "\<forall>j \<in> set is. j < i" using Cons.prems(2) by auto
  have "\<forall>j \<in> set is. j < a_count (conns ?s)" using lt i r(4) by fastforce
  from Cons.IH [OF r(2) _ this] Cons.prems(2) obtain s' where
    s': "remove_conns is ?s = Some s'" "conns_ok s'" "removals s' = removals s"
      "mset (conn_list s') = mset (conn_list ?s) - mset (map ((!) (conn_list ?s)) is)" by auto
  have L: "conn_list ?s = butlast (?L[i := last ?L])" using r(3) by (simp add: conn_list_def)
  have same: "map ((!) (conn_list ?s)) is = map ((!) ?L) is"
    unfolding L using lt i ok(3) by (fastforce simp: nth_butlast intro: map_cong)
  have less: "mset (conn_list ?s) = mset ?L - {#?L ! i#}"
    unfolding L using i ok(3) by (simp add: butlast_fill_mset)
  have "mset (conn_list s') = mset ?L - mset (map ((!) ?L) (i # is))"
    unfolding s'(4) same less by simp
  then show ?case using r(1) s'(1-3) by simp
qed simp

end
