(* ===== verification/Invariant.thy ===== *)
theory Invariant
  imports Conns
begin

text \<open>
  The invariant \<open>lib_ok\<close> of the whole state, which no input from the network and no answer of the
  operating system can break: the arrays are well formed, \<open>conns\<close> and \<open>poll_fds\<close> have the same
  length, the status map is well formed with a live map of reply contexts in every status, and the
  name \<open>next_id\<close> is fresh. The rules of the collection \<open>keeps\<close> carry it over each operation.
\<close>

definition arrays_ok :: "mbox \<Rightarrow> bool" where
  "arrays_ok s \<longleftrightarrow> array_inv (immediate_callbacks s) \<and> array_inv (conns s) \<and> array_inv (removals s) \<and>
     array_inv (poll_fds s) \<and> array_inv (timeouts s) \<and> a_count (poll_fds s) = a_count (conns s)"

definition heap_ok :: "mbox \<Rightarrow> bool" where
  "heap_ok s \<longleftrightarrow> 0 < next_id s \<and> dom (conn_heap s) \<subseteq> {..<next_id s} \<and>
     dom (status_heap s) \<subseteq> {..<next_id s} \<and> dom (buf_heap s) \<subseteq> {..<next_id s}"

definition lib_ok :: "mbox \<Rightarrow> bool" where
  "lib_ok s \<longleftrightarrow> init_done s \<and> arrays_ok s \<and> status_ok s \<and> heap_ok s"

lemma lib_okD:
  assumes "lib_ok s"
  shows "array_inv (immediate_callbacks s)" "array_inv (conns s)" "array_inv (removals s)"
    "array_inv (poll_fds s)" "array_inv (timeouts s)" "a_count (poll_fds s) = a_count (conns s)"
    "status_ok s" "heap_ok s" "init_done s"
  using assms by (simp_all add: lib_ok_def arrays_ok_def)

lemma heap_okD:
  assumes "heap_ok s" "next_id s \<le> p"
  shows "conn_heap s p = None" "status_heap s p = None" "buf_heap s p = None"
  using assms by (auto simp: heap_ok_def subset_iff domIff not_less)

lemma dom_upd_bound: "m p = Some x \<Longrightarrow> dom m \<subseteq> {..<n} \<Longrightarrow> dom (m(p := y)) \<subseteq> {..<n :: nat}"
  by (cases y) auto

lemma dom_upd_fresh: "dom m \<subseteq> {..<n} \<Longrightarrow> dom (m(n := y)) \<subseteq> {..<Suc n}"
  by (cases y) auto

lemma dom_Suc: "dom m \<subseteq> {..<n} \<Longrightarrow> dom m \<subseteq> {..<Suc n}"
  by auto

lemma heap_ok_upd:
  assumes "heap_ok s"
  shows "conn_heap s p = Some c \<Longrightarrow> heap_ok (s\<lparr>conn_heap := (conn_heap s)(p := x)\<rparr>)"
    "status_heap s q = Some st \<Longrightarrow> heap_ok (s\<lparr>status_heap := (status_heap s)(q := y)\<rparr>)"
    "buf_heap s b = Some buf \<Longrightarrow> heap_ok (s\<lparr>buf_heap := (buf_heap s)(b := z)\<rparr>)"
  using assms by (simp_all add: heap_ok_def dom_upd_bound del: dom_fun_upd)

lemma heap_ok_alloc:
  assumes "heap_ok s"
  shows "heap_ok (s\<lparr>conn_heap := (conn_heap s)(next_id s := x), next_id := Suc (next_id s)\<rparr>)"
    "heap_ok (s\<lparr>status_heap := (status_heap s)(next_id s := y), next_id := Suc (next_id s)\<rparr>)"
    "heap_ok (s\<lparr>buf_heap := (buf_heap s)(next_id s := z), next_id := Suc (next_id s)\<rparr>)"
  using assms by (simp_all add: heap_ok_def dom_upd_fresh dom_Suc del: dom_fun_upd)

lemma heap_ok_fields [simp]:
  "heap_ok (s\<lparr>init_done := x1\<rparr>) = heap_ok s"
  "heap_ok (s\<lparr>immediate_callbacks := x2\<rparr>) = heap_ok s"
  "heap_ok (s\<lparr>conns := x3\<rparr>) = heap_ok s"
  "heap_ok (s\<lparr>removals := x4\<rparr>) = heap_ok s"
  "heap_ok (s\<lparr>poll_fds := x5\<rparr>) = heap_ok s"
  "heap_ok (s\<lparr>timeouts := x6\<rparr>) = heap_ok s"
  "heap_ok (s\<lparr>conn_status := x7\<rparr>) = heap_ok s"
  "heap_ok (s\<lparr>last_errno := x9\<rparr>) = heap_ok s"
  "heap_ok (s\<lparr>clock := x10\<rparr>) = heap_ok s"
  "heap_ok (s\<lparr>trace := x11\<rparr>) = heap_ok s"
  by (simp_all add: heap_ok_def)

section \<open>Fields that the parts do not look at\<close>

lemma status_ok_fields [simp]:
  "status_ok (s\<lparr>init_done := x1\<rparr>) = status_ok s"
  "status_ok (s\<lparr>immediate_callbacks := x2\<rparr>) = status_ok s"
  "status_ok (s\<lparr>conns := x3\<rparr>) = status_ok s"
  "status_ok (s\<lparr>removals := x4\<rparr>) = status_ok s"
  "status_ok (s\<lparr>poll_fds := x5\<rparr>) = status_ok s"
  "status_ok (s\<lparr>timeouts := x6\<rparr>) = status_ok s"
  "status_ok (s\<lparr>conn_heap := x7\<rparr>) = status_ok s"
  "status_ok (s\<lparr>buf_heap := x8\<rparr>) = status_ok s"
  "status_ok (s\<lparr>last_errno := x9\<rparr>) = status_ok s"
  "status_ok (s\<lparr>clock := x10\<rparr>) = status_ok s"
  "status_ok (s\<lparr>trace := x11\<rparr>) = status_ok s"
  by (simp_all add: status_ok_def)

lemma status_ok_next_id: "status_ok s \<Longrightarrow> next_id s \<le> n \<Longrightarrow> status_ok (s\<lparr>next_id := n\<rparr>)"
  unfolding status_ok_def by simp (meson less_le_trans)

lemma lib_ok_fields [simp]:
  "lib_ok (s\<lparr>last_errno := x9\<rparr>) = lib_ok s"
  "lib_ok (s\<lparr>clock := x10\<rparr>) = lib_ok s"
  "lib_ok (s\<lparr>trace := x11\<rparr>) = lib_ok s"
  by (simp_all add: lib_ok_def arrays_ok_def heap_ok_def)

lemma lib_ok_only_io: "only_io s s' \<Longrightarrow> lib_ok s \<Longrightarrow> lib_ok s'"
  unfolding only_io_def by (metis lib_ok_fields)

text \<open>Initialisation establishes the invariant, from the state in which no array exists.\<close>

lemma lib_ok_init:
  assumes "heap_ok s" "init_done s \<Longrightarrow> lib_ok s"
  shows "lib_ok (init_if_needed s)"
proof (cases "init_done s")
  case False
  let ?t = "s\<lparr>immediate_callbacks := array__new 16, conns := array__new 8,
    removals := array__new 8, timeouts := array__new 8, poll_fds := array__new 8\<rparr>"
  have "init_if_needed s = ?t\<lparr>conn_status := new_conn_status_map, init_done := True\<rparr>"
    using False by (simp add: init_if_needed_def init_poll_fds_def)
  then show ?thesis
    using assms(1) status_ok_new [of ?t] by (simp add: lib_ok_def arrays_ok_def array_invs)
qed (simp add: init_if_needed_def assms)

lemma init_if_needed_id [simp]: "lib_ok s \<Longrightarrow> init_if_needed s = s"
  by (simp add: init_if_needed_def lib_ok_def)

lemma heap_ok_initial: "heap_ok initial_mbox"
  by (simp add: heap_ok_def initial_mbox_def)

lemma lib_ok_initial: "lib_ok (init_if_needed initial_mbox)"
  by (rule lib_ok_init [OF heap_ok_initial]) (simp add: initial_mbox_def)

section \<open>Primitives\<close>

lemma syscall_keeps [keeps]: "syscall call answer s = (r, s') \<Longrightarrow> lib_ok s \<Longrightarrow> lib_ok s'"
  using lib_ok_only_io [OF only_io_syscall] by (metis snd_conv)

lemma closesocket_keeps [keeps]: "closesocket os sock s = (r, s') \<Longrightarrow> lib_ok s \<Longrightarrow> lib_ok s'"
  unfolding closesocket_def by (rule syscall_keeps)

lemma now_keeps [keeps]: "now os s = (t, s') \<Longrightarrow> lib_ok s \<Longrightarrow> lib_ok s'"
  by (auto simp: now_def)

lemma make_non_blocking_io: "only_io s (snd (make_non_blocking os sock s))"
  by (auto simp: make_non_blocking_def syscall_def Let_def only_io_iff split: sysret.split)

lemma make_non_blocking_keeps [keeps]:
  "make_non_blocking os sock s = (r, s') \<Longrightarrow> lib_ok s \<Longrightarrow> lib_ok s'"
  using lib_ok_only_io [OF make_non_blocking_io] by (metis snd_conv)

lemma update_conn_keeps [keeps]: "update_conn p f s = Some s' \<Longrightarrow> lib_ok s \<Longrightarrow> lib_ok s'"
  by (auto simp: update_conn_def lib_ok_def arrays_ok_def heap_ok_upd)

lemma update_buffer_keeps [keeps]: "update_buffer p f s = Some s' \<Longrightarrow> lib_ok s \<Longrightarrow> lib_ok s'"
  by (auto simp: update_buffer_def lib_ok_def arrays_ok_def heap_ok_upd)

lemma free_ptr_keeps [keeps]: "free_ptr p s = Some s' \<Longrightarrow> lib_ok s \<Longrightarrow> lib_ok s'"
  by (auto simp: free_ptr_def lib_ok_def arrays_ok_def heap_ok_upd
      split: heap_ptr.splits if_splits)

lemma msg_delete_data_keeps [keeps]: "msg_delete_data d s = Some s' \<Longrightarrow> lib_ok s \<Longrightarrow> lib_ok s'"
  by (auto simp: msg_delete_data_def dest: free_ptr_keeps)

lemma update_status_ok:
  assumes "update_status p f s = Some s'" "lib_ok s"
    "\<And>st. status_heap s p = Some st \<Longrightarrow> st_remote_address (f st) = st_remote_address st \<and>
       (\<forall>m. reply_contexts st = Some m \<longrightarrow> map_inv reply_keys m \<longrightarrow>
          (\<exists>m'. reply_contexts (f st) = Some m' \<and> map_inv reply_keys m'))"
  shows "lib_ok s'"
proof -
  obtain st where st: "status_heap s p = Some st" "s' = s\<lparr>status_heap := (status_heap s)(p := Some (f st))\<rparr>"
    using assms(1) by (auto simp: update_status_def)
  note ok = lib_okD(7) [OF assms(2)]
  have entry: "\<exists>st' m. status_heap s' q = Some st' \<and> st_remote_address st' = a \<and>
      reply_contexts st' = Some m \<and> map_inv reply_keys m"
    if "map_lookup (conn_status s) a = Some q" for a q
  proof -
    from ok that obtain st1 m where st1: "status_heap s q = Some st1" "st_remote_address st1 = a"
      "reply_contexts st1 = Some m" "map_inv reply_keys m" by (rule status_ok_lookup)
    show ?thesis using st1 assms(3) [OF st(1)] st by (cases "q = p") auto
  qed
  have "status_ok s'"
    using ok entry by (simp add: status_ok_def st(2))
  then show ?thesis
    using assms(2) st by (auto simp: lib_ok_def arrays_ok_def heap_ok_upd)
qed

lemma update_status_keeps [keeps]:
  "update_status p (\<lambda>st. st\<lparr>st_conn_context := x\<rparr>) s = Some s' \<Longrightarrow> lib_ok s \<Longrightarrow> lib_ok s'"
  "update_status p (\<lambda>st. st\<lparr>total_buffer := d, waiting_buffer := e\<rparr>) s = Some s' \<Longrightarrow> lib_ok s \<Longrightarrow> lib_ok s'"
  "update_status p (\<lambda>st. st\<lparr>waiting_buffer := e\<rparr>) s = Some s' \<Longrightarrow> lib_ok s \<Longrightarrow> lib_ok s'"
  "update_status p (\<lambda>st. st\<lparr>next_reply_id := next_reply_id st + 1\<rparr>) s = Some s' \<Longrightarrow> lib_ok s \<Longrightarrow> lib_ok s'"
  by (erule (1) update_status_ok; simp)+

lemma msg_new_data_space_keeps [keeps]:
  "msg_new_data_space os n s = (d, s') \<Longrightarrow> lib_ok s \<Longrightarrow> lib_ok s'"
  by (auto simp: msg_new_data_space_def Let_def lib_ok_def arrays_ok_def heap_ok_alloc
      intro!: status_ok_next_id)

lemma new_connection_keeps [keeps]: "new_connection ctx cb s = (p, s') \<Longrightarrow> lib_ok s \<Longrightarrow> lib_ok s'"
  by (auto simp: new_connection_def Let_def lib_ok_def arrays_ok_def heap_ok_alloc
      intro!: status_ok_next_id)

lemma msg_new_data_keeps [keeps]: "msg_new_data os str s = Some (d, s') \<Longrightarrow> lib_ok s \<Longrightarrow> lib_ok s'"
  by (auto simp: msg_new_data_def split: prod.splits dest: keeps)

lemma send_callback_keeps [simp]: "lib_ok s \<Longrightarrow> lib_ok (send_callback conn ev d free s)"
  by (auto simp: send_callback_def lib_ok_def arrays_ok_def heap_ok_def array_invs)

lemma send_callback_error_keeps [keeps]:
  "send_callback_error os conn msg free s = Some s' \<Longrightarrow> lib_ok s \<Longrightarrow> lib_ok s'"
  by (auto simp: send_callback_error_def split: prod.splits dest: keeps)

lemma send_callback_os_error_keeps [keeps]:
  "send_callback_os_error os conn msg free s = Some s' \<Longrightarrow> lib_ok s \<Longrightarrow> lib_ok s'"
  by (auto simp: send_callback_os_error_def dest: keeps)

lemma error_state_keeps [simp]: "lib_ok s \<Longrightarrow> lib_ok (error_state os conn msg free s)"
  using send_callback_error_keeps [OF send_callback_error_eq] .

lemma lib_ok_removals [simp]: "array_inv a \<Longrightarrow> lib_ok s \<Longrightarrow> lib_ok (s\<lparr>removals := a\<rparr>)"
  by (simp add: lib_ok_def arrays_ok_def heap_ok_def)

lemma lib_ok_timeouts [simp]: "array_inv a \<Longrightarrow> lib_ok s \<Longrightarrow> lib_ok (s\<lparr>timeouts := a\<rparr>)"
  by (simp add: lib_ok_def arrays_ok_def heap_ok_def)

lemma lib_ok_callbacks [simp]: "array_inv a \<Longrightarrow> lib_ok s \<Longrightarrow> lib_ok (s\<lparr>immediate_callbacks := a\<rparr>)"
  by (simp add: lib_ok_def arrays_ok_def heap_ok_def)

lemma lib_ok_add_conn [simp]:
  "lib_ok s \<Longrightarrow> lib_ok (add_to_poll_fds sock mode (s\<lparr>conns := array__add_item_ptr (conns s) p\<rparr>))"
  by (simp add: add_to_poll_fds_def lib_ok_def arrays_ok_def heap_ok_def array_invs)

section \<open>Statuses, timeouts and connections\<close>

lemma conn_status_unset_keeps [keeps]:
  assumes "conn_status_unset a s = Some s'" "lib_ok s"
  shows "lib_ok s'"
proof -
  from conn_status_unset_facts [OF lib_okD(7) [OF assms(2)], of a] assms(1) obtain m f where
    s': "s' = s\<lparr>conn_status := m, status_heap := f\<rparr>" "status_ok s'" and
    f: "\<forall>p. map_lookup (conn_status s) a \<noteq> Some p \<longrightarrow> f p = status_heap s p"
      "\<forall>p. map_lookup (conn_status s) a = Some p \<longrightarrow>
        f p = map_option (\<lambda>st. st\<lparr>reply_contexts := None\<rparr>) (status_heap s p)" by auto
  have "f p \<noteq> None \<Longrightarrow> status_heap s p \<noteq> None" for p
    using f by (cases "map_lookup (conn_status s) a = Some p") auto
  then have "dom f \<subseteq> {..<next_id s}" using lib_okD(8) [OF assms(2)] unfolding heap_ok_def by blast
  then show ?thesis
    using assms(2) s' by (simp add: lib_ok_def arrays_ok_def heap_ok_def)
qed

lemma reply_context_set_keeps [keeps]:
  assumes "reply_context_set p r ctx s = Some s'" "lib_ok s"
  shows "lib_ok s'"
proof -
  from assms(1) obtain st m m' where st: "status_heap s p = Some st" "reply_contexts st = Some m"
    "map__set m (reply_id_key r) ctx = Some m'"
    "update_status p (\<lambda>st. st\<lparr>reply_contexts := Some m'\<rparr>) s = Some s'"
    by (auto simp: reply_context_set_def)
  have "map_inv reply_keys m'" if "map_inv reply_keys m"
    using cmap.put_lookup [OF that reply_key_in, of r ctx] st(3) by auto
  then show ?thesis using st(1,2) by (intro update_status_ok [OF st(4) assms(2)]) auto
qed

lemma reply_context_unset_keeps [keeps]:
  assumes "reply_context_unset p r s = Some s'" "lib_ok s"
  shows "lib_ok s'"
proof -
  from assms(1) obtain st m m' where st: "status_heap s p = Some st" "reply_contexts st = Some m"
    "map__unset m (reply_id_key r) = Some m'"
    "update_status p (\<lambda>st. st\<lparr>reply_contexts := Some m'\<rparr>) s = Some s'"
    by (auto simp: reply_context_unset_def)
  have "map_inv reply_keys m'" if "map_inv reply_keys m"
    using cmap.unset_lookup [OF that reply_key_in, of r] st(3) by auto
  then show ?thesis using st(1,2) by (intro update_status_ok [OF st(4) assms(2)]) auto
qed

lemma add_timeout_keeps [simp]: "lib_ok s \<Longrightarrow> lib_ok (add_timeout os conn p r s)"
  by (auto simp: add_timeout_def now_def lib_okD array_invs)

lemma remove_timeout_keeps [keeps]:
  assumes "remove_timeout p r s = Some s'" "lib_ok s"
  shows "lib_ok s'"
  using remove_timeout_facts [OF lib_okD(5) [OF assms(2)], of p r] assms by auto

lemma new_conn_status_buffer_keeps [keeps]:
  "new_conn_status_buffer os p h s = Some s' \<Longrightarrow> lib_ok s \<Longrightarrow> lib_ok s'"
  by (auto simp: new_conn_status_buffer_def split: prod.splits dest: keeps)

lemma delete_conn_status_buffer_keeps [keeps]:
  "delete_conn_status_buffer p s = Some s' \<Longrightarrow> lib_ok s \<Longrightarrow> lib_ok s'"
  by (auto simp: delete_conn_status_buffer_def dest: keeps)

lemma local_disconnect_keeps [keeps]:
  assumes "local_disconnect os conn ev s = Some s'" "lib_ok s"
  shows "lib_ok s'"
proof -
  obtain c s1 where c: "conn_heap s conn = Some c" "conn_status_unset (address_of_conn c) s = Some s1"
    using assms(1) by (auto simp: local_disconnect_def)
  have ok: "lib_ok s1" using c(2) assms(2) by (rule conn_status_unset_keeps)
  define s2 where "s2 = send_callback conn ev msg_no_data (Some (ConnPtr conn)) s1"
  obtain r s3 where s3: "closesocket os (socket c) s2 = (r, s3)" by fastforce
  have "lib_ok s3" using closesocket_keeps [OF s3] ok by (simp add: s2_def)
  then show ?thesis
    using assms(1) c ok s3 unfolding s2_def
    by (cases "for_listening c \<and> protocol_type c = msg_udp")
      (auto simp: local_disconnect_def Let_def array_invs lib_okD)
qed

section \<open>Sending\<close>

lemma set_header_keeps [keeps]: "set_header d t r n s = Some s' \<Longrightarrow> lib_ok s \<Longrightarrow> lib_ok s'"
  by (auto simp: set_header_def dest: keeps)

lemma send_data_io:
  assumes "send_data os conn d s = Some (r, s')"
  shows "only_io s s'"
proof -
  obtain c where c: "conn_heap s conn = Some c" using assms by (auto simp: send_data_def)
  show ?thesis
  proof (cases "protocol_type c = msg_tcp")
    case True
    then obtain out k where "send_loop os (socket c) out s = Some (k, s')"
      using assms c by (auto simp: send_data_def send_all_def)
    from send_loop_prefix [OF this] show ?thesis by (simp add: sends_prefix_def)
  next
    case False
    then show ?thesis
      using assms c only_io_send [of s os] only_io_sendto [of s os]
      by (auto simp: send_data_def Let_def split: prod.splits if_splits) (metis snd_conv)+
  qed
qed

lemma send_data_keeps [keeps]: "send_data os conn d s = Some (r, s') \<Longrightarrow> lib_ok s \<Longrightarrow> lib_ok s'"
  using lib_ok_only_io [OF send_data_io] by blast

section \<open>The arrays of connections\<close>

lemma remove_and_fill_inv:
  assumes "array__remove_and_fill a i = Some b" "array_inv a"
  shows "array_inv b" "a_count b = a_count a - 1"
proof -
  have lt: "0 < a_count a" "i < length (items a)" using assms(1)
    by (auto simp: array__remove_and_fill_def)
  show "a_count b = a_count a - 1" using assms(1)
    by (auto simp: array__remove_and_fill_def Let_def split: if_splits)
  show "array_inv b"
  proof (cases "i < a_count a")
    case True
    from array_remove_and_fill_facts [OF assms(2) True] assms(1) show ?thesis by auto
  next
    case False
    then have "take (a_count a - 1) (items b) = take (a_count a - 1) (items a)"
      using assms(1) by (auto simp: array__remove_and_fill_def Let_def split: if_splits)
    moreover have "set (take (a_count a - 1) (items a)) \<subseteq> set (take (a_count a) (items a))"
      by (rule set_take_subset_set_take) simp
    moreover have "capacity b = capacity a" "length (items b) = length (items a)" "a_count b = a_count a - 1"
      using assms(1) by (auto simp: array__remove_and_fill_def Let_def split: if_splits)
    ultimately show ?thesis using assms(2) by (auto simp: array_inv_def)
  qed
qed

lemma remove_conn_at_keeps [keeps]:
  assumes "remove_conn_at i s = Some s'" "lib_ok s"
  shows "lib_ok s'"
proof -
  obtain a where a: "array__remove_and_fill (conns s) i = Some a"
    using assms(1) by (auto simp: remove_conn_at_def)
  note ok = lib_okD [OF assms(2)]
  obtain h b where s': "s' = s\<lparr>conns := a, conn_heap := h, poll_fds := b\<rparr>"
    and h: "heap_ok (s\<lparr>conn_heap := h\<rparr>)" and b: "array__remove_and_fill (poll_fds s) i = Some b"
  proof (cases "i < a_count a")
    case True
    with assms(1) a ok(8) that show ?thesis
      by (auto simp: remove_conn_at_def remove_from_poll_fds_def update_conn_def Let_def heap_ok_upd)
  next
    case False
    with assms(1) a ok(8) that [where h = "conn_heap s"] show ?thesis
      by (auto simp: remove_conn_at_def remove_from_poll_fds_def Let_def)
  qed
  have "heap_ok s'" using h by (simp add: s' heap_ok_def)
  then show ?thesis
    using ok remove_and_fill_inv [OF a ok(2)] remove_and_fill_inv [OF b ok(4)]
    by (simp add: s' lib_ok_def arrays_ok_def)
qed

lemma remove_conns_keeps: "remove_conns is s = Some s' \<Longrightarrow> lib_ok s \<Longrightarrow> lib_ok s'"
  by (induction "is" arbitrary: s) (auto dest: remove_conn_at_keeps)

lemma process_removals_keeps [keeps]:
  assumes "process_removals s = Some s'" "lib_ok s"
  shows "lib_ok s'"
proof -
  obtain t where t: "remove_conns (array_list (removals s)) s = Some t"
    "s' = t\<lparr>removals := array__clear (removals t)\<rparr>"
    using assms remove_conns_from_run [of "removals s" 0 s] by (auto simp: process_removals_def lib_okD)
  then show ?thesis using remove_conns_keeps [OF t(1) assms(2)] by (simp add: lib_okD array_invs)
qed

lemma remove_last_polling_conn_keeps [keeps]:
  assumes "remove_last_polling_conn s = Some s'" "lib_ok s"
  shows "lib_ok s'"
proof -
  note ok = lib_okD [OF assms(2)]
  have "0 < a_count (conns s)" using assms(1)
    by (auto simp: remove_last_polling_conn_def array__remove_last_def)
  with array_remove_last_facts [OF ok(2)] array_remove_last_facts [OF ok(4)] ok assms show ?thesis
    by (fastforce simp: remove_last_polling_conn_def lib_ok_def arrays_ok_def)
qed

lemma array_item_set_inv:
  assumes "array__item_set a i x = Some b" "array_inv a"
  shows "array_inv b" "a_count b = a_count a"
proof -
  have b: "b = a\<lparr>items := (items a)[i := Some x]\<rparr>"
    using assms(1) by (auto simp: array__item_set_def split: if_splits)
  show "a_count b = a_count a" by (simp add: b)
  have "set (take (a_count a) ((items a)[i := Some x])) \<subseteq> insert (Some x) (set (take (a_count a) (items a)))"
    by (simp add: take_update_swap set_update_subset_insert)
  then show "array_inv b" using assms(2) by (auto simp: b array_inv_def)
qed

lemma set_conn_to_poll_mode_keeps [keeps]:
  "set_conn_to_poll_mode i m s = Some s' \<Longrightarrow> lib_ok s \<Longrightarrow> lib_ok s'"
  by (auto simp: set_conn_to_poll_mode_def lib_ok_def arrays_ok_def dest: array_item_set_inv)

lemma length_set_revents [simp]: "length (set_revents rs ps) = length ps"
  by (induction rs ps rule: set_revents.induct) auto

lemma check_poll_fds_keeps [keeps]:
  assumes "check_poll_fds os ms s = (r, s')" "lib_ok s"
  shows "lib_ok s'"
proof -
  let ?fds = "array_list (poll_fds s)"
  obtain x t where t: "syscall (Sys_poll ?fds ms) (\<lambda>t. os_poll os t ?fds ms) s = (x, t)" by fastforce
  have ok: "lib_ok t" using t assms(2) by (rule syscall_keeps)
  have p: "poll_fds t = poll_fds s"
    using only_io_fields(5) [OF only_io_syscall, of "Sys_poll ?fds ms" "\<lambda>t. os_poll os t ?fds ms" s] t by simp
  have len: "length ?fds = a_count (poll_fds s)"
    by (rule length_array_list) (rule lib_okD [OF assms(2)])
  have inv: "array_inv (poll_fds s\<lparr>items := map Some ps @ drop (length ?fds) (items (poll_fds s))\<rparr>)"
    if "length ps = length ?fds" for ps
    using lib_okD(4) [OF assms(2)] that len by (auto simp: array_inv_def)
  show ?thesis
  proof (cases x)
    case None
    then show ?thesis using assms(1) t ok by (auto simp: check_poll_fds_def Let_def)
  next
    case (Some y)
    with assms(1) t p obtain rs where
      "s' = t\<lparr>poll_fds := (poll_fds s)\<lparr>items := map Some (set_revents rs ?fds) @ drop (length ?fds) (items (poll_fds s))\<rparr>\<rparr>"
      by (cases y) (auto simp: check_poll_fds_def Let_def)
    with inv [of "set_revents rs ?fds"] ok p show ?thesis by (simp add: lib_ok_def arrays_ok_def)
  qed
qed

section \<open>Views of the state\<close>

lemma only_io_views:
  assumes "only_io s s'"
  shows "conn_list s' = conn_list s" "pollfd_list s' = pollfd_list s" "pending s' = pending s"
    "conns_ok s' = conns_ok s" "lib_ok s \<Longrightarrow> lib_ok s'" "conn_heap s' = conn_heap s"
    "conn_status s' = conn_status s" "conns s' = conns s"
  using assms lib_ok_only_io
  by (auto simp: only_io_iff conn_list_def pollfd_list_def pending_def conns_ok_def)

lemma views_conn_heap [simp]:
  "conn_list (s\<lparr>conn_heap := h\<rparr>) = conn_list s" "pending (s\<lparr>conn_heap := h\<rparr>) = pending s"
  by (simp_all add: conn_list_def pending_def)

end
