(* ===== verification/Reading.thy ===== *)
theory Reading
  imports Invariant
begin

text \<open>
  The reading side of msgbox.c: \<open>read_header\<close>, \<open>remote_address_seen\<close>, \<open>continue_recv\<close> and
  \<open>read_from_socket\<close>, with the part of each transport as a definition of its own.

  The bytes of a system call are written into the buffer that the call is given. A call that
  writes past it, and every read of a variable that the code has not set, has no result.
\<close>

section \<open>System calls and memory\<close>

definition sys_recv :: "os \<Rightarrow> int \<Rightarrow> nat \<Rightarrow> bool \<Rightarrow> mbox \<Rightarrow> bytes option \<times> mbox" where
  "sys_recv os sock n peek = syscall (Sys_recv sock n peek) (\<lambda>t. os_recv os t sock n peek)"

definition sys_recvfrom :: "os \<Rightarrow> int \<Rightarrow> nat \<Rightarrow> mbox \<Rightarrow> (bytes \<times> sockaddr_in) option \<times> mbox" where
  "sys_recvfrom os sock n = syscall (Sys_recvfrom sock n) (\<lambda>t. os_recvfrom os t sock n)"

text \<open>Writing at an offset of a memory block, and of the message part of a buffer.\<close>

definition overwrite :: "'b list \<Rightarrow> nat \<Rightarrow> 'b list \<Rightarrow> 'b list" where
  "overwrite mem off bs = take off mem @ bs @ drop (off + length bs) mem"

definition write_body :: "buf_id \<Rightarrow> nat \<Rightarrow> bytes \<Rightarrow> mbox \<Rightarrow> mbox option" where
  "write_body b off bs s = do {
     buf \<leftarrow> buf_heap s b;
     req (off + length bs \<le> length (b_body buf));
     update_buffer b (\<lambda>buf. buf\<lparr>b_body := overwrite (b_body buf) off bs\<rparr>) s
   }"

text \<open>Writing from \<open>data.bytes - header_len\<close> on: the header first, then the message.\<close>

definition write_packet :: "buf_id \<Rightarrow> bytes \<Rightarrow> mbox \<Rightarrow> mbox option" where
  "write_packet b bs s = do {
     buf \<leftarrow> buf_heap s b;
     let hdr = overwrite (header_bytes (md_header (b_meta buf))) 0 (take header_len bs);
     s \<leftarrow> update_buffer b (\<lambda>buf. buf\<lparr>b_meta := (b_meta buf)\<lparr>md_header := header_of_bytes hdr\<rparr>\<rparr>) s;
     write_body b 0 (drop header_len bs) s
   }"

section \<open>Reading a header\<close>

definition read_header :: "os \<Rightarrow> int \<Rightarrow> conn_ptr \<Rightarrow> mbox \<Rightarrow> (Header option \<times> mbox) option" where
  "read_header os sock conn s = do {
     let (got, s) = sys_recv os sock header_len True s;
     case got of
       None \<Rightarrow>
         if get_errno s = ECONNRESET then do {
           s \<leftarrow> local_disconnect os conn msg_connection_lost s;
           Some (None, s)
         } else if get_errno s = EWOULDBLOCK then Some (None, s)
         else do {
           s \<leftarrow> send_callback_os_error os conn ''recv'' None s;
           Some (None, s)
         }
     | Some peeked \<Rightarrow>
         if 0 < length peeked \<and> length peeked < header_len then Some (None, s)
         else if peeked = [] then do {
           s \<leftarrow> local_disconnect os conn msg_connection_lost s;
           Some (None, s)
         } else do {
           req (length peeked = header_len);
           c \<leftarrow> conn_heap s conn;
           (mem, s) \<leftarrow>
             (if protocol_type c = msg_tcp then do {
                let (got, s) = sys_recv os sock header_len False s;
                let bs = (case got of Some bs \<Rightarrow> bs | None \<Rightarrow> []);
                req (length bs \<le> header_len);
                Some (overwrite peeked 0 bs, s)
              } else Some (peeked, s));
           let header = host_header (header_of_bytes mem);
           s \<leftarrow> update_conn conn (\<lambda>c. c\<lparr>reply_id := hdr_reply_id header\<rparr>) s;
           Some (Some header, s)
         }
   }"

section \<open>A remote address is seen\<close>

definition remote_address_seen :: "os \<Rightarrow> conn_ptr \<Rightarrow> mbox \<Rightarrow> (status_ptr \<times> mbox) option" where
  "remote_address_seen os conn s = do {
     status \<leftarrow> status_of_conn conn s;
     case status of
       Some p \<Rightarrow> Some (p, s)
     | None \<Rightarrow> do {
         c \<leftarrow> conn_heap s conn;
         let (p, s) = new_conn_status 0 (address_of_conn c) s;
         s \<leftarrow> update_status p (\<lambda>st. st\<lparr>st_conn_context := conn_context c\<rparr>) s;
         let address = address_of_conn c;
         s \<leftarrow> conn_status_set address p s;
         let (d, s) = msg_new_data_space os 0 s;
         b \<leftarrow> buffer_of d;
         s \<leftarrow> update_buffer b (\<lambda>buf. buf\<lparr>b_meta := (b_meta buf)\<lparr>md_remote_address := address\<rparr>\<rparr>) s;
         Some (p, send_callback conn msg_connection_ready d None s)
       }
   }"

section \<open>Receiving the body of a tcp message\<close>

text \<open>The result is 1 (true), 0 (false), -1 or -2, as in the code.\<close>

definition continue_recv :: "os \<Rightarrow> conn_ptr \<Rightarrow> status_ptr \<Rightarrow> mbox \<Rightarrow> (int \<times> mbox) option" where
  "continue_recv os conn status s = do {
     c \<leftarrow> conn_heap s conn;
     st \<leftarrow> status_heap s status;
     let buffer = waiting_buffer st;
     let (got, s) = sys_recv os (socket c) (num_bytes buffer) False s;
     case got of
       None \<Rightarrow>
         if get_errno s = ECONNRESET then do {
           s \<leftarrow> local_disconnect os conn msg_connection_lost s;
           Some (- 2, s)
         } else if get_errno s = EWOULDBLOCK then Some (0, s)
         else Some (- 1, s)
     | Some bs \<Rightarrow>
         if bs = [] then do {
           s \<leftarrow> local_disconnect os conn msg_connection_lost s;
           Some (- 2, s)
         } else do {
           (b, off) \<leftarrow> data_bytes buffer;
           req (length bs \<le> num_bytes buffer);
           s \<leftarrow> write_body b off bs s;
           let left = num_bytes buffer - length bs;
           s \<leftarrow> update_status status (\<lambda>st. st\<lparr>waiting_buffer :=
                 \<lparr>num_bytes = left, data_bytes = Some (b, off + length bs)\<rparr>\<rparr>) s;
           Some (if left = 0 then 1 else 0, s)
         }
   }"

section \<open>Accepting a connection\<close>

definition sys_accept :: "os \<Rightarrow> int \<Rightarrow> mbox \<Rightarrow> (int \<times> sockaddr_in) option \<times> mbox" where
  "sys_accept os sock = syscall (Sys_accept sock) (\<lambda>t. os_accept os t sock)"

definition accept_connection :: "os \<Rightarrow> conn_ptr \<Rightarrow> mbox \<Rightarrow> mbox option" where
  "accept_connection os conn s = do {
     c \<leftarrow> conn_heap s conn;
     let (accepted, s) = sys_accept os (socket c) s;
     case accepted of
       None \<Rightarrow>
         if get_errno s = EWOULDBLOCK then Some s
         else send_callback_os_error os conn ''accept'' None s
     | Some (new_sock, remote_addr) \<Rightarrow>
         if avoid_sigpipe new_sock \<noteq> 0 then send_callback_os_error os conn ''setsockopt'' None s
         else do {
           let (failing_fn, s) = make_non_blocking os new_sock s;
           case failing_fn of
             Some f \<Rightarrow> send_callback_os_error os conn f None s
           | None \<Rightarrow> do {
               let (p, s) = new_connection (conn_context c) (callback c) s;
               s \<leftarrow> update_conn p (\<lambda>n. n\<lparr>socket := new_sock, remote_ip := sin_addr remote_addr,
                     remote_port := ntohs (sin_port remote_addr), protocol_type := protocol_type c,
                     index := a_count (conns s)\<rparr>) s;
               let s = s\<lparr>conns := array__add_item_ptr (conns s) p\<rparr>;
               let s = add_to_poll_fds new_sock poll_mode_read s;
               (_, s) \<leftarrow> remote_address_seen os p s;
               Some s
             }
         }
   }"

section \<open>Reading from a socket\<close>

text \<open>
  The tcp part: a complete message with its header and the status of its sender, or nothing when
  the function returns early.
\<close>

definition read_tcp ::
  "os \<Rightarrow> int \<Rightarrow> conn_ptr \<Rightarrow> mbox \<Rightarrow> ((Header \<times> status_ptr \<times> msg_Data) option \<times> mbox) option" where
  "read_tcp os sock conn s = do {
     (status, s) \<leftarrow> remote_address_seen os conn s;
     st \<leftarrow> status_heap s status;
     (header, s) \<leftarrow>
       (if num_bytes (waiting_buffer st) = 0 then do {
          (header, s) \<leftarrow> read_header os sock conn s;
          case header of
            None \<Rightarrow> Some (None, s)
          | Some h \<Rightarrow>
              if message_type h = msg_type_close then do {
                s \<leftarrow> local_disconnect os conn msg_connection_closed s;
                Some (None, s)
              } else do {
                s \<leftarrow> new_conn_status_buffer os status h s;
                Some (Some h, s)
              }
        } else do {
          b \<leftarrow> buffer_of (total_buffer st);
          buf \<leftarrow> buf_heap s b;
          Some (Some (md_header (b_meta buf)), s)
        });
     case header of
       None \<Rightarrow> Some (None, s)
     | Some h \<Rightarrow> do {
         (ret_val, s) \<leftarrow> continue_recv os conn status s;
         if ret_val = - 2 then Some (None, s)
         else if ret_val = - 1 then do {
           s \<leftarrow> send_callback_os_error os conn ''recv'' None s;
           s \<leftarrow> delete_conn_status_buffer status s;
           Some (None, s)
         } else if ret_val = 0 then Some (None, s)
         else do {
           st \<leftarrow> status_heap s status;
           s \<leftarrow> update_status status (\<lambda>st. st\<lparr>total_buffer := msg_no_data, waiting_buffer := msg_no_data\<rparr>) s;
           Some (Some (h, status, total_buffer st), s)
         }
       }
   }"

text \<open>
  The \<open>switch\<close> on the message type, \<open>msg_type_close\<close> apart. For \<open>msg_type_heartbeat\<close> and for the
  types that the protocol does not have, no case sets \<open>event\<close>.
\<close>

definition event_of_type :: "u16 \<Rightarrow> msg_Event option" where
  "event_of_type t =
     (if t = msg_type_one_way then Some msg_message
      else if t = msg_type_request then Some msg_request
      else if t = msg_type_reply then Some msg_reply
      else None)"

text \<open>The udp part: the datagram, and the status of the address that sent it.\<close>

definition read_udp ::
  "os \<Rightarrow> int \<Rightarrow> conn_ptr \<Rightarrow> Header \<Rightarrow> mbox \<Rightarrow> ((status_ptr \<times> msg_Data) option \<times> mbox) option" where
  "read_udp os sock conn header s = do {
     let (d, s) = msg_new_data_space os (unat (hdr_num_bytes header)) s;
     let (got, s) = sys_recvfrom os sock (num_bytes d + header_len) s;
     case got of
       None \<Rightarrow> do {
         s \<leftarrow> send_callback_os_error os conn ''recvfrom'' None s;
         Some (None, s)
       }
     | Some (bs, remote_sockaddr) \<Rightarrow> do {
         b \<leftarrow> buffer_of d;
         s \<leftarrow> write_packet b bs s;
         s \<leftarrow> update_conn conn (\<lambda>c. c\<lparr>remote_ip := sin_addr remote_sockaddr,
               remote_port := ntohs (sin_port remote_sockaddr)\<rparr>) s;
         (status, s) \<leftarrow> remote_address_seen os conn s;
         c \<leftarrow> conn_heap s conn;
         s \<leftarrow> update_buffer b (\<lambda>buf. buf\<lparr>b_meta := (b_meta buf)
               \<lparr>md_reply_context := null, md_remote_address := address_of_conn c\<rparr>\<rparr>) s;
         Some (Some (status, d), s)
       }
   }"

text \<open>
  The lookup of the reply context: \<open>None\<close> when the function returns after an unrecognised reply.
  The last argument of \<open>send_callback_error\<close> is the buffer of the message, freed after the call.
\<close>

definition match_reply ::
  "os \<Rightarrow> conn_ptr \<Rightarrow> Header \<Rightarrow> status_ptr \<Rightarrow> msg_Data \<Rightarrow> bool \<Rightarrow> mbox \<Rightarrow> (bool \<times> mbox) option" where
  "match_reply os conn header status d is_udp s =
     (if message_type header = msg_type_reply then do {
        ctx \<leftarrow> reply_context_get status (hdr_reply_id header) s;
        case ctx of
          None \<Rightarrow> do {
            b \<leftarrow> buffer_of d;
            s \<leftarrow> send_callback_error os conn ''Unrecognized reply_id'' (Some (BufPtr b)) s;
            Some (False, s)
          }
        | Some v \<Rightarrow> do {
            s \<leftarrow> remove_timeout status (hdr_reply_id header) s;
            s \<leftarrow> update_conn conn (\<lambda>c. c\<lparr>reply_context := v\<rparr>) s;
            s \<leftarrow> (if is_udp then do {
                     b \<leftarrow> buffer_of d;
                     update_buffer b (\<lambda>buf. buf\<lparr>b_meta := (b_meta buf)\<lparr>md_reply_context := v\<rparr>\<rparr>) s
                   } else Some s);
            s \<leftarrow> reply_context_unset status (hdr_reply_id header) s;
            s \<leftarrow> update_conn conn (\<lambda>c. c\<lparr>reply_id := 0\<rparr>) s;
            Some (True, s)
          }
      } else do {
        s \<leftarrow> update_conn conn (\<lambda>c. c\<lparr>reply_context := null\<rparr>) s;
        Some (True, s)
      })"

text \<open>
  What follows the reading of the header (udp) or of the message (tcp, with \<open>msg\<close> the status and
  the data). When the protocol is neither, \<open>status\<close> and \<open>data\<close> are unset.
\<close>

definition dispatch ::
  "os \<Rightarrow> int \<Rightarrow> conn_ptr \<Rightarrow> Header \<Rightarrow> (status_ptr \<times> msg_Data) option \<Rightarrow> mbox \<Rightarrow> (bool \<times> mbox) option" where
  "dispatch os sock conn header msg s = do {
     c \<leftarrow> conn_heap s conn;
     if message_type header = msg_type_close then do {
       s \<leftarrow> (if protocol_type c = msg_tcp then Option.bind msg (\<lambda>(_, d). msg_delete_data d s) else Some s);
       s \<leftarrow> local_disconnect os conn msg_connection_closed s;
       Some (False, s)
     } else do {
       let event = event_of_type (message_type header);
       s \<leftarrow> (if message_type header = msg_type_one_way
              then update_conn conn (\<lambda>c. c\<lparr>reply_id := 0\<rparr>) s else Some s);
       (msg, s) \<leftarrow>
         (if protocol_type c = msg_udp then do {
            (msg, s) \<leftarrow> read_udp os sock conn header s;
            Some (msg, s)
          } else do {
            m \<leftarrow> msg;
            Some (Some m, s)
          });
       case msg of
         None \<Rightarrow> Some (False, s)
       | Some (status, d) \<Rightarrow> do {
           (go, s) \<leftarrow> match_reply os conn header status d (protocol_type c = msg_udp) s;
           if go then do {
             ev \<leftarrow> event;
             Some (True, send_callback conn ev d None s)
           } else Some (False, s)
         }
     }
   }"

text \<open>The result is true when another message may be waiting in the socket.\<close>

definition read_from_socket :: "os \<Rightarrow> int \<Rightarrow> conn_ptr \<Rightarrow> mbox \<Rightarrow> (bool \<times> mbox) option" where
  "read_from_socket os sock conn s = do {
     c \<leftarrow> conn_heap s conn;
     if protocol_type c = msg_tcp then
       if for_listening c then do {
         s \<leftarrow> accept_connection os conn s;
         Some (False, s)
       } else do {
         (msg, s) \<leftarrow> read_tcp os sock conn s;
         case msg of
           None \<Rightarrow> Some (False, s)
         | Some (header, status, d) \<Rightarrow> dispatch os sock conn header (Some (status, d)) s
       }
     else do {
       (header, s) \<leftarrow> read_header os sock conn s;
       case header of
         None \<Rightarrow> Some (False, s)
       | Some h \<Rightarrow> dispatch os sock conn h None s
     }
   }"

text \<open>The loop of \<open>msg_runloop\<close> that reads all the messages that wait in a socket.\<close>

partial_function (option) read_loop :: "os \<Rightarrow> conn_ptr \<Rightarrow> mbox \<Rightarrow> mbox option" where
  "read_loop os conn s = do {
     c \<leftarrow> conn_heap s conn;
     (again, s) \<leftarrow> read_from_socket os (socket c) conn s;
     if again then read_loop os conn s else Some s
   }"

declare read_loop.simps [code]

section \<open>Seeing an address\<close>

text \<open>
  The state after a new address was seen: a status that owns an empty map of reply contexts is
  filed under the address, and \<open>msg_connection_ready\<close> is queued with a buffer that carries it.
\<close>

definition fresh_status :: "msg_Conn \<Rightarrow> ConnStatus" where
  "fresh_status c =
     \<lparr>last_seen_at = 0, reply_contexts = Some new_reply_contexts, st_conn_context = conn_context c,
      next_reply_id = 1, st_remote_address = address_of_conn c,
      total_buffer = msg_no_data, waiting_buffer = msg_no_data\<rparr>"

definition seen_state :: "os \<Rightarrow> conn_ptr \<Rightarrow> msg_Conn \<Rightarrow> (Address, status_ptr) cmap \<Rightarrow> mbox \<Rightarrow> mbox" where
  "seen_state os conn c m s =
     send_callback conn msg_connection_ready \<lparr>num_bytes = 0, data_bytes = Some (Suc (next_id s), 0)\<rparr> None
       (s\<lparr>status_heap := (status_heap s)(next_id s := Some (fresh_status c)), conn_status := m,
          next_id := Suc (Suc (next_id s)), clock := Suc (clock s), trace := trace s @ [Sys_malloc 0],
          buf_heap := (buf_heap s)(Suc (next_id s) :=
            Some \<lparr>b_meta = (os_malloc_meta os (clock s))\<lparr>md_remote_address := address_of_conn c\<rparr>, b_body = []\<rparr>)\<rparr>)"

lemma seen_state_frame [simp]:
  "init_done (seen_state os conn c m s) = init_done s"
  "conns (seen_state os conn c m s) = conns s"
  "removals (seen_state os conn c m s) = removals s"
  "poll_fds (seen_state os conn c m s) = poll_fds s"
  "timeouts (seen_state os conn c m s) = timeouts s"
  "conn_status (seen_state os conn c m s) = m"
  "conn_heap (seen_state os conn c m s) = conn_heap s"
  "status_heap (seen_state os conn c m s) = (status_heap s)(next_id s := Some (fresh_status c))"
  "next_id (seen_state os conn c m s) = Suc (Suc (next_id s))"
  "last_errno (seen_state os conn c m s) = last_errno s"
  by (simp_all add: seen_state_def)

lemma seen_state_buf_heap:
  "buf_heap (seen_state os conn c m s) = (buf_heap s)(Suc (next_id s) :=
     Some \<lparr>b_meta = (os_malloc_meta os (clock s))\<lparr>md_remote_address := address_of_conn c\<rparr>, b_body = []\<rparr>)"
  by (simp add: seen_state_def)

lemma seen_state_pending:
  "array_inv (immediate_callbacks s) \<Longrightarrow> pending (seen_state os conn c m s) =
     pending s @ [\<lparr>pc_conn = conn, pc_event = msg_connection_ready,
       pc_data = \<lparr>num_bytes = 0, data_bytes = Some (Suc (next_id s), 0)\<rparr>, to_free = None\<rparr>]"
  by (simp add: seen_state_def send_callback_pending) (simp add: pending_def)

lemma remote_address_known:
  assumes "status_ok s" "conn_heap s conn = Some c"
    "map_lookup (conn_status s) (address_of_conn c) = Some p"
  shows "remote_address_seen os conn s = Some (p, s)"
  using status_of_conn_eq [OF assms(1,2)] assms(3) by (simp add: remote_address_seen_def)

lemma remote_address_new:
  assumes "lib_ok s" "conn_heap s conn = Some c"
    "map_lookup (conn_status s) (address_of_conn c) = None"
  shows "\<exists>m. remote_address_seen os conn s = Some (next_id s, seen_state os conn c m s) \<and>
    map_lookup m = (map_lookup (conn_status s))(address_of_conn c \<mapsto> next_id s) \<and>
    lib_ok (seen_state os conn c m s)"
proof -
  note ok = lib_okD [OF assms(1)]
  let ?s1 = "s\<lparr>next_id := Suc (next_id s), status_heap := (status_heap s)(next_id s := Some (fresh_status c))\<rparr>"
  have none: "status_heap s (next_id s) = None" using heap_okD [OF ok(8)] by simp
  have s1: "status_ok ?s1"
    using ok(7) unfolding status_ok_def by (auto simp: less_SucI)
  have rm: "map_inv reply_keys (new_reply_contexts :: (vptr, vptr) cmap)" by (rule reply_map.new_inv)
  obtain m where m: "conn_status_set (address_of_conn c) (next_id s) ?s1 = Some (?s1\<lparr>conn_status := m\<rparr>)"
    "status_ok (?s1\<lparr>conn_status := m\<rparr>)"
    "map_lookup m = (map_lookup (conn_status s))(address_of_conn c \<mapsto> next_id s)"
    using conn_status_set_facts [OF s1, of "address_of_conn c" "next_id s" "fresh_status c" new_reply_contexts]
      assms(3) rm by (auto simp: fresh_status_def)
  have run: "remote_address_seen os conn s = Some (next_id s, seen_state os conn c m s)"
    using status_of_conn_eq [OF ok(7) assms(2)] assms(2,3) m(1)
    by (simp add: remote_address_seen_def new_conn_status_def Let_def update_status_def
        msg_new_data_space_def buffer_of_def update_buffer_def seen_state_def fresh_status_def)
  have "status_ok (?s1\<lparr>conn_status := m, next_id := Suc (Suc (next_id s))\<rparr>)"
    by (rule status_ok_next_id [OF m(2)]) simp
  then have "status_ok (seen_state os conn c m s)"
    by (simp add: status_ok_def)
  moreover have "heap_ok (seen_state os conn c m s)"
    using ok(8) dom_upd_fresh dom_Suc unfolding heap_ok_def seen_state_def send_callback_def
    by (auto simp: less_SucI)
  moreover have "arrays_ok (seen_state os conn c m s)"
    using ok by (simp add: arrays_ok_def) (simp add: seen_state_def send_callback_def array_invs)
  ultimately show ?thesis using run m(3) ok(9) by (auto simp: lib_ok_def)
qed

lemma remote_address_seen_keeps [keeps]:
  assumes "remote_address_seen os conn s = Some (p, s')" "lib_ok s"
  shows "lib_ok s'"
proof -
  obtain c where c: "conn_heap s conn = Some c"
    using assms(1) by (auto simp: remote_address_seen_def status_of_conn_def)
  show ?thesis
    using remote_address_known [OF lib_okD(7) [OF assms(2)] c] remote_address_new [OF assms(2) c, of os] assms
    by (cases "map_lookup (conn_status s) (address_of_conn c)") auto
qed

section \<open>Reading keeps the invariant\<close>

lemma sys_recv_keeps [keeps]: "sys_recv os sock n peek s = (r, s') \<Longrightarrow> lib_ok s \<Longrightarrow> lib_ok s'"
  unfolding sys_recv_def by (rule syscall_keeps)

lemma sys_recvfrom_keeps [keeps]: "sys_recvfrom os sock n s = (r, s') \<Longrightarrow> lib_ok s \<Longrightarrow> lib_ok s'"
  unfolding sys_recvfrom_def by (rule syscall_keeps)

lemma sys_accept_keeps [keeps]: "sys_accept os sock s = (r, s') \<Longrightarrow> lib_ok s \<Longrightarrow> lib_ok s'"
  unfolding sys_accept_def by (rule syscall_keeps)

lemma write_body_keeps [keeps]: "write_body b off bs s = Some s' \<Longrightarrow> lib_ok s \<Longrightarrow> lib_ok s'"
  by (auto simp: write_body_def dest: keeps)

lemma write_packet_keeps [keeps]: "write_packet b bs s = Some s' \<Longrightarrow> lib_ok s \<Longrightarrow> lib_ok s'"
  by (auto simp: write_packet_def Let_def dest: keeps)

lemma read_header_keeps [keeps]: "read_header os sock conn s = Some (h, s') \<Longrightarrow> lib_ok s \<Longrightarrow> lib_ok s'"
  by (auto simp: read_header_def run_iffs dest!: keeps)

lemma continue_recv_keeps [keeps]:
  assumes "continue_recv os conn p s = Some (r, s')" "lib_ok s"
  shows "lib_ok s'"
proof -
  obtain c st where c: "conn_heap s conn = Some c" "status_heap s p = Some st"
    using assms(1) by (auto simp: continue_recv_def)
  obtain got t where t: "sys_recv os (socket c) (num_bytes (waiting_buffer st)) False s = (got, t)"
    by fastforce
  have "lib_ok t" using t assms(2) by (rule sys_recv_keeps)
  then show ?thesis
    using assms(1) c t
    by (auto simp: continue_recv_def Let_def split: option.splits if_splits dest!: keeps)
qed

lemma accept_connection_keeps [keeps]: "accept_connection os conn s = Some s' \<Longrightarrow> lib_ok s \<Longrightarrow> lib_ok s'"
  by (auto simp: accept_connection_def run_iffs dest!: keeps)

lemma read_tcp_keeps [keeps]: "read_tcp os sock conn s = Some (r, s') \<Longrightarrow> lib_ok s \<Longrightarrow> lib_ok s'"
  by (auto simp: read_tcp_def run_iffs dest!: keeps)

lemma read_udp_keeps [keeps]: "read_udp os sock conn h s = Some (r, s') \<Longrightarrow> lib_ok s \<Longrightarrow> lib_ok s'"
  by (auto simp: read_udp_def run_iffs dest!: keeps)

lemma match_reply_keeps [keeps]: "match_reply os conn h p d udp s = Some (r, s') \<Longrightarrow> lib_ok s \<Longrightarrow> lib_ok s'"
  by (auto simp: match_reply_def run_iffs dest!: keeps)

lemma dispatch_keeps [keeps]: "dispatch os sock conn h msg s = Some (r, s') \<Longrightarrow> lib_ok s \<Longrightarrow> lib_ok s'"
  by (auto simp: dispatch_def run_iffs dest!: keeps)

lemma read_from_socket_keeps [keeps]:
  "read_from_socket os sock conn s = Some (r, s') \<Longrightarrow> lib_ok s \<Longrightarrow> lib_ok s'"
  by (auto simp: read_from_socket_def run_iffs dest!: keeps)

text \<open>Whatever one read keeps, the loop keeps.\<close>

lemma read_loop_invariant:
  assumes "read_loop os conn s = Some s'" "Q s"
    "\<And>k s r t. read_from_socket os k conn s = Some (r, t) \<Longrightarrow> Q s \<Longrightarrow> Q t"
  shows "Q s'"
proof -
  have "os' = os \<longrightarrow> conn' = conn \<longrightarrow> Q t \<longrightarrow> Q t'" if "read_loop os' conn' t = Some t'" for os' conn' t t'
  proof (rule read_loop.raw_induct [where P = "\<lambda>os' conn' s s'. os' = os \<longrightarrow> conn' = conn \<longrightarrow> Q s \<longrightarrow> Q s'", OF _ that])
    fix f os' conn' s s'
    assume IH: "\<And>os' conn' s s'. f os' conn' s = Some s' \<Longrightarrow> os' = os \<longrightarrow> conn' = conn \<longrightarrow> Q s \<longrightarrow> Q s'"
      and eq: "(do {
        c \<leftarrow> conn_heap s conn';
        (again, s) \<leftarrow> read_from_socket os' (socket c) conn' s;
        if again then f os' conn' s else Some s
      }) = Some s'"
    show "os' = os \<longrightarrow> conn' = conn \<longrightarrow> Q s \<longrightarrow> Q s'"
      using eq by (auto split: if_splits dest: IH assms(3))
  qed
  with assms(1,2) show ?thesis by blast
qed

lemma read_loop_keeps [keeps]: "read_loop os conn s = Some s' \<Longrightarrow> lib_ok s \<Longrightarrow> lib_ok s'"
  by (erule read_loop_invariant) (auto dest: keeps)

end
