(* ===== verification/Opening.thy ===== *)
theory Opening
  imports Reading
begin

text \<open>
  Opening sockets: \<open>setup_sockaddr\<close>, \<open>open_socket\<close> and the public functions \<open>msg_listen\<close> and
  \<open>msg_connect\<close>. Every path either opens the connection or queues one \<open>msg_error\<close> that frees it.
\<close>

definition sys_socket :: "os \<Rightarrow> u16 \<Rightarrow> mbox \<Rightarrow> int option \<times> mbox" where
  "sys_socket os proto = syscall (Sys_socket proto) (\<lambda>t. os_socket os t proto)"

definition sys_setsockopt :: "os \<Rightarrow> int \<Rightarrow> mbox \<Rightarrow> unit option \<times> mbox" where
  "sys_setsockopt os sock = syscall (Sys_setsockopt sock) (\<lambda>t. os_setsockopt os t sock)"

definition sys_bind :: "os \<Rightarrow> int \<Rightarrow> sockaddr_in \<Rightarrow> mbox \<Rightarrow> unit option \<times> mbox" where
  "sys_bind os sock sa = syscall (Sys_bind sock sa) (\<lambda>t. os_bind os t sock sa)"

definition sys_connect :: "os \<Rightarrow> int \<Rightarrow> sockaddr_in \<Rightarrow> mbox \<Rightarrow> unit option \<times> mbox" where
  "sys_connect os sock sa = syscall (Sys_connect sock sa) (\<lambda>t. os_connect os t sock sa)"

definition sys_listen :: "os \<Rightarrow> int \<Rightarrow> mbox \<Rightarrow> unit option \<times> mbox" where
  "sys_listen os sock = syscall (Sys_listen sock) (\<lambda>t. os_listen os t sock)"

text \<open>The socket address on success; on an error its callback is queued.\<close>

definition setup_sockaddr :: "os \<Rightarrow> string \<Rightarrow> conn_ptr \<Rightarrow> mbox \<Rightarrow> (sockaddr_in option \<times> mbox) option" where
  "setup_sockaddr os address conn s = do {
     c \<leftarrow> conn_heap s conn;
     let (err_msg, c) = parse_address_str address c;
     s \<leftarrow> update_conn conn (\<lambda>_. c) s;
     case err_msg of
       Some msg \<Rightarrow> do {
         s \<leftarrow> send_callback_error os conn msg (Some (ConnPtr conn)) s;
         Some (None, s)
       }
     | None \<Rightarrow> do {
         let (sock, s) = sys_socket os (protocol_type c) s;
         case sock of
           None \<Rightarrow> do {
             s \<leftarrow> send_callback_os_error os conn ''socket'' (Some (ConnPtr conn)) s;
             Some (None, s)
           }
         | Some sock \<Rightarrow> do {
             s \<leftarrow> update_conn conn (\<lambda>c. c\<lparr>socket := sock, index := a_count (conns s)\<rparr>) s;
             let s = s\<lparr>conns := array__add_item_ptr (conns s) conn\<rparr>;
             let s = add_to_poll_fds sock poll_mode_read s;
             Some (Some \<lparr>sin_port = htons (remote_port c), sin_addr = remote_ip c\<rparr>, s)
           }
       }
   }"

text \<open>The tail of each error path after \<open>setup_sockaddr\<close>.\<close>

definition open_failed :: "os \<Rightarrow> conn_ptr \<Rightarrow> string \<Rightarrow> mbox \<Rightarrow> mbox option" where
  "open_failed os conn fn s = do {
     s \<leftarrow> send_callback_os_error os conn fn (Some (ConnPtr conn)) s;
     remove_last_polling_conn s
   }"

text \<open>The end of \<open>open_socket\<close>: the socket is bound, or connected.\<close>

definition socket_opened :: "os \<Rightarrow> conn_ptr \<Rightarrow> msg_Conn \<Rightarrow> bool \<Rightarrow> mbox \<Rightarrow> mbox option" where
  "socket_opened os conn c listening s =
     (if listening then
        let (ret_val, s) = (if protocol_type c = msg_tcp then sys_listen os (socket c) s else (Some (), s))
        in if ret_val = None then open_failed os conn ''listen'' s
           else Some (send_callback conn msg_listening msg_no_data None s)
      else map_option snd (remote_address_seen os conn s))"

text \<open>The part of \<open>open_socket\<close> that follows \<open>setup_sockaddr\<close>.\<close>

definition open_sockaddr ::
  "os \<Rightarrow> conn_ptr \<Rightarrow> msg_Conn \<Rightarrow> bool \<Rightarrow> sockaddr_in \<Rightarrow> mbox \<Rightarrow> mbox option" where
  "open_sockaddr os conn c listening sa s =
     (let (failing_fn, s) = make_non_blocking os (socket c) s in
      case failing_fn of
        Some f \<Rightarrow> open_failed os conn f s
      | None \<Rightarrow>
          let s = (if protocol_type c = msg_tcp then snd (sys_setsockopt os (socket c) s) else s);
              sys_call_name = (if listening then ''bind'' else ''connect'');
              (ret_val, s) = (if listening then sys_bind os (socket c) sa s
                              else sys_connect os (socket c) sa s)
          in if ret_val = None then
               let in_progress = (get_errno s = EINPROGRESS \<or> get_errno s = EWOULDBLOCK)
               in if \<not> listening \<and> protocol_type c = msg_tcp \<and> in_progress
                  then set_conn_to_poll_mode (a_count (conns s) - 1) poll_mode_write s
                  else open_failed os conn sys_call_name s
             else socket_opened os conn c listening s)"

definition open_socket :: "os \<Rightarrow> string \<Rightarrow> vptr \<Rightarrow> callback_id \<Rightarrow> bool \<Rightarrow> mbox \<Rightarrow> mbox option" where
  "open_socket os address ctx cb listening s = do {
     let s = init_if_needed s;
     let (conn, s) = new_connection ctx cb s;
     s \<leftarrow> update_conn conn (\<lambda>c. c\<lparr>for_listening := listening\<rparr>) s;
     (sockaddr, s) \<leftarrow> setup_sockaddr os address conn s;
     case sockaddr of
       None \<Rightarrow> Some s
     | Some sa \<Rightarrow> do {
         c \<leftarrow> conn_heap s conn;
         open_sockaddr os conn c listening sa s
       }
   }"

definition msg_no_context :: vptr where "msg_no_context = null"

definition msg_listen :: "os \<Rightarrow> string \<Rightarrow> callback_id \<Rightarrow> mbox \<Rightarrow> mbox option" where
  "msg_listen os address cb = open_socket os address msg_no_context cb True"

definition msg_connect :: "os \<Rightarrow> string \<Rightarrow> callback_id \<Rightarrow> vptr \<Rightarrow> mbox \<Rightarrow> mbox option" where
  "msg_connect os address cb ctx = open_socket os address ctx cb False"

section \<open>Opening keeps the invariant\<close>

lemma sys_opening_keeps [keeps]:
  "sys_socket os proto s = (r1, s') \<Longrightarrow> lib_ok s \<Longrightarrow> lib_ok s'"
  "sys_setsockopt os sock s = (r2, s') \<Longrightarrow> lib_ok s \<Longrightarrow> lib_ok s'"
  "sys_bind os sock sa s = (r3, s') \<Longrightarrow> lib_ok s \<Longrightarrow> lib_ok s'"
  "sys_connect os sock sa s = (r4, s') \<Longrightarrow> lib_ok s \<Longrightarrow> lib_ok s'"
  "sys_listen os sock s = (r5, s') \<Longrightarrow> lib_ok s \<Longrightarrow> lib_ok s'"
  unfolding sys_socket_def sys_setsockopt_def sys_bind_def sys_connect_def sys_listen_def
  by (erule (1) syscall_keeps)+

lemma setup_sockaddr_keeps [keeps]:
  "setup_sockaddr os address conn s = Some (r, s') \<Longrightarrow> lib_ok s \<Longrightarrow> lib_ok s'"
  by (auto simp: setup_sockaddr_def run_iffs dest!: keeps)

lemma open_failed_keeps [keeps]: "open_failed os conn fn s = Some s' \<Longrightarrow> lib_ok s \<Longrightarrow> lib_ok s'"
  by (auto simp: open_failed_def dest!: keeps)

lemma setsockopt_snd_keeps [simp]: "lib_ok s \<Longrightarrow> lib_ok (snd (sys_setsockopt os sock s))"
  by (cases "sys_setsockopt os sock s") (auto dest: keeps)

lemma socket_opened_keeps [keeps]:
  "socket_opened os conn c listening s = Some s' \<Longrightarrow> lib_ok s \<Longrightarrow> lib_ok s'"
  by (auto simp: socket_opened_def run_iffs split: if_splits dest!: keeps)

lemma open_sockaddr_keeps [keeps]:
  "open_sockaddr os conn c listening sa s = Some s' \<Longrightarrow> lib_ok s \<Longrightarrow> lib_ok s'"
  by (cases listening; cases "protocol_type c = msg_tcp")
    (auto simp: open_sockaddr_def run_iffs dest!: keeps)

lemma open_socket_keeps:
  assumes "open_socket os address ctx cb listening s = Some s'" "lib_ok (init_if_needed s)"
  shows "lib_ok s'"
  using assms by (auto simp: open_socket_def run_iffs dest!: keeps)

section \<open>The outcomes of opening a socket\<close>

text \<open>
  Every call returns, and has one of three outcomes for the new connection \<open>p\<close>: it failed, with one
  \<open>msg_error\<close> queued that frees it; it is open, with the event of its kind queued; or it is open
  and silent, because the tcp connection is in progress or because its address was already known.
\<close>

definition open_failure :: "mbox \<Rightarrow> conn_ptr \<Rightarrow> mbox \<Rightarrow> bool" where
  "open_failure t p s' \<longleftrightarrow> conn_list s' = conn_list t \<and>
     (\<exists>d. pending s' = pending t @ [\<lparr>pc_conn = p, pc_event = msg_error, pc_data = d, to_free = Some (ConnPtr p)\<rparr>])"

definition open_success :: "mbox \<Rightarrow> conn_ptr \<Rightarrow> bool \<Rightarrow> mbox \<Rightarrow> bool" where
  "open_success t p listening s' \<longleftrightarrow> conn_list s' = conn_list t @ [p] \<and>
     (\<exists>d. pending s' = pending t @ [\<lparr>pc_conn = p,
        pc_event = (if listening then msg_listening else msg_connection_ready), pc_data = d, to_free = None\<rparr>])"

definition open_silent :: "mbox \<Rightarrow> conn_ptr \<Rightarrow> mbox \<Rightarrow> bool" where
  "open_silent t p s' \<longleftrightarrow> conn_list s' = conn_list t @ [p] \<and> pending s' = pending t \<and>
     (events (last (pollfd_list s')) = POLLOUT \<or>
      (\<exists>c. conn_heap s' p = Some c \<and> map_lookup (conn_status t) (address_of_conn c) \<noteq> None))"

lemma error_state_views:
  assumes "lib_ok s"
  shows "conn_list (error_state os conn msg free s) = conn_list s"
    "conns_ok (error_state os conn msg free s) = conns_ok s"
    "\<exists>d. pending (error_state os conn msg free s) =
       pending s @ [\<lparr>pc_conn = conn, pc_event = msg_error, pc_data = d, to_free = free\<rparr>]"
  using error_state_pending(1) [OF lib_okD(1) [OF assms]]
  by (simp_all add: conn_list_def pollfd_list_def conns_ok_def)

lemma open_failed_facts:
  assumes "lib_ok s" "conns_ok s" "conn_list s = cs @ [p]"
  shows "\<exists>s' d. open_failed os conn fn s = Some s' \<and> lib_ok s' \<and> conns_ok s' \<and> conn_list s' = cs \<and>
    pending s' = pending s @ [\<lparr>pc_conn = conn, pc_event = msg_error, pc_data = d, to_free = Some (ConnPtr conn)\<rparr>]"
proof -
  let ?e = "error_state os conn (snprintf 1024 (fn @ '': '' @ err_str os s)) (Some (ConnPtr conn)) s"
  note e = error_state_views [OF assms(1), of os conn "snprintf 1024 (fn @ '': '' @ err_str os s)"
      "Some (ConnPtr conn)"]
  have "0 < a_count (conns ?e)" using conns_okD(3) [OF assms(2)] assms(3) by simp
  from remove_last_ok [of ?e, OF _ this] e(2) assms(2) obtain a b where
    r: "remove_last_polling_conn ?e = Some (?e\<lparr>conns := a, poll_fds := b\<rparr>)"
      "conns_ok (?e\<lparr>conns := a, poll_fds := b\<rparr>)" "array_list a = butlast (conn_list ?e)" by blast
  have "lib_ok (?e\<lparr>conns := a, poll_fds := b\<rparr>)"
    using remove_last_polling_conn_keeps [OF r(1)] assms(1) by simp
  moreover have "open_failed os conn fn s = Some (?e\<lparr>conns := a, poll_fds := b\<rparr>)"
    using r(1) by (simp add: open_failed_def send_callback_os_error_eq)
  moreover have "conn_list (?e\<lparr>conns := a, poll_fds := b\<rparr>) = cs"
    using r(3) e(1) assms(3) by (simp add: conn_list_def)
  ultimately show ?thesis using r(2) e(3) by (auto simp: pending_def)
qed

text \<open>\<open>placed t p c s\<close>: the new connection \<open>p\<close> has been put at the end of the arrays of \<open>t\<close>.\<close>

definition placed :: "mbox \<Rightarrow> conn_ptr \<Rightarrow> msg_Conn \<Rightarrow> mbox \<Rightarrow> bool" where
  "placed t p c s \<longleftrightarrow> lib_ok s \<and> conns_ok s \<and> conn_list s = conn_list t @ [p] \<and> pending s = pending t \<and>
     conn_heap s p = Some c \<and> conn_status s = conn_status t"

lemma placed_io: "placed t p c s \<Longrightarrow> only_io s s' \<Longrightarrow> placed t p c s'"
  using only_io_views by (simp add: placed_def)

definition open_done :: "mbox \<Rightarrow> conn_ptr \<Rightarrow> bool \<Rightarrow> mbox \<Rightarrow> bool" where
  "open_done t p listening s' \<longleftrightarrow> lib_ok s' \<and> conns_ok s' \<and>
     (open_failure t p s' \<or> open_success t p listening s' \<or> (\<not> listening \<and> open_silent t p s'))"

lemma open_failed_done:
  assumes "placed t p c s"
  shows "\<exists>s'. open_failed os p fn s = Some s' \<and> open_done t p listening s'"
proof -
  have "lib_ok s" "conns_ok s" "conn_list s = conn_list t @ [p]" using assms by (simp_all add: placed_def)
  from open_failed_facts [OF this, of os p fn] assms show ?thesis
    by (auto simp: open_done_def open_failure_def placed_def)
qed

lemma socket_opened_done:
  assumes "placed t p c s"
  shows "\<exists>s'. socket_opened os p c listening s = Some s' \<and> open_done t p listening s'"
proof (cases listening)
  case True
  obtain r s1 where l: "sys_listen os (socket c) s = (r, s1)" by fastforce
  have s1: "placed t p c s1"
    using placed_io [OF assms] only_io_syscall l unfolding sys_listen_def by (metis snd_conv)
  have ready: "open_done t p True (send_callback p msg_listening msg_no_data None s0)"
    if "placed t p c s0" for s0
    using that send_callback_pending(1) [of s0 p msg_listening msg_no_data None]
    by (auto simp: open_done_def open_success_def placed_def lib_okD conn_list_def conns_ok_def
        pollfd_list_def)
  show ?thesis
    using True l ready [OF assms] ready [OF s1] open_failed_done [OF s1, of os "''listen''" True]
    by (auto simp: socket_opened_def Let_def)
next
  case False
  have s: "lib_ok s" "conns_ok s" "conn_heap s p = Some c" "conn_status s = conn_status t"
    "pending s = pending t" "conn_list s = conn_list t @ [p]"
    using assms by (simp_all add: placed_def)
  show ?thesis
  proof (cases "map_lookup (conn_status s) (address_of_conn c)")
    case (Some st)
    with False s assms remote_address_known [OF lib_okD(7) [OF s(1)] s(3)] show ?thesis
      by (auto simp: socket_opened_def open_done_def open_silent_def)
  next
    case None
    from remote_address_new [OF s(1,3) None, of os] obtain m where
      m: "remote_address_seen os p s = Some (next_id s, seen_state os p c m s)"
        "lib_ok (seen_state os p c m s)" by auto
    have "conns_ok (seen_state os p c m s)" "conn_list (seen_state os p c m s) = conn_list s"
      using s(2) by (simp_all add: conns_ok_def conn_list_def pollfd_list_def)
    with m False s seen_state_pending [OF lib_okD(1) [OF s(1)], of os p c m] show ?thesis
      by (auto simp: socket_opened_def open_done_def open_success_def)
  qed
qed

lemma set_poll_mode_facts:
  assumes "conns_ok s" "i < a_count (conns s)"
  shows "\<exists>a. set_conn_to_poll_mode i m s = Some (s\<lparr>poll_fds := a\<rparr>) \<and> conns_ok (s\<lparr>poll_fds := a\<rparr>) \<and>
    array_list a = (pollfd_list s)[i := (pollfd_list s ! i)
      \<lparr>events := (if has_mode m poll_mode_read then POLLIN else POLLOUT)\<rparr>]"
proof -
  note ok = conns_okD [OF assms(1)]
  have i: "i < a_count (poll_fds s)" using ok assms(2) by simp
  let ?p = "(pollfd_list s ! i)\<lparr>events := (if has_mode m poll_mode_read then POLLIN else POLLOUT)\<rparr>"
  have it: "array__item_val (poll_fds s) i = Some (pollfd_list s ! i)"
    using array_item_val [OF ok(2) i] by (simp add: pollfd_list_def)
  from array_set_facts [OF ok(2) i, of ?p] obtain a where
    a: "array__item_set (poll_fds s) i ?p = Some a" "array_inv a" "array_list a = (pollfd_list s)[i := ?p]"
    by (auto simp: pollfd_list_def)
  have fd_same: "fd ((pollfd_list s)[i := ?p] ! j) = fd (pollfd_list s ! j)" for j
    using i ok by (cases "j = i") simp_all
  have "matched (conn_heap s) (conn_list s) (array_list a)"
    using assms(1) fd_same unfolding conns_ok_def matched_def a(3) by simp
  then have "conns_ok (s\<lparr>poll_fds := a\<rparr>)"
    using ok a(2) by (simp add: conns_ok_def conn_list_def pollfd_list_def)
  with a it show ?thesis by (auto simp: set_conn_to_poll_mode_def)
qed

lemma open_sockaddr_done:
  assumes "placed t p c s"
  shows "\<exists>s'. open_sockaddr os p c listening sa s = Some s' \<and> open_done t p listening s'"
proof -
  obtain f s1 where f: "make_non_blocking os (socket c) s = (f, s1)" by fastforce
  have s1: "placed t p c s1"
    using placed_io [OF assms make_non_blocking_io, of os "socket c"] f by simp
  show ?thesis
  proof (cases f)
    case (Some fn)
    with f open_failed_done [OF s1, of os fn listening] show ?thesis by (simp add: open_sockaddr_def)
  next
    case None
    define s2 where "s2 = (if protocol_type c = msg_tcp then snd (sys_setsockopt os (socket c) s1) else s1)"
    have s2: "placed t p c s2"
      using placed_io [OF s1 only_io_syscall, of "Sys_setsockopt (socket c)" "\<lambda>t. os_setsockopt os t (socket c)"] s1
      by (simp add: s2_def sys_setsockopt_def)
    obtain r s3 where r: "(if listening then sys_bind os (socket c) sa s2
        else sys_connect os (socket c) sa s2) = (r, s3)" by fastforce
    have "only_io s2 s3"
      using r only_io_syscall [of s2] unfolding sys_bind_def sys_connect_def
      by (metis snd_conv)
    then have s3: "placed t p c s3" by (rule placed_io [OF s2])
    let ?fn = "if listening then ''bind'' else ''connect''"
    let ?wait = "\<not> listening \<and> protocol_type c = msg_tcp \<and>
      (get_errno s3 = EINPROGRESS \<or> get_errno s3 = EWOULDBLOCK)"
    have run: "open_sockaddr os p c listening sa s =
      (if r = None then
         if ?wait then set_conn_to_poll_mode (a_count (conns s3) - 1) poll_mode_write s3
         else open_failed os p ?fn s3
       else socket_opened os p c listening s3)"
      using f None by (simp add: open_sockaddr_def s2_def [symmetric] r)
    have last: "conns_ok s3" "conn_list s3 = conn_list t @ [p]" "a_count (conns s3) - 1 < a_count (conns s3)"
      using s3 conns_okD(3) [of s3] by (auto simp: placed_def)
    from set_poll_mode_facts [OF last(1,3), of poll_mode_write] obtain a where
      a: "set_conn_to_poll_mode (a_count (conns s3) - 1) poll_mode_write s3 = Some (s3\<lparr>poll_fds := a\<rparr>)"
        "conns_ok (s3\<lparr>poll_fds := a\<rparr>)"
        "array_list a = (pollfd_list s3)[a_count (conns s3) - 1 :=
           (pollfd_list s3 ! (a_count (conns s3) - 1))\<lparr>events := POLLOUT\<rparr>]"
      by (auto simp: has_mode_def poll_mode_read_def poll_mode_write_def)
    have len: "length (array_list a) = a_count (conns s3)" "0 < a_count (conns s3)"
      using a(3) conns_okD [OF last(1)] last(3) by auto
    then have "array_list a \<noteq> []" by auto
    then have "events (last (array_list a)) = POLLOUT"
      using len a(3) by (simp add: last_conv_nth) 
    then have wait: "open_done t p False (s3\<lparr>poll_fds := a\<rparr>)"
      using a(2) s3 set_conn_to_poll_mode_keeps [OF a(1)]
      by (auto simp: open_done_def open_silent_def placed_def conn_list_def pollfd_list_def pending_def)
    show ?thesis
      unfolding run using wait a(1) open_failed_done [OF s3, of os ?fn listening]
        socket_opened_done [OF s3, of os listening] by auto
  qed
qed

text \<open>A connection that is in no array may change, or join them.\<close>

lemma conns_ok_update_other:
  assumes "conns_ok s" "p \<notin> set (conn_list s)"
  shows "conns_ok (s\<lparr>conn_heap := (conn_heap s)(p := x)\<rparr>)"
proof -
  have "matched ((conn_heap s)(p := x)) (conn_list s) (pollfd_list s)"
  proof (rule matched_frame [of "conn_heap s"])
    show "matched (conn_heap s) (conn_list s) (pollfd_list s)" using assms(1) by (simp add: conns_ok_def)
    show "\<exists>c'. ((conn_heap s)(p := x)) q = Some c' \<and> index c' = index c \<and> socket c' = socket c"
      if "q \<in> set (conn_list s)" "conn_heap s q = Some c" for q c
      using that assms(2) by (cases "q = p") auto
  qed
  then show ?thesis using assms(1) by (simp add: conns_ok_def conn_list_def pollfd_list_def)
qed

definition unplaced :: "mbox \<Rightarrow> conn_ptr \<Rightarrow> mbox \<Rightarrow> bool" where
  "unplaced t p s \<longleftrightarrow> lib_ok s \<and> conns_ok s \<and> conn_list s = conn_list t \<and> pending s = pending t \<and>
     conn_status s = conn_status t \<and> p \<notin> set (conn_list s)"

lemma unplaced_update:
  assumes "unplaced t p s" "conn_heap s p = Some c"
  shows "update_conn p f s = Some (s\<lparr>conn_heap := (conn_heap s)(p := Some (f c))\<rparr>)"
    "unplaced t p (s\<lparr>conn_heap := (conn_heap s)(p := Some (f c))\<rparr>)"
proof -
  show run: "update_conn p f s = Some (s\<lparr>conn_heap := (conn_heap s)(p := Some (f c))\<rparr>)"
    using assms(2) by (simp add: update_conn_def)
  show "unplaced t p (s\<lparr>conn_heap := (conn_heap s)(p := Some (f c))\<rparr>)"
    using assms(1) update_conn_keeps [OF run] conns_ok_update_other [of s p] by (auto simp: unplaced_def)
qed

lemma unplaced_failed:
  assumes "unplaced t p s"
  shows "lib_ok (error_state os p msg (Some (ConnPtr p)) s)"
    "conns_ok (error_state os p msg (Some (ConnPtr p)) s)"
    "open_failure t p (error_state os p msg (Some (ConnPtr p)) s)"
  using assms error_state_views [of s os p msg "Some (ConnPtr p)"]
  by (auto simp: unplaced_def open_failure_def)

lemma place_conn:
  assumes "unplaced t p s" "conn_heap s p = Some c" "index c = a_count (conns s)" "socket c = sock"
  shows "placed t p c (add_to_poll_fds sock mode (s\<lparr>conns := array__add_item_ptr (conns s) p\<rparr>))"
    (is "placed t p c ?s")
proof -
  have u: "lib_ok s" "conns_ok s" "conn_list s = conn_list t" "pending s = pending t"
    "conn_status s = conn_status t" "p \<notin> set (conn_list s)"
    using assms(1) unfolding unplaced_def by blast+
  have "lib_ok ?s" by (rule lib_ok_add_conn [OF u(1)])
  moreover have "conns_ok ?s" by (rule add_conn_ok [OF u(2) assms(2) u(6) assms(3,4)])
  moreover have "conn_list ?s = conn_list t @ [p]"
    using u(3) lib_okD(2) [OF u(1)] by (simp add: add_to_poll_fds_def conn_list_def array_simps)
  ultimately show ?thesis
    using u assms(2) by (simp add: placed_def add_to_poll_fds_def pending_def)
qed

lemma setup_sockaddr_done:
  assumes "unplaced t p s" "conn_heap s p = Some c"
  shows "\<exists>r s'. setup_sockaddr os address p s = Some (r, s') \<and>
    (if r = None then lib_ok s' \<and> conns_ok s' \<and> open_failure t p s' else \<exists>c'. placed t p c' s')"
proof -
  obtain e c1 where e: "parse_address_str address c = (e, c1)" by fastforce
  let ?s1 = "s\<lparr>conn_heap := (conn_heap s)(p := Some c1)\<rparr>"
  note s1 = unplaced_update [OF assms, of "\<lambda>_. c1"]
  show ?thesis
  proof (cases e)
    case (Some msg)
    with e s1(1) assms(2) unplaced_failed [OF s1(2), of os msg] show ?thesis
      by (simp add: setup_sockaddr_def send_callback_error_eq)
  next
    case None
    obtain sock s2 where s2: "sys_socket os (protocol_type c1) ?s1 = (sock, s2)" by fastforce
    have io: "only_io ?s1 s2"
      using s2 only_io_syscall unfolding sys_socket_def by (metis snd_conv)
    have s2u: "unplaced t p s2" "conn_heap s2 p = Some c1"
      using s1(2) only_io_views [OF io] by (auto simp: unplaced_def)
    show ?thesis
    proof (cases sock)
      case None
      with e \<open>e = None\<close> s1(1) assms(2) s2 unplaced_failed [OF s2u(1), of os] show ?thesis
        by (simp add: setup_sockaddr_def send_callback_os_error_eq)
    next
      case (Some k)
      let ?c2 = "c1\<lparr>socket := k, index := a_count (conns s2)\<rparr>"
      let ?s3 = "s2\<lparr>conn_heap := (conn_heap s2)(p := Some ?c2)\<rparr>"
      note s3 = unplaced_update [OF s2u, of "\<lambda>c. c\<lparr>socket := k, index := a_count (conns s2)\<rparr>"]
      let ?s4 = "add_to_poll_fds k poll_mode_read (?s3\<lparr>conns := array__add_item_ptr (conns ?s3) p\<rparr>)"
      have "placed t p ?c2 ?s4" by (rule place_conn [OF s3(2)]) simp_all
      moreover have "setup_sockaddr os address p s =
          Some (Some \<lparr>sin_port = htons (remote_port c1), sin_addr = remote_ip c1\<rparr>, ?s4)"
        using e \<open>e = None\<close> s1(1) assms(2) s2 Some s3(1) by (simp add: setup_sockaddr_def Let_def)
      ultimately show ?thesis by fastforce
    qed
  qed
qed

lemma fresh_not_listed:
  assumes "lib_ok t" "conns_ok t"
  shows "next_id t \<notin> set (conn_list t)"
proof
  assume "next_id t \<in> set (conn_list t)"
  then obtain i where "i < length (conn_list t)" "conn_list t ! i = next_id t" by (auto simp: in_set_conv_nth)
  moreover have "conn_heap t (next_id t) = None" using heap_okD(1) [OF lib_okD(8) [OF assms(1)]] by simp
  ultimately show False using assms(2) by (auto simp: conns_ok_def elim!: matched_nth [where i = i])
qed

text \<open>Either the address or the socket fails, or the connection is placed and the opening goes on.\<close>

lemma open_socket_parts:
  assumes "lib_ok t" "conns_ok t" "t = init_if_needed s" "p = next_id t"
  shows "(\<exists>s'. open_socket os address ctx cb listening s = Some s' \<and> lib_ok s' \<and> conns_ok s' \<and> open_failure t p s') \<or>
    (\<exists>c sa s1. placed t p c s1 \<and>
      open_socket os address ctx cb listening s = open_sockaddr os p c listening sa s1)"
proof -
  obtain c s1 where s1: "new_connection ctx cb t = (p, s1)"
    and c: "s1 = t\<lparr>conn_heap := (conn_heap t)(p := Some c), next_id := p + 1\<rparr>"
    using assms(4) by (auto simp: new_connection_def Let_def)
  have fresh: "p \<notin> set (conn_list t)" using fresh_not_listed [OF assms(1,2)] assms(4) by simp
  have "conns_ok s1" "conn_list s1 = conn_list t"
    using conns_ok_update_other [OF assms(2) fresh, of "Some c"]
    by (simp_all add: c conns_ok_def conn_list_def pollfd_list_def)
  then have u1: "unplaced t p s1" "conn_heap s1 p = Some c"
    using new_connection_keeps [OF s1 assms(1)] fresh by (simp_all add: c unplaced_def pending_def)
  note u2 = unplaced_update [OF u1, of "\<lambda>c. c\<lparr>for_listening := listening\<rparr>"]
  from setup_sockaddr_done [OF u2(2), of _ os address] obtain r s3 where
    s3: "setup_sockaddr os address p (s1\<lparr>conn_heap := (conn_heap s1)(p := Some (c\<lparr>for_listening := listening\<rparr>))\<rparr>) =
        Some (r, s3)"
      "if r = None then lib_ok s3 \<and> conns_ok s3 \<and> open_failure t p s3 else \<exists>c'. placed t p c' s3"
    by auto
  show ?thesis
  proof (cases r)
    case None
    with s3 u2(1) s1 assms(3) show ?thesis by (auto simp: open_socket_def)
  next
    case (Some sa)
    with s3(2) obtain c' where c': "placed t p c' s3" by auto
    then have "conn_heap s3 p = Some c'" by (simp add: placed_def)
    then have "open_socket os address ctx cb listening s = open_sockaddr os p c' listening sa s3"
      using s3(1) Some u2(1) s1 assms(3) by (simp add: open_socket_def)
    with c' show ?thesis by blast
  qed
qed

text \<open>\<open>open_socket\<close> returns in every state of the library, whatever the system calls answer.\<close>

lemma open_socket_done:
  assumes "lib_ok t" "conns_ok t" "t = init_if_needed s"
  shows "\<exists>s'. open_socket os address ctx cb listening s = Some s' \<and> open_done t (next_id t) listening s'"
  using open_socket_parts [OF assms refl, of os address ctx cb listening]
    open_sockaddr_done [of t "next_id t" _ _ os listening] by (fastforce simp: open_done_def)

end
