(* ===== verification/Runloop.thy ===== *)
theory Runloop
  imports Opening
begin

text \<open>
  The public functions on connections and the run loop: \<open>msg_unlisten\<close>, \<open>msg_disconnect\<close>,
  \<open>msg_send\<close>, \<open>msg_get\<close> and \<open>msg_runloop\<close>, whose polling pass and timeout pass are definitions of
  their own.
\<close>

section \<open>Public functions on a connection\<close>

definition msg_unlisten :: "os \<Rightarrow> conn_ptr \<Rightarrow> mbox \<Rightarrow> mbox option" where
  "msg_unlisten os conn s =
     (if conn = 0 then
        Some (s\<lparr>trace := trace s @ [Stderr ''Error: msg_unlisten called on NULL connection.\<newline>'']\<rparr>)
      else do {
        c \<leftarrow> conn_heap s conn;
        if \<not> for_listening c
        then send_callback_error os conn ''msg_unlisten called on non-listening connection'' None s
        else do {
          s \<leftarrow> update_conn conn (\<lambda>c. c\<lparr>for_listening := False\<rparr>) s;
          let (closed, s) = closesocket os (socket c) s;
          if closed = None then do {
            let saved_errno = get_errno s;
            s \<leftarrow> send_callback_os_error os conn ''close'' None s;
            if saved_errno = EBADF then Some s
            else local_disconnect os conn msg_listening_ended s
          } else local_disconnect os conn msg_listening_ended s
        }
      })"

definition msg_disconnect :: "os \<Rightarrow> conn_ptr \<Rightarrow> mbox \<Rightarrow> mbox option" where
  "msg_disconnect os conn s = do {
     let (d, s) = msg_new_data_space os 0 s;
     s \<leftarrow> set_header d msg_type_close 0 0 s;
     (failed, s) \<leftarrow> send_data os conn d s;
     s \<leftarrow> (case failed of Some f \<Rightarrow> send_callback_os_error os conn f None s | None \<Rightarrow> Some s);
     s \<leftarrow> msg_delete_data d s;
     local_disconnect os conn msg_connection_closed s
   }"

definition msg_send :: "os \<Rightarrow> conn_ptr \<Rightarrow> msg_Data \<Rightarrow> mbox \<Rightarrow> mbox option" where
  "msg_send os conn d s = do {
     c \<leftarrow> conn_heap s conn;
     let msg_type = (if reply_id c \<noteq> 0 then msg_type_reply else msg_type_one_way);
     s \<leftarrow> set_header d msg_type (reply_id c) (of_nat (num_bytes d)) s;
     (failed, s) \<leftarrow> send_data os conn d s;
     case failed of Some f \<Rightarrow> send_callback_os_error os conn f None s | None \<Rightarrow> Some s
   }"

definition msg_get :: "os \<Rightarrow> conn_ptr \<Rightarrow> msg_Data \<Rightarrow> vptr \<Rightarrow> mbox \<Rightarrow> mbox option" where
  "msg_get os conn d ctx s = do {
     status \<leftarrow> status_of_conn conn s;
     c \<leftarrow> conn_heap s conn;
     case status of
       None \<Rightarrow>
         send_callback_error os conn
           (snprintf 1024 (''No known connection with '' @ address_as_str (address_of_conn c))) None s
     | Some p \<Rightarrow> do {
         st \<leftarrow> status_heap s p;
         let rid = next_reply_id st;
         s \<leftarrow> update_status p (\<lambda>st. st\<lparr>next_reply_id := next_reply_id st + 1\<rparr>) s;
         s \<leftarrow> reply_context_set p rid ctx s;
         s \<leftarrow> set_header d msg_type_request rid (of_nat (num_bytes d)) s;
         (failed, s) \<leftarrow> send_data os conn d s;
         case failed of
           Some f \<Rightarrow> send_callback_os_error os conn f None s
         | None \<Rightarrow> Some (add_timeout os conn p rid s)
       }
   }"

section \<open>The polling pass\<close>

definition sys_so_error :: "os \<Rightarrow> int \<Rightarrow> mbox \<Rightarrow> errno \<times> mbox" where
  "sys_so_error os sock s =
     (os_so_error os (clock s) sock,
      s\<lparr>clock := clock s + 1, trace := trace s @ [Sys_getsockopt sock]\<rparr>)"

text \<open>The body of the loop over \<open>conns\<close>, for the connection at index \<open>i\<close>.\<close>

definition poll_one :: "os \<Rightarrow> nat \<Rightarrow> mbox \<Rightarrow> mbox option" where
  "poll_one os i s = do {
     conn \<leftarrow> array__item_val (conns s) i;
     poll_mode \<leftarrow> poll_fds_mode i s;
     c \<leftarrow> conn_heap s conn;
     let (error, s) =
       (if has_mode poll_mode poll_mode_err
        then (case sys_so_error os (socket c) s of (e, s) \<Rightarrow> (Some e, s)) else (None, s));
     if error = Some ECONNREFUSED \<or> error = Some ETIMEDOUT then do {
       let s = s\<lparr>removals := array__add_item_ptr (removals s) (index c)\<rparr>;
       let s = set_errno (the error) s;
       send_callback_os_error os conn ''connect'' (Some (ConnPtr conn)) s
     } else do {
       s \<leftarrow> (if has_mode poll_mode poll_mode_write then do {
                (_, s) \<leftarrow> remote_address_seen os conn s;
                set_conn_to_poll_mode i poll_mode_read s
              } else Some s);
       if has_mode poll_mode poll_mode_read then read_loop os conn s else Some s
     }
   }"

text \<open>
  The loop over \<open>conns\<close> reads the count afresh in every round, as \<open>array__for\<close> does: connections
  that are accepted in a round are visited in a later one.
\<close>

partial_function (option) poll_conns_from :: "os \<Rightarrow> nat \<Rightarrow> mbox \<Rightarrow> mbox option" where
  "poll_conns_from os i s =
     (if i < a_count (conns s) then do {
        s \<leftarrow> poll_one os i s;
        poll_conns_from os (Suc i) s
      } else Some s)"

declare poll_conns_from.simps [code]

definition poll_pass :: "os \<Rightarrow> int \<Rightarrow> mbox \<Rightarrow> mbox option" where
  "poll_pass os timeout_in_ms s = do {
     let (ret, s) = (if a_count (conns s) \<noteq> 0 then check_poll_fds os timeout_in_ms s else (0, s));
     if ret = - 1 then
       if get_errno s \<noteq> EINTR \<and> get_errno s \<noteq> EINPROGRESS
       then Some (s\<lparr>trace := trace s @
              [Stderr (''Internal msgbox error during '' @ quoted ''poll'' @ '' call: '' @ err_str os s @ ''\<newline>'')]\<rparr>)
       else Some s
     else if ret > 0 then do {
       s \<leftarrow> poll_conns_from os 0 s;
       process_removals s
     } else Some s
   }"

section \<open>The timeout pass\<close>

text \<open>
  One round, for the timeout at index 0 (every earlier one has been removed, and \<open>i--\<close> makes the
  next round start there again). After \<open>array__remove_item\<close> the code reads \<open>timeout->status\<close> once
  more: the first slot of the array, which by then holds the next timeout, or still this one when
  it was the last.
\<close>

definition timeout_at :: "Timeout carray \<Rightarrow> Timeout option" where
  "timeout_at a = (case items a of [] \<Rightarrow> None | slot # _ \<Rightarrow> slot)"

definition expire_first :: "os \<Rightarrow> mbox \<Rightarrow> mbox option" where
  "expire_first os s = do {
     timeout \<leftarrow> array__item_val (timeouts s) 0;
     ctx \<leftarrow> reply_context_get (t_status timeout) (t_reply_id timeout) s;
     v \<leftarrow> ctx;
     let conn = t_conn timeout;
     s \<leftarrow> update_conn conn (\<lambda>c. c\<lparr>reply_context := v\<rparr>) s;
     s \<leftarrow> reply_context_unset (t_status timeout) (t_reply_id timeout) s;
     a \<leftarrow> array__remove_item (timeouts s) 0;
     let s = s\<lparr>timeouts := a\<rparr>;
     c \<leftarrow> conn_heap s conn;
     let msg = (if protocol_type c = msg_tcp then ''tcp get timed out'' else ''udp get timed out'');
     (d, s) \<leftarrow> msg_new_data os msg s;
     b \<leftarrow> buffer_of d;
     slot \<leftarrow> timeout_at (timeouts s);
     st \<leftarrow> status_heap s (t_status slot);
     s \<leftarrow> update_buffer b (\<lambda>buf. buf\<lparr>b_meta := (b_meta buf)
           \<lparr>md_reply_context := reply_context c, md_remote_address := st_remote_address st\<rparr>\<rparr>) s;
     Some (send_callback conn msg_error d None s)
   }"

partial_function (option) expire_timeouts :: "os \<Rightarrow> int \<Rightarrow> mbox \<Rightarrow> mbox option" where
  "expire_timeouts os time_now s =
     (if 0 < a_count (timeouts s) then do {
        timeout \<leftarrow> array__item_val (timeouts s) 0;
        if t_at timeout > time_now then Some s
        else do {
          s \<leftarrow> expire_first os s;
          expire_timeouts os time_now s
        }
      } else Some s)"

declare expire_timeouts.simps [code]

section \<open>The run loop\<close>

definition run_pending :: "user_code \<Rightarrow> mbox \<Rightarrow> mbox option" where
  "run_pending user s = do {
     let saved_immediate_callbacks = immediate_callbacks s;
     let s = s\<lparr>immediate_callbacks := array__new 16\<rparr>;
     make_calls_from user saved_immediate_callbacks 0 s
   }"

definition msg_runloop :: "os \<Rightarrow> user_code \<Rightarrow> int \<Rightarrow> mbox \<Rightarrow> mbox option" where
  "msg_runloop os user timeout_in_ms s = do {
     let s = init_if_needed s;
     let timeout_in_ms = (if a_count (immediate_callbacks s) \<noteq> 0 then 0 else timeout_in_ms);
     s \<leftarrow> process_removals s;
     s \<leftarrow> poll_pass os timeout_in_ms s;
     let (time_now, s) = now os s;
     s \<leftarrow> expire_timeouts os time_now s;
     run_pending user s
   }"

section \<open>The invariant\<close>

lemma msg_unlisten_keeps [keeps]: "msg_unlisten os conn s = Some s' \<Longrightarrow> lib_ok s \<Longrightarrow> lib_ok s'"
  by (auto simp: msg_unlisten_def run_iffs dest!: keeps)

lemma msg_disconnect_keeps [keeps]: "msg_disconnect os conn s = Some s' \<Longrightarrow> lib_ok s \<Longrightarrow> lib_ok s'"
  by (auto simp: msg_disconnect_def run_iffs dest!: keeps)

lemma msg_send_keeps [keeps]: "msg_send os conn d s = Some s' \<Longrightarrow> lib_ok s \<Longrightarrow> lib_ok s'"
  by (auto simp: msg_send_def run_iffs dest!: keeps)

lemma msg_get_keeps [keeps]: "msg_get os conn d ctx s = Some s' \<Longrightarrow> lib_ok s \<Longrightarrow> lib_ok s'"
  by (auto simp: msg_get_def run_iffs dest!: keeps)

lemma poll_one_keeps [keeps]: "poll_one os i s = Some s' \<Longrightarrow> lib_ok s \<Longrightarrow> lib_ok s'"
  by (auto simp: poll_one_def sys_so_error_def set_errno_def run_iffs array_invs lib_okD split: if_splits
      dest!: keeps)

lemma poll_conns_invariant:
  assumes "poll_conns_from os i s = Some s'" "Q s" "\<And>i s t. poll_one os i s = Some t \<Longrightarrow> Q s \<Longrightarrow> Q t"
  shows "Q s'"
proof -
  have "os' = os \<longrightarrow> Q t \<longrightarrow> Q t'" if "poll_conns_from os' j t = Some t'" for os' j t t'
  proof (rule poll_conns_from.raw_induct [where P = "\<lambda>os' i s s'. os' = os \<longrightarrow> Q s \<longrightarrow> Q s'", OF _ that])
    fix f os' i s s'
    assume IH: "\<And>os' i s s'. f os' i s = Some s' \<Longrightarrow> os' = os \<longrightarrow> Q s \<longrightarrow> Q s'"
      and eq: "(if i < a_count (conns s) then do {
        s \<leftarrow> poll_one os' i s;
        f os' (Suc i) s
      } else Some s) = Some s'"
    show "os' = os \<longrightarrow> Q s \<longrightarrow> Q s'"
      using eq by (auto split: if_splits dest: IH assms(3))
  qed
  with assms(1,2) show ?thesis by blast
qed

lemma poll_conns_keeps [keeps]: "poll_conns_from os i s = Some s' \<Longrightarrow> lib_ok s \<Longrightarrow> lib_ok s'"
  by (erule poll_conns_invariant) (auto dest: poll_one_keeps)

lemma poll_pass_keeps [keeps]: "poll_pass os ms s = Some s' \<Longrightarrow> lib_ok s \<Longrightarrow> lib_ok s'"
  by (auto simp: poll_pass_def run_iffs split: if_splits dest!: keeps)

lemma array_remove_item_inv:
  assumes "array__remove_item a i = Some b" "array_inv a"
  shows "array_inv b"
proof -
  have "i < a_count a" using assms(1) by (auto simp: array__remove_item_def)
  from array_remove_facts [OF assms(2) this] assms(1) show ?thesis by auto
qed

lemma expire_first_keeps [keeps]:
  "expire_first os s = Some s' \<Longrightarrow> lib_ok s \<Longrightarrow> lib_ok s'"
  by (auto simp: expire_first_def run_iffs lib_okD dest!: keeps dest: array_remove_item_inv)

lemma expire_timeouts_invariant:
  assumes "expire_timeouts os t s = Some s'" "Q s" "\<And>s t. expire_first os s = Some t \<Longrightarrow> Q s \<Longrightarrow> Q t"
  shows "Q s'"
proof -
  have "os' = os \<longrightarrow> Q u \<longrightarrow> Q u'" if "expire_timeouts os' t' u = Some u'" for os' t' u u'
  proof (rule expire_timeouts.raw_induct [where P = "\<lambda>os' t s s'. os' = os \<longrightarrow> Q s \<longrightarrow> Q s'", OF _ that])
    fix f os' time_now s s'
    assume IH: "\<And>os' t s s'. f os' t s = Some s' \<Longrightarrow> os' = os \<longrightarrow> Q s \<longrightarrow> Q s'"
      and eq: "(if 0 < a_count (timeouts s) then do {
        timeout \<leftarrow> array__item_val (timeouts s) 0;
        if t_at timeout > time_now then Some s
        else do {
          s \<leftarrow> expire_first os' s;
          f os' time_now s
        }
      } else Some s) = Some s'"
    show "os' = os \<longrightarrow> Q s \<longrightarrow> Q s'"
      using eq by (auto split: if_splits dest: IH assms(3))
  qed
  with assms(1,2) show ?thesis by blast
qed

lemma expire_timeouts_keeps [keeps]: "expire_timeouts os t s = Some s' \<Longrightarrow> lib_ok s \<Longrightarrow> lib_ok s'"
  by (erule expire_timeouts_invariant) (auto dest: expire_first_keeps)

end
