(* ===== verification/Machine.thy ===== *)
theory Machine
  imports Runloop
begin

text \<open>
  The library and its user as one state machine. A user program is what the user's code does
  between two runs of the loop and inside the callbacks: a sequence of \<open>action\<close>s, the calls of
  msgbox.h and the writes to the fields of a connection that the header makes public. A step is an
  action or a run of \<open>msg_runloop\<close>; the network and the peers are the \<open>os\<close>.
\<close>

datatype action =
    Listen string callback_id
  | Connect string callback_id vptr
  | Unlisten conn_ptr
  | Disconnect conn_ptr
  | Send conn_ptr msg_Data
  | Get conn_ptr msg_Data vptr
  | New_data string
  | New_data_space nat
  | Write_data buf_id nat bytes
  | Delete_data msg_Data
  | Set_context conn_ptr vptr
  | Set_reply_id conn_ptr u16
  | Set_address conn_ptr Address

fun run_action :: "os \<Rightarrow> action \<Rightarrow> mbox \<Rightarrow> mbox option" where
  "run_action os (Listen address cb) s = msg_listen os address cb s"
| "run_action os (Connect address cb ctx) s = msg_connect os address cb ctx s"
| "run_action os (Unlisten p) s = msg_unlisten os p s"
| "run_action os (Disconnect p) s = msg_disconnect os p s"
| "run_action os (Send p d) s = msg_send os p d s"
| "run_action os (Get p d ctx) s = msg_get os p d ctx s"
| "run_action os (New_data str) s = map_option snd (msg_new_data os str s)"
| "run_action os (New_data_space n) s = Some (snd (msg_new_data_space os n s))"
| "run_action os (Write_data b off bs) s = write_body b off bs s"
| "run_action os (Delete_data d) s = msg_delete_data d s"
| "run_action os (Set_context p v) s = update_conn p (\<lambda>c. c\<lparr>conn_context := v\<rparr>) s"
| "run_action os (Set_reply_id p r) s = update_conn p (\<lambda>c. c\<lparr>reply_id := r\<rparr>) s"
| "run_action os (Set_address p a) s = update_conn p (set_address_of_conn a) s"

fun run_actions :: "os \<Rightarrow> action list \<Rightarrow> mbox \<Rightarrow> mbox option" where
  "run_actions os [] s = Some s"
| "run_actions os (a # as) s = Option.bind (run_action os a s) (run_actions os as)"

text \<open>
  A program chooses the actions of each callback from its arguments and the state that it finds.
\<close>

type_synonym program = "callback_id \<Rightarrow> conn_ptr \<Rightarrow> msg_Event \<Rightarrow> msg_Data \<Rightarrow> mbox \<Rightarrow> action list"

definition user_of :: "os \<Rightarrow> program \<Rightarrow> user_code" where
  "user_of os prog cb conn ev d s = run_actions os (prog cb conn ev d s) s"

inductive lib_step :: "os \<Rightarrow> program \<Rightarrow> mbox \<Rightarrow> mbox \<Rightarrow> bool" for os prog where
  act: "run_action os a s = Some s' \<Longrightarrow> lib_step os prog s s'"
| loop: "msg_runloop os (user_of os prog) ms s = Some s' \<Longrightarrow> lib_step os prog s s'"

inductive_cases lib_stepE: "lib_step os prog s s'"

inductive reachable :: "os \<Rightarrow> program \<Rightarrow> mbox \<Rightarrow> bool" for os prog where
  start: "reachable os prog initial_mbox"
| step: "reachable os prog s \<Longrightarrow> lib_step os prog s s' \<Longrightarrow> reachable os prog s'"

section \<open>The invariant of the machine\<close>

text \<open>Before the library is initialised there is no connection to act on.\<close>

definition usable :: "mbox \<Rightarrow> bool" where
  "usable s \<longleftrightarrow> (if init_done s then lib_ok s else heap_ok s \<and> conn_heap s = (\<lambda>_. None))"

lemma usable_init: "usable s \<Longrightarrow> lib_ok (init_if_needed s)"
  by (rule lib_ok_init) (auto simp: usable_def lib_ok_def split: if_splits)

lemma lib_ok_usable: "lib_ok s \<Longrightarrow> usable s"
  by (simp add: usable_def lib_ok_def)

lemma run_action_keeps: "run_action os a s = Some s' \<Longrightarrow> lib_ok s \<Longrightarrow> lib_ok s'"
proof (cases a)
  case (Listen address cb)
  then show "run_action os a s = Some s' \<Longrightarrow> lib_ok s \<Longrightarrow> lib_ok s'"
    by (auto simp: msg_listen_def intro: open_socket_keeps)
next
  case (Connect address cb ctx)
  then show "run_action os a s = Some s' \<Longrightarrow> lib_ok s \<Longrightarrow> lib_ok s'"
    by (auto simp: msg_connect_def intro: open_socket_keeps)
next
  case (New_data_space n)
  then show "run_action os a s = Some s' \<Longrightarrow> lib_ok s \<Longrightarrow> lib_ok s'"
    by (cases "msg_new_data_space os n s") (auto dest: keeps)
qed (auto dest: keeps)

lemma run_actions_keeps: "run_actions os as s = Some s' \<Longrightarrow> lib_ok s \<Longrightarrow> lib_ok s'"
  by (induction as arbitrary: s) (auto dest: run_action_keeps)

text \<open>Callbacks: the library keeps the invariant when the user code does.\<close>

definition user_keeps :: "user_code \<Rightarrow> bool" where
  "user_keeps user \<longleftrightarrow> (\<forall>cb conn ev d s s'. user cb conn ev d s = Some s' \<longrightarrow> lib_ok s \<longrightarrow> lib_ok s')"

lemma user_of_keeps: "user_keeps (user_of os prog)"
  by (auto simp: user_keeps_def user_of_def dest: run_actions_keeps)

lemma restore_udp_keeps [keeps]: "restore_udp call s = Some (r, s') \<Longrightarrow> lib_ok s \<Longrightarrow> lib_ok s'"
  by (auto simp: restore_udp_def run_iffs split: if_splits dest!: keeps)

lemma save_udp_keeps [keeps]: "save_udp conn p s = Some s' \<Longrightarrow> lib_ok s \<Longrightarrow> lib_ok s'"
  by (auto simp: save_udp_def run_iffs split: option.splits if_splits dest!: keeps)

lemma make_call_keeps:
  assumes "user_keeps user" "make_call user call s = Some s'" "lib_ok s"
  shows "lib_ok s'"
proof -
  note user = assms(1) [unfolded user_keeps_def, rule_format]
  show ?thesis
    using assms(2,3) by (auto simp: make_call_def run_iffs dest!: keeps user split: if_splits option.splits)
qed

lemma run_calls_keeps:
  assumes "user_keeps user"
  shows "run_calls user calls s = Some s' \<Longrightarrow> lib_ok s \<Longrightarrow> lib_ok s'"
  by (induction calls arbitrary: s) (auto dest: make_call_keeps [OF assms])

lemma run_pending_eq:
  assumes "array_inv (immediate_callbacks s)"
  shows "run_pending user s = run_calls user (pending s) (s\<lparr>immediate_callbacks := array__new 16\<rparr>)"
  using make_calls_run [OF assms, of 0] by (simp add: run_pending_def pending_def)

lemma run_pending_keeps:
  assumes "user_keeps user" "run_pending user s = Some s'" "lib_ok s"
  shows "lib_ok s'"
  using assms(2,3) run_calls_keeps [OF assms(1)]
  by (auto simp: run_pending_eq lib_okD array_invs)

lemma msg_runloop_keeps:
  assumes "user_keeps user" "msg_runloop os user ms s = Some s'" "lib_ok (init_if_needed s)"
  shows "lib_ok s'"
  using assms(2,3) run_pending_keeps [OF assms(1)]
  by (auto simp: msg_runloop_def run_iffs dest!: keeps)

text \<open>Before initialisation only messages can be created, written and deleted.\<close>

lemma run_action_uninitialised:
  assumes "run_action os a s = Some s'" "usable s" "\<not> init_done s"
  shows "usable s'"
proof -
  have h: "heap_ok s" "conn_heap s p = None" for p using assms by (auto simp: usable_def)
  show ?thesis
  proof (cases a)
    case (Listen address cb)
    then show ?thesis
      using assms usable_init [OF assms(2)] by (auto simp: msg_listen_def intro: lib_ok_usable open_socket_keeps)
  next
    case (Connect address cb ctx)
    then show ?thesis
      using assms usable_init [OF assms(2)] by (auto simp: msg_connect_def intro: lib_ok_usable open_socket_keeps)
  next
    case (Unlisten p)
    then show ?thesis using assms h by (auto simp: msg_unlisten_def usable_def split: if_splits)
  next
    case (Disconnect p)
    then show ?thesis using assms h
      by (auto simp: msg_disconnect_def msg_new_data_space_def set_header_def update_buffer_def send_data_def Let_def)
  next
    case (New_data str)
    then show ?thesis using assms h heap_ok_alloc(3) [OF h(1)]
      by (auto simp: msg_new_data_eq usable_def)
  next
    case (New_data_space n)
    then show ?thesis using assms h heap_ok_alloc(3) [OF h(1)]
      by (auto simp: msg_new_data_space_def Let_def usable_def)
  next
    case (Write_data b off bs)
    then show ?thesis using assms h heap_ok_upd(3) [OF h(1)]
      by (auto simp: write_body_def update_buffer_def usable_def)
  next
    case (Delete_data d)
    then show ?thesis using assms h heap_ok_upd(3) [OF h(1)]
      by (auto simp: msg_delete_data_def free_ptr_def usable_def)
  qed (use assms h in \<open>auto simp: msg_send_def msg_get_def status_of_conn_def update_conn_def\<close>)
qed

lemma lib_step_usable:
  assumes "lib_step os prog s s'" "usable s"
  shows "usable s'"
proof (rule lib_stepE [OF assms(1)])
  fix a assume a: "run_action os a s = Some s'"
  show ?thesis
  proof (cases "init_done s")
    case True
    then show ?thesis using run_action_keeps [OF a] assms(2) lib_ok_usable by (simp add: usable_def)
  next
    case False
    show ?thesis by (rule run_action_uninitialised [OF a assms(2) False])
  qed
next
  fix ms assume "msg_runloop os (user_of os prog) ms s = Some s'"
  then show ?thesis
    using msg_runloop_keeps [OF user_of_keeps _ usable_init [OF assms(2)]] lib_ok_usable by blast
qed

lemma usable_initial: "usable initial_mbox"
  by (simp add: usable_def heap_ok_initial) (simp add: initial_mbox_def)

lemma reachable_usable: "reachable os prog s \<Longrightarrow> usable s"
  by (induction rule: reachable.induct) (auto intro: usable_initial lib_step_usable)

end
