(* ===== verification/Receive.thy ===== *)
theory Receive
  imports Reading
begin

text \<open>
  What the reading side promises about tcp: a message is put together from the pieces in which the
  network delivers it, in any sizes and with any pauses, and is announced once, when it is complete.
\<close>

section \<open>A message in progress\<close>

definition msg_len :: "Header \<Rightarrow> nat" where
  "msg_len h = unat (hdr_num_bytes h)"

text \<open>
  \<open>receiving conn p b h got s\<close>: the tcp connection \<open>conn\<close> is in the middle of a message with header
  \<open>h\<close>, whose bytes so far are \<open>got\<close>, in buffer \<open>b\<close> of its status \<open>p\<close>.
\<close>

definition recv_status :: "ConnStatus \<Rightarrow> buf_id \<Rightarrow> Header \<Rightarrow> nat \<Rightarrow> bool" where
  "recv_status st b h n \<longleftrightarrow>
     total_buffer st = \<lparr>num_bytes = msg_len h, data_bytes = Some (b, 0)\<rparr> \<and>
     waiting_buffer st = \<lparr>num_bytes = msg_len h - n, data_bytes = Some (b, n)\<rparr>"

definition recv_buffer :: "buffer \<Rightarrow> Header \<Rightarrow> bytes \<Rightarrow> bool" where
  "recv_buffer buf h got \<longleftrightarrow> md_header (b_meta buf) = h \<and> length (b_body buf) = msg_len h \<and>
     length got \<le> msg_len h \<and> take (length got) (b_body buf) = got"

definition tcp_peer :: "conn_ptr \<Rightarrow> msg_Conn \<Rightarrow> status_ptr \<Rightarrow> mbox \<Rightarrow> bool" where
  "tcp_peer conn c p s \<longleftrightarrow> lib_ok s \<and> conn_heap s conn = Some c \<and> protocol_type c = msg_tcp \<and>
     \<not> for_listening c \<and> map_lookup (conn_status s) (address_of_conn c) = Some p"

definition receiving ::
  "conn_ptr \<Rightarrow> msg_Conn \<Rightarrow> status_ptr \<Rightarrow> buf_id \<Rightarrow> Header \<Rightarrow> bytes \<Rightarrow> mbox \<Rightarrow> bool" where
  "receiving conn c p b h got s \<longleftrightarrow> tcp_peer conn c p s \<and>
     (\<exists>st. status_heap s p = Some st \<and> recv_status st b h (length got)) \<and>
     (\<exists>buf. buf_heap s b = Some buf \<and> recv_buffer buf h got)"

lemma receivingE:
  assumes "receiving conn c p b h got s"
  obtains st buf where "tcp_peer conn c p s" "status_heap s p = Some st" "buf_heap s b = Some buf"
    "recv_status st b h (length got)" "recv_buffer buf h got"
  using assms by (auto simp: receiving_def)

lemma length_overwrite: "off + length bs \<le> length mem \<Longrightarrow> length (overwrite mem off bs) = length mem"
  by (simp add: overwrite_def)

lemma take_overwrite:
  "off + length bs \<le> length mem \<Longrightarrow> take (off + length bs) (overwrite mem off bs) = take off mem @ bs"
  by (simp add: overwrite_def)

lemma recv_buffer_write:
  assumes "recv_buffer buf h got" "length got + length bs \<le> msg_len h"
  shows "recv_buffer (buf\<lparr>b_body := overwrite (b_body buf) (length got) bs\<rparr>) h (got @ bs)"
  using assms take_overwrite [of "length got" bs "b_body buf"]
  by (simp add: recv_buffer_def length_overwrite)

text \<open>The state after \<open>recv\<close> has put \<open>bs\<close> behind \<open>got\<close>.\<close>

definition recv_state ::
  "int \<Rightarrow> status_ptr \<Rightarrow> ConnStatus \<Rightarrow> buf_id \<Rightarrow> buffer \<Rightarrow> Header \<Rightarrow> bytes \<Rightarrow> bytes \<Rightarrow> mbox \<Rightarrow> mbox" where
  "recv_state sock p st b buf h got bs s =
     s\<lparr>clock := Suc (clock s), trace := trace s @ [Sys_recv sock (msg_len h - length got) False],
       buf_heap := (buf_heap s)(b := Some (buf\<lparr>b_body := overwrite (b_body buf) (length got) bs\<rparr>)),
       status_heap := (status_heap s)(p := Some (st\<lparr>waiting_buffer :=
         \<lparr>num_bytes = msg_len h - length got - length bs, data_bytes = Some (b, length got + length bs)\<rparr>\<rparr>))\<rparr>"

lemma continue_recv_data:
  assumes "conn_heap s conn = Some c" "status_heap s p = Some st" "buf_heap s b = Some buf"
    "recv_status st b h (length got)" "recv_buffer buf h got"
    "os_recv os (clock s) (socket c) (msg_len h - length got) False = Ok bs"
    "bs \<noteq> []" "length got + length bs \<le> msg_len h"
  shows "continue_recv os conn p s =
    Some (if msg_len h = length got + length bs then 1 else 0, recv_state (socket c) p st b buf h got bs s)"
  using assms
  by (simp add: continue_recv_def sys_recv_def syscall_def recv_status_def recv_buffer_def write_body_def
      update_buffer_def update_status_def recv_state_def Let_def)

lemma recv_state_receiving:
  assumes "receiving conn c p b h got s" "status_heap s p = Some st" "buf_heap s b = Some buf"
    "length got + length bs \<le> msg_len h" "lib_ok (recv_state sock p st b buf h got bs s)"
  shows "receiving conn c p b h (got @ bs) (recv_state sock p st b buf h got bs s)"
  using assms recv_buffer_write [of buf h got bs]
  by (auto simp: receiving_def tcp_peer_def recv_state_def recv_status_def)

section \<open>One read\<close>

text \<open>The event for a message that is not a reply, and what becomes of the connection.\<close>

definition told :: "Header \<Rightarrow> msg_Conn \<Rightarrow> msg_Conn" where
  "told h c = (if message_type h = msg_type_one_way then c\<lparr>reply_id := 0\<rparr> else c)\<lparr>reply_context := null\<rparr>"

text \<open>Reading while a message is in progress continues that message.\<close>

lemma read_in_progress:
  assumes "receiving conn c p b h got s" "length got < msg_len h"
  shows "continue_recv os conn p s = Some (0, s') \<Longrightarrow> read_from_socket os sock conn s = Some (False, s')"
    "continue_recv os conn p s = Some (1, s') \<Longrightarrow> status_heap s' p = Some st' \<Longrightarrow>
       read_from_socket os sock conn s = dispatch os sock conn h (Some (p, total_buffer st'))
         (s'\<lparr>status_heap := (status_heap s')(p := Some
            (st'\<lparr>total_buffer := msg_no_data, waiting_buffer := msg_no_data\<rparr>))\<rparr>)"
proof -
  obtain st buf where r: "tcp_peer conn c p s" "status_heap s p = Some st" "buf_heap s b = Some buf"
    "recv_status st b h (length got)" "recv_buffer buf h got"
    using assms(1) by (rule receivingE)
  have "remote_address_seen os conn s = Some (p, s)"
    using r(1) by (intro remote_address_known) (auto simp: tcp_peer_def lib_okD)
  moreover have "conn_heap s conn = Some c" "protocol_type c = msg_tcp" "\<not> for_listening c"
    using r(1) by (simp_all add: tcp_peer_def)
  moreover have "total_buffer st = \<lparr>num_bytes = msg_len h, data_bytes = Some (b, 0)\<rparr>"
    "waiting_buffer st = \<lparr>num_bytes = msg_len h - length got, data_bytes = Some (b, length got)\<rparr>"
    "md_header (b_meta buf) = h"
    using r(4,5) by (simp_all add: recv_status_def recv_buffer_def)
  ultimately have tcp: "read_from_socket os sock conn s =
      Option.bind (read_tcp os sock conn s) (\<lambda>(msg, s). case msg of None \<Rightarrow> Some (False, s)
        | Some (header, status, d) \<Rightarrow> dispatch os sock conn header (Some (status, d)) s)"
    and facts: "remote_address_seen os conn s = Some (p, s)" "status_heap s p = Some st"
      "num_bytes (waiting_buffer st) \<noteq> 0" "buffer_of (total_buffer st) = Some b" "buf_heap s b = Some buf"
      "md_header (b_meta buf) = h"
    using assms(2) r(2,3) by (simp_all add: read_from_socket_def buffer_of_def)
  show "continue_recv os conn p s = Some (0, s') \<Longrightarrow> read_from_socket os sock conn s = Some (False, s')"
    by (simp add: tcp read_tcp_def facts)
  show "continue_recv os conn p s = Some (1, s') \<Longrightarrow> status_heap s' p = Some st' \<Longrightarrow>
       read_from_socket os sock conn s = dispatch os sock conn h (Some (p, total_buffer st'))
         (s'\<lparr>status_heap := (status_heap s')(p := Some
            (st'\<lparr>total_buffer := msg_no_data, waiting_buffer := msg_no_data\<rparr>))\<rparr>)"
    by (simp add: tcp read_tcp_def facts update_status_def)
qed

lemma event_not_close: "event_of_type t = Some ev \<Longrightarrow> t \<noteq> msg_type_close"
  by (auto simp: event_of_type_def msg_type_defs)

lemma dispatch_tcp:
  assumes "conn_heap s conn = Some c" "protocol_type c = msg_tcp"
    "event_of_type (message_type h) = Some ev" "message_type h \<noteq> msg_type_reply"
  shows "dispatch os sock conn h (Some (p, d)) s =
    Some (True, send_callback conn ev d None (s\<lparr>conn_heap := (conn_heap s)(conn := Some (told h c))\<rparr>))"
proof -
  have "message_type h \<noteq> msg_type_close" using assms(3) by (rule event_not_close)
  then show ?thesis
    using assms by (simp add: dispatch_def match_reply_def update_conn_def told_def Let_def)
qed

text \<open>A socket that has nothing more for now: nothing happens.\<close>

lemma continue_recv_blocked:
  assumes "conn_heap s conn = Some c" "status_heap s p = Some st" "recv_status st b h (length got)"
    "os_recv os (clock s) (socket c) (msg_len h - length got) False = Err EWOULDBLOCK"
  shows "continue_recv os conn p s = Some (0, s\<lparr>clock := Suc (clock s),
    trace := trace s @ [Sys_recv (socket c) (msg_len h - length got) False], last_errno := EWOULDBLOCK\<rparr>)"
  using assms by (simp add: continue_recv_def sys_recv_def syscall_def recv_status_def get_errno_def Let_def)

lemma receiving_only_io:
  assumes "receiving conn c p b h got s" "only_io s s'"
  shows "receiving conn c p b h got s'"
  using assms lib_ok_only_io [OF assms(2)] only_io_fields [OF assms(2)]
  by (simp add: receiving_def tcp_peer_def)

text \<open>
  The arrays of the run loop and the reply contexts stay as they are, no connection goes away and
  nothing is sent.
\<close>

definition only_reads :: "mbox \<Rightarrow> mbox \<Rightarrow> bool" where
  "only_reads s s' \<longleftrightarrow> conns s' = conns s \<and> poll_fds s' = poll_fds s \<and> removals s' = removals s \<and>
     timeouts s' = timeouts s \<and> dom (conn_heap s) \<subseteq> dom (conn_heap s') \<and>
     (\<forall>q. map_option reply_contexts (status_heap s' q) = map_option reply_contexts (status_heap s q)) \<and>
     (\<forall>sock. sent_on sock (trace s') = sent_on sock (trace s))"

lemma only_reads_trans: "only_reads s t \<Longrightarrow> only_reads t u \<Longrightarrow> only_reads s u"
  unfolding only_reads_def by (metis subset_trans)

text \<open>Nothing is allocated, and no buffer changes but \<open>b\<close>.\<close>

definition others_kept :: "buf_id \<Rightarrow> mbox \<Rightarrow> mbox \<Rightarrow> bool" where
  "others_kept b s s' \<longleftrightarrow> next_id s' = next_id s \<and> (\<forall>q. q \<noteq> b \<longrightarrow> buf_heap s' q = buf_heap s q) \<and>
     only_reads s s'"

lemma others_kept_trans: "others_kept b s t \<Longrightarrow> others_kept b t u \<Longrightarrow> others_kept b s u"
  by (auto simp: others_kept_def intro: only_reads_trans)

text \<open>One read in the middle of a message.\<close>

lemma read_piece:
  assumes "receiving conn c p b h got s" "length got < msg_len h"
    "os_recv os (clock s) (socket c) (msg_len h - length got) False = Ok bs"
    "bs \<noteq> []" "length got + length bs < msg_len h"
  shows "\<exists>s'. read_from_socket os (socket c) conn s = Some (False, s') \<and>
    receiving conn c p b h (got @ bs) s' \<and> clock s' = Suc (clock s) \<and> pending s' = pending s \<and>
    others_kept b s s'"
proof -
  obtain st buf where r: "tcp_peer conn c p s" "status_heap s p = Some st" "buf_heap s b = Some buf"
    "recv_status st b h (length got)" "recv_buffer buf h got"
    using assms(1) by (rule receivingE)
  have c: "conn_heap s conn = Some c" "lib_ok s" using r(1) by (simp_all add: tcp_peer_def)
  let ?s = "recv_state (socket c) p st b buf h got bs s"
  have run: "continue_recv os conn p s = Some (0, ?s)"
    using continue_recv_data [OF c(1) r(2-5) assms(3,4)] assms(5) by simp
  from continue_recv_keeps [OF this c(2)] have "receiving conn c p b h (got @ bs) ?s"
    using recv_state_receiving [OF assms(1) r(2,3), of bs "socket c"] assms(5) by simp
  with read_in_progress(1) [OF assms(1,2) run] show ?thesis
    using r(2) by (simp add: recv_state_def pending_def others_kept_def only_reads_def)
qed

text \<open>The read that completes a message dispatches it, with the bytes that were received.\<close>

lemma read_completes:
  assumes "receiving conn c p b h got s" "length got < msg_len h"
    "os_recv os (clock s) (socket c) (msg_len h - length got) False = Ok bs"
    "length got + length bs = msg_len h"
  shows "\<exists>s' buf st. read_from_socket os (socket c) conn s =
      dispatch os (socket c) conn h (Some (p, \<lparr>num_bytes = msg_len h, data_bytes = Some (b, 0)\<rparr>)) s' \<and>
    tcp_peer conn c p s' \<and> pending s' = pending s \<and> buf_heap s' b = Some buf \<and> b_body buf = got @ bs \<and>
    status_heap s' p = Some st \<and> num_bytes (waiting_buffer st) = 0 \<and>
    clock s' = Suc (clock s) \<and> others_kept b s s'"
proof -
  obtain st buf where r: "tcp_peer conn c p s" "status_heap s p = Some st" "buf_heap s b = Some buf"
    "recv_status st b h (length got)" "recv_buffer buf h got"
    using assms(1) by (rule receivingE)
  have c: "conn_heap s conn = Some c" "lib_ok s" "protocol_type c = msg_tcp"
    using r(1) by (simp_all add: tcp_peer_def)
  have ne: "bs \<noteq> []" using assms(2,4) by auto
  let ?s = "recv_state (socket c) p st b buf h got bs s"
  have run: "continue_recv os conn p s = Some (1, ?s)"
    using continue_recv_data [OF c(1) r(2-5) assms(3) ne] assms(4) by simp
  have ok: "lib_ok ?s" by (rule continue_recv_keeps [OF run c(2)])
  have st: "status_heap ?s p = Some (st\<lparr>waiting_buffer :=
      \<lparr>num_bytes = msg_len h - length got - length bs, data_bytes = Some (b, length got + length bs)\<rparr>\<rparr>)"
    by (simp add: recv_state_def)
  have "recv_buffer (buf\<lparr>b_body := overwrite (b_body buf) (length got) bs\<rparr>) h (got @ bs)"
    using recv_buffer_write [OF r(5), of bs] assms(4) by simp
  then have body: "overwrite (b_body buf) (length got) bs = got @ bs"
    using assms(4) by (auto simp: recv_buffer_def)
  have tot: "total_buffer st = \<lparr>num_bytes = msg_len h, data_bytes = Some (b, 0)\<rparr>"
    using r(4) by (simp add: recv_status_def)
  let ?st = "\<lambda>st. st\<lparr>total_buffer := msg_no_data, waiting_buffer := msg_no_data\<rparr>"
  let ?s1 = "?s\<lparr>status_heap := (status_heap ?s)(p := Some (?st (the (status_heap ?s p))))\<rparr>"
  have "update_status p ?st ?s = Some ?s1" by (simp add: update_status_def st)
  from update_status_keeps(2) [OF this ok] have "lib_ok ?s1" .
  then have "tcp_peer conn c p ?s1" using r(1) by (simp add: tcp_peer_def recv_state_def)
  moreover have "read_from_socket os (socket c) conn s =
      dispatch os (socket c) conn h (Some (p, \<lparr>num_bytes = msg_len h, data_bytes = Some (b, 0)\<rparr>)) ?s1"
    using read_in_progress(2) [OF assms(1,2) run st] tot st by simp
  ultimately show ?thesis
    using body r(2)
    by (intro exI [of _ ?s1]) (auto simp: recv_state_def pending_def others_kept_def only_reads_def msg_no_data_def)
qed

text \<open>A message that is not a reply is announced.\<close>

lemma dispatch_told:
  assumes "tcp_peer conn c p s" "event_of_type (message_type h) = Some ev" "message_type h \<noteq> msg_type_reply"
  shows "\<exists>s'. dispatch os sock conn h (Some (p, d)) s = Some (True, s') \<and> tcp_peer conn (told h c) p s' \<and>
    pending s' = pending s @ [\<lparr>pc_conn = conn, pc_event = ev, pc_data = d, to_free = None\<rparr>] \<and>
    buf_heap s' = buf_heap s \<and> status_heap s' = status_heap s \<and> clock s' = clock s \<and> next_id s' = next_id s \<and>
    only_reads s s'"
proof -
  have c: "conn_heap s conn = Some c" "lib_ok s" "protocol_type c = msg_tcp"
    using assms(1) by (simp_all add: tcp_peer_def)
  let ?s = "send_callback conn ev d None (s\<lparr>conn_heap := (conn_heap s)(conn := Some (told h c))\<rparr>)"
  have run: "dispatch os sock conn h (Some (p, d)) s = Some (True, ?s)"
    by (rule dispatch_tcp [OF c(1,3) assms(2,3)])
  have "tcp_peer conn (told h c) p ?s"
    using dispatch_keeps [OF run c(2)] assms(1) by (auto simp: tcp_peer_def told_def address_of_conn_def)
  then show ?thesis
    using run lib_okD(1) [OF c(2)] by (auto simp: send_callback_pending only_reads_def)
qed

section \<open>A message in arbitrary pieces\<close>

text \<open>
  \<open>delivers os sock t left as\<close>: from call number \<open>t\<close> on, successive calls of \<open>recv\<close> for the \<open>left\<close>
  missing bytes give the answers \<open>as\<close>: a non-empty piece that fits, or "would block".
\<close>

fun delivers :: "os \<Rightarrow> int \<Rightarrow> nat \<Rightarrow> nat \<Rightarrow> bytes sysret list \<Rightarrow> bool" where
  "delivers os sock t left [] = True"
| "delivers os sock t left (a # as) \<longleftrightarrow> os_recv os t sock left False = a \<and>
     (case a of
        Ok bs \<Rightarrow> bs \<noteq> [] \<and> length bs \<le> left \<and> delivers os sock (Suc t) (left - length bs) as
      | Err e \<Rightarrow> e = EWOULDBLOCK \<and> delivers os sock (Suc t) left as)"

fun payload :: "bytes sysret list \<Rightarrow> bytes" where
  "payload [] = []"
| "payload (Ok bs # as) = bs @ payload as"
| "payload (Err e # as) = payload as"

text \<open>Several reads of the same socket, none of which completes a message.\<close>

fun read_partial :: "os \<Rightarrow> int \<Rightarrow> conn_ptr \<Rightarrow> nat \<Rightarrow> mbox \<Rightarrow> mbox option" where
  "read_partial os sock conn 0 s = Some s"
| "read_partial os sock conn (Suc n) s = do {
     (again, s) \<leftarrow> read_from_socket os sock conn s;
     req (\<not> again);
     read_partial os sock conn n s
   }"

lemma read_pieces:
  assumes "receiving conn c p b h got s" "delivers os (socket c) (clock s) (msg_len h - length got) as"
    "length got + length (payload as) < msg_len h"
  shows "\<exists>s'. read_partial os (socket c) conn (length as) s = Some s' \<and>
    receiving conn c p b h (got @ payload as) s' \<and> clock s' = clock s + length as \<and> pending s' = pending s \<and>
    others_kept b s s'"
  using assms
proof (induction as arbitrary: got s)
  case (Cons a as)
  have lt: "length got < msg_len h" using Cons.prems(3) by simp
  show ?case
  proof (cases a)
    case (Ok bs)
    with Cons.prems have bs: "os_recv os (clock s) (socket c) (msg_len h - length got) False = Ok bs"
      "bs \<noteq> []" "length got + length bs < msg_len h"
      "delivers os (socket c) (Suc (clock s)) (msg_len h - length (got @ bs)) as" by simp_all
    from read_piece [OF Cons.prems(1) lt bs(1-3)] obtain s1 where
      s1: "read_from_socket os (socket c) conn s = Some (False, s1)" "receiving conn c p b h (got @ bs) s1"
        "clock s1 = Suc (clock s)" "pending s1 = pending s" "others_kept b s s1" by blast
    from Cons.IH [OF s1(2)] s1 bs(4) Cons.prems(3) Ok show ?thesis by (auto intro: others_kept_trans)
  next
    case (Err e)
    with Cons.prems have e: "os_recv os (clock s) (socket c) (msg_len h - length got) False = Err EWOULDBLOCK"
      "delivers os (socket c) (Suc (clock s)) (msg_len h - length got) as" by auto
    obtain st buf where r: "tcp_peer conn c p s" "status_heap s p = Some st"
      "recv_status st b h (length got)" using Cons.prems(1) by (auto elim: receivingE)
    have c: "conn_heap s conn = Some c" using r(1) by (simp add: tcp_peer_def)
    let ?s = "s\<lparr>clock := Suc (clock s), trace := trace s @ [Sys_recv (socket c) (msg_len h - length got) False],
      last_errno := EWOULDBLOCK\<rparr>"
    from continue_recv_blocked [OF c r(2,3) e(1)]
    have "continue_recv os conn p s = Some (0, ?s)" .
    from read_in_progress(1) [OF Cons.prems(1) lt this]
    have "read_from_socket os (socket c) conn s = Some (False, ?s)" .
    moreover have "receiving conn c p b h got ?s"
      by (rule receiving_only_io [OF Cons.prems(1)]) (simp add: only_io_iff)
    moreover have "others_kept b s ?s" by (simp add: others_kept_def only_reads_def)
    ultimately show ?thesis using Cons.IH [of got ?s] e(2) Cons.prems(3) Err
      by (auto simp: pending_def intro: others_kept_trans)
  qed
qed (simp add: others_kept_def only_reads_def)

text \<open>
  However the network cuts and delays the bytes of a message, the reads before the last piece
  do nothing else, and the last one dispatches the message with exactly these bytes.
\<close>

lemma tcp_reassembly:
  assumes "receiving conn c p b h got s" "delivers os (socket c) (clock s) (msg_len h - length got) (as @ [Ok bs])"
    "got @ payload as @ bs = body" "length body = msg_len h"
  shows "\<exists>s1 s' buf st. read_partial os (socket c) conn (length as) s = Some s1 \<and> pending s1 = pending s \<and>
    read_from_socket os (socket c) conn s1 =
      dispatch os (socket c) conn h (Some (p, \<lparr>num_bytes = msg_len h, data_bytes = Some (b, 0)\<rparr>)) s' \<and>
    tcp_peer conn c p s' \<and> pending s' = pending s \<and> buf_heap s' b = Some buf \<and> b_body buf = body \<and>
    status_heap s' p = Some st \<and> num_bytes (waiting_buffer st) = 0 \<and>
    clock s' = clock s + length as + 1 \<and> others_kept b s s'"
proof -
  have split: "delivers os sock t left (as @ bs) \<longleftrightarrow> delivers os sock t left as \<and>
      delivers os sock (t + length as) (left - length (payload as)) bs" for sock t left as bs
    by (induction as arbitrary: t left) (auto split: sysret.splits)
  have d: "delivers os (socket c) (clock s) (msg_len h - length got) as"
    "os_recv os (clock s + length as) (socket c) (msg_len h - length (got @ payload as)) False = Ok bs" "bs \<noteq> []"
    using assms(2) by (auto simp: split)
  have lt: "length got + length (payload as) < msg_len h" using assms(3,4) d(3) by (cases bs) auto
  from read_pieces [OF assms(1) d(1) lt] obtain s1 where
    s1: "read_partial os (socket c) conn (length as) s = Some s1"
      "receiving conn c p b h (got @ payload as) s1" "clock s1 = clock s + length as" "pending s1 = pending s"
      "others_kept b s s1"
    by blast
  have "length (got @ payload as) + length bs = msg_len h" using assms(3,4) by auto
  from read_completes [OF s1(2) _ _ this, of os] d(2) lt s1(3) obtain s' buf st where
    r: "read_from_socket os (socket c) conn s1 =
        dispatch os (socket c) conn h (Some (p, \<lparr>num_bytes = msg_len h, data_bytes = Some (b, 0)\<rparr>)) s'"
      "tcp_peer conn c p s'" "pending s' = pending s1" "buf_heap s' b = Some buf"
      "b_body buf = (got @ payload as) @ bs" "status_heap s' p = Some st" "num_bytes (waiting_buffer st) = 0"
      "clock s' = Suc (clock s1)" "others_kept b s1 s'" by auto
  have "others_kept b s s'" by (rule others_kept_trans [OF s1(5) r(9)])
  then show ?thesis using s1(1,3,4) r assms(3) by auto
qed

section \<open>A new message\<close>

lemma host_header_of_network [simp]:
  "host_header (header_of_bytes (header_bytes (network_header t r n))) =
     \<lparr>message_type = t, hdr_reply_id = r, hdr_num_bytes = n\<rparr>"
  by simp

text \<open>
  \<open>header_waits os sock t nh\<close>: the next eight bytes of the stream are the header \<open>nh\<close>, which the
  peek at call \<open>t\<close> sees and the read at call \<open>t + 1\<close> takes.
\<close>

definition header_waits :: "os \<Rightarrow> int \<Rightarrow> nat \<Rightarrow> Header \<Rightarrow> bool" where
  "header_waits os sock t nh \<longleftrightarrow> os_recv os t sock header_len True = Ok (header_bytes nh) \<and>
     os_recv os (Suc t) sock header_len False = Ok (header_bytes nh)"

lemma header_bytes_ne [simp]: "header_bytes nh \<noteq> []"
  using length_header_bytes [of nh] by (auto simp: header_len_def simp del: length_header_bytes)

lemma overwrite_all [simp]: "length bs = length mem \<Longrightarrow> overwrite mem 0 bs = bs"
  by (simp add: overwrite_def)

definition header_state :: "conn_ptr \<Rightarrow> msg_Conn \<Rightarrow> Header \<Rightarrow> mbox \<Rightarrow> mbox" where
  "header_state conn c h s =
     s\<lparr>clock := Suc (Suc (clock s)),
       trace := trace s @ [Sys_recv (socket c) header_len True, Sys_recv (socket c) header_len False],
       conn_heap := (conn_heap s)(conn := Some (c\<lparr>reply_id := hdr_reply_id h\<rparr>))\<rparr>"

lemma read_header_tcp:
  assumes "conn_heap s conn = Some c" "protocol_type c = msg_tcp" "header_waits os (socket c) (clock s) nh"
  shows "read_header os (socket c) conn s =
    Some (Some (host_header nh), header_state conn c (host_header nh) s)"
  using assms
  by (simp add: read_header_def header_waits_def sys_recv_def syscall_def update_conn_def header_state_def
      Let_def header_len_def)

text \<open>The buffer of a new message.\<close>

definition begun_state :: "os \<Rightarrow> status_ptr \<Rightarrow> ConnStatus \<Rightarrow> Header \<Rightarrow> mbox \<Rightarrow> mbox" where
  "begun_state os p st h s =
     s\<lparr>clock := Suc (clock s), next_id := Suc (next_id s), trace := trace s @ [Sys_malloc (msg_len h)],
       status_heap := (status_heap s)(p := Some (st\<lparr>
         total_buffer := \<lparr>num_bytes = msg_len h, data_bytes = Some (next_id s, 0)\<rparr>,
         waiting_buffer := \<lparr>num_bytes = msg_len h, data_bytes = Some (next_id s, 0)\<rparr>\<rparr>)),
       buf_heap := (buf_heap s)(next_id s := Some
         \<lparr>b_meta = (os_malloc_meta os (clock s))\<lparr>md_header := h\<rparr>,
          b_body = map (os_malloc_byte os (clock s)) [0..<msg_len h]\<rparr>)\<rparr>"

lemma new_conn_status_buffer_eq:
  assumes "status_heap s p = Some st"
  shows "new_conn_status_buffer os p h s = Some (begun_state os p st h s)"
  using assms
  by (simp add: new_conn_status_buffer_def msg_new_data_space_def update_status_def update_buffer_def
      buffer_of_def begun_state_def msg_len_def Let_def)

text \<open>
  Once its header has arrived, a new message is like one in progress of which nothing has arrived.
\<close>

lemma read_new_message:
  assumes "tcp_peer conn c p s" "status_heap s p = Some st" "num_bytes (waiting_buffer st) = 0"
    "header_waits os (socket c) (clock s) nh" "h = host_header nh"
    "message_type h \<noteq> msg_type_close" "0 < msg_len h"
  shows "\<exists>b s0. receiving conn (c\<lparr>reply_id := hdr_reply_id h\<rparr>) p b h [] s0 \<and> clock s0 = clock s + 3 \<and>
    pending s0 = pending s \<and> read_from_socket os (socket c) conn s = read_from_socket os (socket c) conn s0 \<and>
    b = next_id s \<and> next_id s0 = Suc b \<and> (\<forall>q. q \<noteq> b \<longrightarrow> buf_heap s0 q = buf_heap s q) \<and> only_reads s s0"
proof -
  let ?c = "c\<lparr>reply_id := hdr_reply_id h\<rparr>"
  let ?s1 = "header_state conn c h s"
  let ?s0 = "begun_state os p st h ?s1"
  have c: "lib_ok s" "conn_heap s conn = Some c" "protocol_type c = msg_tcp" "\<not> for_listening c"
    "map_lookup (conn_status s) (address_of_conn c) = Some p"
    using assms(1) by (simp_all add: tcp_peer_def)
  have hdr: "read_header os (socket c) conn s = Some (Some h, ?s1)"
    using read_header_tcp [OF c(2,3) assms(4)] assms(5) by simp
  have ok1: "lib_ok ?s1" by (rule read_header_keeps [OF hdr c(1)])
  have st1: "status_heap ?s1 p = Some st" using assms(2) by (simp add: header_state_def)
  note new = new_conn_status_buffer_eq [OF st1, of os h]
  have ok0: "lib_ok ?s0" by (rule new_conn_status_buffer_keeps [OF new ok1])
  have addr: "address_of_conn ?c = address_of_conn c" by (simp add: address_of_conn_def)
  have peer: "tcp_peer conn ?c p ?s0"
    using c ok0 addr by (simp add: tcp_peer_def begun_state_def header_state_def)
  have recv: "receiving conn ?c p (next_id s) h [] ?s0"
    using peer by (simp add: receiving_def recv_status_def recv_buffer_def begun_state_def header_state_def)
  have seen: "remote_address_seen os conn s = Some (p, s)"
    by (rule remote_address_known [OF lib_okD(7) [OF c(1)] c(2,5)])
  have seen0: "remote_address_seen os conn ?s0 = Some (p, ?s0)"
    using peer by (intro remote_address_known) (auto simp: tcp_peer_def lib_okD)
  have st0: "status_heap ?s0 p = Some (st\<lparr>
         total_buffer := \<lparr>num_bytes = msg_len h, data_bytes = Some (next_id s, 0)\<rparr>,
         waiting_buffer := \<lparr>num_bytes = msg_len h, data_bytes = Some (next_id s, 0)\<rparr>\<rparr>)"
    and buf0: "buf_heap ?s0 (next_id s) = Some
         \<lparr>b_meta = (os_malloc_meta os (clock ?s1))\<lparr>md_header := h\<rparr>,
          b_body = map (os_malloc_byte os (clock ?s1)) [0..<msg_len h]\<rparr>"
    by (simp_all add: begun_state_def header_state_def)
  have "read_tcp os (socket c) conn s = read_tcp os (socket c) conn ?s0"
    using assms(6,7) unfolding read_tcp_def
    by (simp add: seen seen0 assms(2,3) st0 buf0 hdr new buffer_of_def)
  then have "read_from_socket os (socket c) conn s = read_from_socket os (socket c) conn ?s0"
    using c peer by (simp add: read_from_socket_def tcp_peer_def)
  moreover have "clock ?s0 = clock s + 3" "pending ?s0 = pending s" "next_id ?s0 = Suc (next_id s)"
    "\<forall>q. q \<noteq> next_id s \<longrightarrow> buf_heap ?s0 q = buf_heap s q" "only_reads s ?s0"
    using assms(2) by (auto simp: begun_state_def header_state_def pending_def only_reads_def sent_on_def)
  ultimately show ?thesis using recv by blast
qed

text \<open>
  A whole message from an idle connection: the header, then the body in any pieces, then the dispatch.
\<close>

lemma tcp_message_gathers:
  assumes "tcp_peer conn c p s" "status_heap s p = Some st" "num_bytes (waiting_buffer st) = 0"
    "header_waits os (socket c) (clock s) (network_header t r (of_nat (length body)))"
    "0 < length body" "length body < 2 ^ 32" "t \<noteq> msg_type_close"
    "delivers os (socket c) (clock s + 3) (length body) (as @ [Ok bs])" "payload as @ bs = body"
    "h = \<lparr>message_type = t, hdr_reply_id = r, hdr_num_bytes = of_nat (length body)\<rparr>"
  shows "\<exists>s1 s' buf st'. read_partial os (socket c) conn (length as) s = Some s1 \<and> pending s1 = pending s \<and>
    read_from_socket os (socket c) conn s1 =
      dispatch os (socket c) conn h (Some (p, \<lparr>num_bytes = length body, data_bytes = Some (next_id s, 0)\<rparr>)) s' \<and>
    tcp_peer conn (c\<lparr>reply_id := r\<rparr>) p s' \<and> pending s' = pending s \<and>
    buf_heap s' (next_id s) = Some buf \<and> b_body buf = body \<and>
    next_id s' = Suc (next_id s) \<and> (\<forall>q. q \<noteq> next_id s \<longrightarrow> buf_heap s' q = buf_heap s q) \<and>
    clock s' = clock s + length as + 4 \<and>
    status_heap s' p = Some st' \<and> num_bytes (waiting_buffer st') = 0 \<and> only_reads s s'"
proof -
  let ?b = "next_id s" and ?c = "c\<lparr>reply_id := r\<rparr>"
  have len: "msg_len h = length body"
    using assms(6,10) by (simp add: msg_len_def unsigned_of_nat take_bit_nat_eq_self)
  have hdr: "h = host_header (network_header t r (of_nat (length body)))" "message_type h \<noteq> msg_type_close"
    using assms(7,10) by (simp_all add: host_network_header)
  from read_new_message [OF assms(1-4) hdr] len assms(5,10) obtain s0 where
    s0: "receiving conn ?c p ?b h [] s0" "clock s0 = clock s + 3" "pending s0 = pending s"
      "read_from_socket os (socket c) conn s = read_from_socket os (socket c) conn s0"
      "next_id s0 = Suc ?b" "\<forall>q. q \<noteq> ?b \<longrightarrow> buf_heap s0 q = buf_heap s q" "only_reads s s0"
    by auto
  have "delivers os (socket ?c) (clock s0) (msg_len h - length []) (as @ [Ok bs])" "[] @ payload as @ bs = body"
    using assms(8,9) s0(2) len by simp_all
  from tcp_reassembly [OF s0(1) this] len obtain s1 s' buf st' where
    r: "read_partial os (socket c) conn (length as) s0 = Some s1" "pending s1 = pending s0"
      "read_from_socket os (socket c) conn s1 =
        dispatch os (socket c) conn h (Some (p, \<lparr>num_bytes = length body, data_bytes = Some (?b, 0)\<rparr>)) s'"
      "tcp_peer conn ?c p s'" "pending s' = pending s0" "buf_heap s' ?b = Some buf" "b_body buf = body"
      "status_heap s' p = Some st'" "num_bytes (waiting_buffer st') = 0"
      "clock s' = clock s0 + length as + 1" "others_kept ?b s0 s'" by auto
  obtain s2 where s2: "read_partial os (socket c) conn (length as) s = Some s2" "pending s2 = pending s"
    "read_from_socket os (socket c) conn s2 = read_from_socket os (socket c) conn s1"
  proof (cases as)
    case Nil
    with r(1) s0(3,4) that [of s] show ?thesis by simp
  next
    case (Cons a as')
    then have "read_partial os (socket c) conn (length as) s = read_partial os (socket c) conn (length as) s0"
      by (simp add: s0(4))
    with r(1,2) s0(3) that [of s1] show ?thesis by simp
  qed
  have "next_id s' = Suc ?b" "\<forall>q. q \<noteq> ?b \<longrightarrow> buf_heap s' q = buf_heap s q" "only_reads s s'"
    using r(11) s0(5-7) by (auto simp: others_kept_def intro: only_reads_trans)
  moreover have "clock s' = clock s + length as + 4" using r(10) s0(2) by simp
  ultimately show ?thesis using s2 r(3-9) s0(3)
    by (intro exI [of _ s2] exI [of _ s'] exI [of _ buf] exI [of _ st']) simp
qed

text \<open>When it is not a reply, it is announced and the connection is idle again.\<close>

lemma tcp_message_facts:
  assumes "tcp_peer conn c p s" "status_heap s p = Some st" "num_bytes (waiting_buffer st) = 0"
    "header_waits os (socket c) (clock s) (network_header t r (of_nat (length body)))"
    "0 < length body" "length body < 2 ^ 32" "event_of_type t = Some ev" "t \<noteq> msg_type_reply"
    "delivers os (socket c) (clock s + 3) (length body) (as @ [Ok bs])" "payload as @ bs = body"
  shows "\<exists>s1 s' buf st' c'. read_partial os (socket c) conn (length as) s = Some s1 \<and> pending s1 = pending s \<and>
    read_from_socket os (socket c) conn s1 = Some (True, s') \<and>
    pending s' = pending s @ [\<lparr>pc_conn = conn, pc_event = ev,
      pc_data = \<lparr>num_bytes = length body, data_bytes = Some (next_id s, 0)\<rparr>, to_free = None\<rparr>] \<and>
    buf_heap s' (next_id s) = Some buf \<and> b_body buf = body \<and>
    next_id s' = Suc (next_id s) \<and> (\<forall>q. q \<noteq> next_id s \<longrightarrow> buf_heap s' q = buf_heap s q) \<and>
    clock s' = clock s + length as + 4 \<and> tcp_peer conn c' p s' \<and> socket c' = socket c \<and>
    status_heap s' p = Some st' \<and> num_bytes (waiting_buffer st') = 0 \<and> only_reads s s' \<and>
    reply_id c' = (if t = msg_type_one_way then 0 else r)"
proof -
  let ?h = "\<lparr>message_type = t, hdr_reply_id = r, hdr_num_bytes = of_nat (length body)\<rparr>"
  let ?c = "c\<lparr>reply_id := r\<rparr>"
  have ev: "event_of_type (message_type ?h) = Some ev" "message_type ?h \<noteq> msg_type_reply"
    using assms(7,8) by simp_all
  from tcp_message_gathers [OF assms(1-6) event_not_close [OF assms(7)] assms(9,10) refl] obtain s1 s2 buf st' where
    g: "read_partial os (socket c) conn (length as) s = Some s1" "pending s1 = pending s"
      "read_from_socket os (socket c) conn s1 =
        dispatch os (socket c) conn ?h (Some (p, \<lparr>num_bytes = length body, data_bytes = Some (next_id s, 0)\<rparr>)) s2"
      "tcp_peer conn ?c p s2" "pending s2 = pending s" "buf_heap s2 (next_id s) = Some buf" "b_body buf = body"
      "next_id s2 = Suc (next_id s)" "\<forall>q. q \<noteq> next_id s \<longrightarrow> buf_heap s2 q = buf_heap s q"
      "clock s2 = clock s + length as + 4" "status_heap s2 p = Some st'" "num_bytes (waiting_buffer st') = 0"
      "only_reads s s2" by blast
  from dispatch_told [OF g(4) ev] obtain s' where
    s': "dispatch os (socket c) conn ?h (Some (p, \<lparr>num_bytes = length body, data_bytes = Some (next_id s, 0)\<rparr>)) s2 =
        Some (True, s')" "tcp_peer conn (told ?h ?c) p s'"
      "pending s' = pending s2 @ [\<lparr>pc_conn = conn, pc_event = ev,
         pc_data = \<lparr>num_bytes = length body, data_bytes = Some (next_id s, 0)\<rparr>, to_free = None\<rparr>]"
      "buf_heap s' = buf_heap s2" "status_heap s' = status_heap s2" "clock s' = clock s2" "next_id s' = next_id s2"
      "only_reads s2 s'" by blast
  have "socket (told ?h ?c) = socket c" "reply_id (told ?h ?c) = (if t = msg_type_one_way then 0 else r)"
    by (simp_all add: told_def)
  moreover have "only_reads s s'" by (rule only_reads_trans [OF g(13) s'(8)])
  ultimately show ?thesis using g s'
    by (intro exI [of _ s1] exI [of _ s'] exI [of _ buf] exI [of _ st'] exI [of _ "told ?h ?c"]) simp
qed

lemma tcp_message:
  assumes "tcp_peer conn c p s" "status_heap s p = Some st" "num_bytes (waiting_buffer st) = 0"
    "header_waits os (socket c) (clock s) (network_header t r (of_nat (length body)))"
    "0 < length body" "length body < 2 ^ 32" "event_of_type t = Some ev" "t \<noteq> msg_type_reply"
    "delivers os (socket c) (clock s + 3) (length body) (as @ [Ok bs])" "payload as @ bs = body"
  shows "\<exists>b s1 s' buf. read_partial os (socket c) conn (length as) s = Some s1 \<and> pending s1 = pending s \<and>
    read_from_socket os (socket c) conn s1 = Some (True, s') \<and>
    pending s' = pending s @ [\<lparr>pc_conn = conn, pc_event = ev,
      pc_data = \<lparr>num_bytes = length body, data_bytes = Some (b, 0)\<rparr>, to_free = None\<rparr>] \<and>
    buf_heap s' b = Some buf \<and> b_body buf = body"
  using tcp_message_facts [OF assms] by blast

end
