(* ===== verification/Replies.thy ===== *)
theory Replies
  imports Receive Runloop
begin

text \<open>
  Requests and replies: what \<open>msg_get\<close> registers, how the reading side finds the reply context of a
  reply, and what happens to requests whose time is up.
\<close>

section \<open>Reply contexts of a status\<close>

definition live_status :: "mbox \<Rightarrow> status_ptr \<Rightarrow> bool" where
  "live_status s p \<longleftrightarrow> (\<exists>st m. status_heap s p = Some st \<and> reply_contexts st = Some m \<and> map_inv reply_keys m)"

definition reply_lookup :: "mbox \<Rightarrow> status_ptr \<Rightarrow> u16 \<Rightarrow> vptr option" where
  "reply_lookup s p r = do {
     st \<leftarrow> status_heap s p;
     m \<leftarrow> reply_contexts st;
     map_lookup m (reply_id_key r)
   }"

text \<open>Everything in a status but the reply contexts.\<close>

definition status_rest :: "mbox \<Rightarrow> status_ptr \<Rightarrow> ConnStatus option" where
  "status_rest s p = map_option (\<lambda>st. st\<lparr>reply_contexts := None\<rparr>) (status_heap s p)"

lemma live_status_lookup: "status_ok s \<Longrightarrow> map_lookup (conn_status s) a = Some p \<Longrightarrow> live_status s p"
  unfolding live_status_def by (metis status_ok_lookup)

lemma reply_context_get_eq: "live_status s p \<Longrightarrow> reply_context_get p r s = Some (reply_lookup s p r)"
  using cmap.get_lookup [OF _ reply_key_in]
  by (fastforce simp: live_status_def reply_context_get_def reply_lookup_def option.map_comp comp_def
      option.map_ident)

lemma status_heap_cong:
  "status_heap s' = status_heap s \<Longrightarrow> live_status s' p = live_status s p"
  "status_heap s' = status_heap s \<Longrightarrow> reply_lookup s' p r = reply_lookup s p r"
  "status_heap s' = status_heap s \<Longrightarrow> status_rest s' p = status_rest s p"
  by (simp_all add: live_status_def reply_lookup_def status_rest_def)

lemma live_update:
  assumes "live_status s p" "\<And>m. map_inv reply_keys m \<Longrightarrow> \<exists>m'. op m = Some m' \<and> map_inv reply_keys m' \<and>
      (\<forall>r. map_lookup m' (reply_id_key r) = g r (map_lookup m (reply_id_key r)))"
    "\<And>s. run s = do { st \<leftarrow> status_heap s p; m \<leftarrow> reply_contexts st; m \<leftarrow> op m;
      update_status p (\<lambda>st. st\<lparr>reply_contexts := Some m\<rparr>) s }"
  shows "\<exists>f. run s = Some (s\<lparr>status_heap := f\<rparr>) \<and> live_status (s\<lparr>status_heap := f\<rparr>) p \<and>
    (\<forall>r. reply_lookup (s\<lparr>status_heap := f\<rparr>) p r = g r (reply_lookup s p r)) \<and>
    (\<forall>q. status_rest (s\<lparr>status_heap := f\<rparr>) q = status_rest s q) \<and> (\<forall>q. q \<noteq> p \<longrightarrow> f q = status_heap s q)"
proof -
  obtain st m where st: "status_heap s p = Some st" "reply_contexts st = Some m" "map_inv reply_keys m"
    using assms(1) by (auto simp: live_status_def)
  from assms(2) [OF st(3)] obtain m' where m': "op m = Some m'" "map_inv reply_keys m'"
    "\<forall>r. map_lookup m' (reply_id_key r) = g r (map_lookup m (reply_id_key r))" by blast
  let ?f = "(status_heap s)(p := Some (st\<lparr>reply_contexts := Some m'\<rparr>))"
  have "run s = Some (s\<lparr>status_heap := ?f\<rparr>)"
    using st m' by (simp add: assms(3) update_status_def)
  then show ?thesis
    using st m' by (intro exI [of _ ?f]) (auto simp: live_status_def reply_lookup_def status_rest_def)
qed

lemma reply_context_set_facts:
  assumes "live_status s p"
  shows "\<exists>f. reply_context_set p r v s = Some (s\<lparr>status_heap := f\<rparr>) \<and> live_status (s\<lparr>status_heap := f\<rparr>) p \<and>
    (\<forall>r'. reply_lookup (s\<lparr>status_heap := f\<rparr>) p r' = (if r' = r then Some v else reply_lookup s p r')) \<and>
    (\<forall>q. status_rest (s\<lparr>status_heap := f\<rparr>) q = status_rest s q) \<and> (\<forall>q. q \<noteq> p \<longrightarrow> f q = status_heap s q)"
proof (rule live_update [where g = "\<lambda>r' x. if r' = r then Some v else x", OF assms])
  fix m :: "(vptr, vptr) cmap" assume "map_inv reply_keys m"
  from cmap.put_lookup [OF this reply_key_in [of r], of v]
  show "\<exists>m'. map__set m (reply_id_key r) v = Some m' \<and> map_inv reply_keys m' \<and>
    (\<forall>r'. map_lookup m' (reply_id_key r') = (if r' = r then Some v else map_lookup m (reply_id_key r')))"
    by auto
qed (simp add: reply_context_set_def)

lemma reply_context_unset_facts:
  assumes "live_status s p"
  shows "\<exists>f. reply_context_unset p r s = Some (s\<lparr>status_heap := f\<rparr>) \<and> live_status (s\<lparr>status_heap := f\<rparr>) p \<and>
    (\<forall>r'. reply_lookup (s\<lparr>status_heap := f\<rparr>) p r' = (if r' = r then None else reply_lookup s p r')) \<and>
    (\<forall>q. status_rest (s\<lparr>status_heap := f\<rparr>) q = status_rest s q) \<and> (\<forall>q. q \<noteq> p \<longrightarrow> f q = status_heap s q)"
proof (rule live_update [where g = "\<lambda>r' x. if r' = r then None else x", OF assms])
  fix m :: "(vptr, vptr) cmap" assume "map_inv reply_keys m"
  from cmap.unset_lookup [OF this reply_key_in [of r]]
  show "\<exists>m'. map__unset m (reply_id_key r) = Some m' \<and> map_inv reply_keys m' \<and>
    (\<forall>r'. map_lookup m' (reply_id_key r') = (if r' = r then None else map_lookup m (reply_id_key r')))"
    by auto
qed (simp add: reply_context_unset_def)

section \<open>Matching a reply\<close>

definition timeout_list :: "mbox \<Rightarrow> Timeout list" where
  "timeout_list s = array_list (timeouts s)"

text \<open>
  A reply whose id is registered: the connection gets its context, the id and its timeout are gone.
\<close>

lemma match_reply_known:
  assumes "message_type h = msg_type_reply" "live_status s p" "reply_lookup s p (hdr_reply_id h) = Some v"
    "array_inv (timeouts s)" "conn_heap s conn = Some c"
  shows "\<exists>s'. match_reply os conn h p d False s = Some (True, s') \<and>
    conn_heap s' conn = Some (c\<lparr>reply_context := v, reply_id := 0\<rparr>) \<and>
    reply_lookup s' p = (reply_lookup s p)(hdr_reply_id h := None) \<and>
    timeout_list s' = remove_first_match (\<lambda>t. t_status t = p \<and> t_reply_id t = hdr_reply_id h) (timeout_list s) \<and>
    pending s' = pending s \<and> buf_heap s' = buf_heap s"
proof -
  let ?r = "hdr_reply_id h"
  from remove_timeout_facts [OF assms(4), of p ?r] obtain a where
    a: "remove_timeout p ?r s = Some (s\<lparr>timeouts := a\<rparr>)" "array_list a =
      remove_first_match (\<lambda>t. t_status t = p \<and> t_reply_id t = ?r) (array_list (timeouts s))" by auto
  let ?s1 = "s\<lparr>timeouts := a, conn_heap := (conn_heap s)(conn := Some (c\<lparr>reply_context := v\<rparr>))\<rparr>"
  have up: "update_conn conn (\<lambda>c. c\<lparr>reply_context := v\<rparr>) (s\<lparr>timeouts := a\<rparr>) = Some ?s1"
    using assms(5) by (simp add: update_conn_def)
  have "live_status ?s1 p" using assms(2) by (simp add: live_status_def)
  from reply_context_unset_facts [OF this, of ?r] obtain f where
    f: "reply_context_unset p ?r ?s1 = Some (?s1\<lparr>status_heap := f\<rparr>)"
      "\<forall>r'. reply_lookup (?s1\<lparr>status_heap := f\<rparr>) p r' = (if r' = ?r then None else reply_lookup ?s1 p r')"
    by blast
  let ?s2 = "?s1\<lparr>status_heap := f\<rparr>"
  let ?s3 = "?s2\<lparr>conn_heap := (conn_heap ?s2)(conn := Some (c\<lparr>reply_context := v, reply_id := 0\<rparr>))\<rparr>"
  have "match_reply os conn h p d False s = Some (True, ?s3)"
    using assms a(1) up f(1) by (simp add: match_reply_def reply_context_get_eq update_conn_def)
  moreover have "reply_lookup ?s3 p = (reply_lookup s p)(?r := None)"
    using f(2) by (intro ext) (simp add: reply_lookup_def)
  ultimately show ?thesis using a(2) by (auto simp: timeout_list_def pending_def)
qed

text \<open>A reply that nobody asked for: one error, which frees the message; nothing else changes.\<close>

lemma match_reply_unknown:
  assumes "message_type h = msg_type_reply" "live_status s p" "reply_lookup s p (hdr_reply_id h) = None"
    "buffer_of d = Some b"
  shows "match_reply os conn h p d udp s =
    Some (False, error_state os conn ''Unrecognized reply_id'' (Some (BufPtr b)) s)"
  using assms by (simp add: match_reply_def reply_context_get_eq send_callback_error_eq)

section \<open>Asking\<close>

text \<open>A message that the user may send: it starts a live buffer that is long enough.\<close>

definition sendable :: "msg_Data \<Rightarrow> buf_id \<Rightarrow> buffer \<Rightarrow> mbox \<Rightarrow> bool" where
  "sendable d b buf s \<longleftrightarrow> data_bytes d = Some (b, 0) \<and> buf_heap s b = Some buf \<and>
     num_bytes d \<le> length (b_body buf)"

definition with_header :: "u16 \<Rightarrow> u16 \<Rightarrow> msg_Data \<Rightarrow> buffer \<Rightarrow> buffer" where
  "with_header t r d buf =
     buf\<lparr>b_meta := (b_meta buf)\<lparr>md_header := network_header t r (of_nat (num_bytes d))\<rparr>\<rparr>"

lemma set_header_eq:
  assumes "sendable d b buf s"
  shows "set_header d t r (of_nat (num_bytes d)) s =
      Some (s\<lparr>buf_heap := (buf_heap s)(b := Some (with_header t r d buf))\<rparr>)"
    and "sendable d b (with_header t r d buf) (s\<lparr>buf_heap := (buf_heap s)(b := Some (with_header t r d buf))\<rparr>)"
  using assms by (simp_all add: sendable_def set_header_def update_buffer_def buffer_of_def with_header_def)

lemma send_data_returns:
  assumes "sendable d b buf s" "conn_heap s conn = Some c"
    "send_accepts os (socket c)" "send_progress os (socket c)"
  shows "\<exists>r s'. send_data os conn d s = Some (r, s')"
proof -
  obtain out where "packet d s = Some out"
    using assms(1) by (auto simp: sendable_def packet_def buffer_of_def)
  moreover obtain r s' where "send_loop os (socket c) out s = Some (r, s')"
    using send_loop_returns [OF assms(3,4)] by blast
  ultimately show ?thesis
    using assms(2) by (auto simp: send_data_def send_all_def Let_def split: prod.split)
qed

text \<open>
  A request over a known connection: its id is the next one of the remote address, its context is
  registered under that id, and then the message is sent.
\<close>

lemma msg_get_run:
  assumes "lib_ok s" "conn_heap s conn = Some c" "map_lookup (conn_status s) (address_of_conn c) = Some p"
    "status_heap s p = Some st" "rid = next_reply_id st" "sendable d b buf s"
    "send_accepts os (socket c)" "send_progress os (socket c)"
  obtains r f s2 where
    "send_data os conn d (s\<lparr>status_heap := f,
       buf_heap := (buf_heap s)(b := Some (with_header msg_type_request rid d buf))\<rparr>) = Some (r, s2)"
    "msg_get os conn d ctx s =
      (case r of Some g \<Rightarrow> send_callback_os_error os conn g None s2 | None \<Rightarrow> Some (add_timeout os conn p rid s2))"
    "\<forall>s'. status_heap s' = f \<longrightarrow> live_status s' p \<and> reply_lookup s' p = (reply_lookup s p)(rid \<mapsto> ctx) \<and>
      (\<exists>st'. status_heap s' p = Some st' \<and> next_reply_id st' = rid + 1 \<and> waiting_buffer st' = waiting_buffer st)"
proof -
  note ok = lib_okD [OF assms(1)]
  have stat: "status_of_conn conn s = Some (Some p)"
    using status_of_conn_eq [OF ok(7) assms(2)] assms(3) by simp
  let ?s0 = "s\<lparr>status_heap := (status_heap s)(p := Some (st\<lparr>next_reply_id := next_reply_id st + 1\<rparr>))\<rparr>"
  have l: "live_status ?s0 p" "reply_lookup ?s0 p = reply_lookup s p"
    using live_status_lookup [OF ok(7) assms(3)] assms(4)
    by (auto simp: live_status_def reply_lookup_def)
  from reply_context_set_facts [OF l(1), of rid ctx] obtain f where
    f: "reply_context_set p rid ctx ?s0 = Some (?s0\<lparr>status_heap := f\<rparr>)" "live_status (?s0\<lparr>status_heap := f\<rparr>) p"
      "\<forall>r'. reply_lookup (?s0\<lparr>status_heap := f\<rparr>) p r' = (if r' = rid then Some ctx else reply_lookup ?s0 p r')"
      "\<forall>q. status_rest (?s0\<lparr>status_heap := f\<rparr>) q = status_rest ?s0 q" by blast
  have "map_option (\<lambda>st. st\<lparr>reply_contexts := None\<rparr>) (f p) =
      Some (st\<lparr>next_reply_id := rid + 1, reply_contexts := None\<rparr>)"
    using f(4) [THEN spec, of p] assms(5) by (simp add: status_rest_def)
  then obtain st' where st': "f p = Some st'"
    "st'\<lparr>reply_contexts := None\<rparr> = st\<lparr>next_reply_id := rid + 1, reply_contexts := None\<rparr>" by auto
  have nid: "next_reply_id st' = rid + 1" "waiting_buffer st' = waiting_buffer st"
    using arg_cong [OF st'(2), of next_reply_id] arg_cong [OF st'(2), of waiting_buffer] by simp_all
  have "sendable d b buf (s\<lparr>status_heap := f\<rparr>)" using assms(6) by (simp add: sendable_def)
  note hdr = set_header_eq [OF this, of msg_type_request rid]
  let ?s1 = "s\<lparr>status_heap := f, buf_heap := (buf_heap s)(b := Some (with_header msg_type_request rid d buf))\<rparr>"
  obtain r s2 where s2: "send_data os conn d ?s1 = Some (r, s2)"
    using send_data_returns [OF hdr(2), of conn c os] assms(2,7,8) by auto
  have run: "msg_get os conn d ctx s =
      (case r of Some g \<Rightarrow> send_callback_os_error os conn g None s2 | None \<Rightarrow> Some (add_timeout os conn p rid s2))"
    using stat assms(2,4) assms(5) [symmetric] f(1) hdr(1) s2
    by (simp add: msg_get_def update_status_def Let_def split: option.split)
  have lookup: "reply_lookup ?s1 p = (reply_lookup s p)(rid \<mapsto> ctx)"
    using f(3) l(2) by (auto simp: reply_lookup_def fun_eq_iff)
  have "live_status s' p \<and> reply_lookup s' p = (reply_lookup s p)(rid \<mapsto> ctx) \<and>
      (\<exists>st'. status_heap s' p = Some st' \<and> next_reply_id st' = rid + 1 \<and> waiting_buffer st' = waiting_buffer st)"
    if "status_heap s' = f" for s'
    using that f(2) lookup st'(1) nid status_heap_cong [of s' ?s1 p] by (auto simp: live_status_def fun_eq_iff)
  with that [OF s2 run] show thesis by blast
qed

text \<open>Either the message was sent, and its timeout is one second away, or one error is queued.\<close>

lemma msg_get_facts:
  assumes "lib_ok s" "conn_heap s conn = Some c" "map_lookup (conn_status s) (address_of_conn c) = Some p"
    "status_heap s p = Some st" "rid = next_reply_id st" "sendable d b buf s"
    "send_accepts os (socket c)" "send_progress os (socket c)"
  shows "\<exists>s'. msg_get os conn d ctx s = Some s' \<and> live_status s' p \<and> conn_heap s' = conn_heap s \<and>
    reply_lookup s' p = (reply_lookup s p)(rid \<mapsto> ctx) \<and>
    (\<exists>st'. status_heap s' p = Some st' \<and> next_reply_id st' = rid + 1 \<and> waiting_buffer st' = waiting_buffer st) \<and>
    ((\<exists>t. timeout_list s' = timeout_list s @ [make_timeout (t + 1000000) conn p rid] \<and> pending s' = pending s) \<or>
     (\<exists>data. timeout_list s' = timeout_list s \<and> pending s' = pending s @
        [\<lparr>pc_conn = conn, pc_event = msg_error, pc_data = data, to_free = None\<rparr>]))"
proof -
  note ok = lib_okD [OF assms(1)]
  obtain r f s2 where
    s2: "send_data os conn d (s\<lparr>status_heap := f,
       buf_heap := (buf_heap s)(b := Some (with_header msg_type_request rid d buf))\<rparr>) = Some (r, s2)"
    "msg_get os conn d ctx s =
      (case r of Some g \<Rightarrow> send_callback_os_error os conn g None s2 | None \<Rightarrow> Some (add_timeout os conn p rid s2))"
    "\<forall>s'. status_heap s' = f \<longrightarrow> live_status s' p \<and> reply_lookup s' p = (reply_lookup s p)(rid \<mapsto> ctx) \<and>
      (\<exists>st'. status_heap s' p = Some st' \<and> next_reply_id st' = rid + 1 \<and> waiting_buffer st' = waiting_buffer st)"
    by (rule msg_get_run [OF assms])
  note io = only_io_fields [OF send_data_io [OF s2(1)]]
  have inv: "array_inv (timeouts s2)" "array_inv (immediate_callbacks s2)" using io(2,6) ok(1,5) by simp_all
  note view = s2(3) [rule_format]
  show ?thesis
  proof (cases r)
    case None
    let ?s3 = "add_timeout os conn p rid s2"
    have "status_heap ?s3 = f" using io by (simp add: add_timeout_def now_def)
    moreover have "timeout_list ?s3 = timeout_list s @ [make_timeout (os_time os (clock s2) + 1000000) conn p rid]"
      "pending ?s3 = pending s" "conn_heap ?s3 = conn_heap s"
      using io inv by (simp_all add: add_timeout_def now_def udp_timeout_sec_def timeout_list_def pending_def array_simps)
    ultimately show ?thesis using s2(2) None view [of ?s3] by auto
  next
    case (Some g)
    define msg where "msg = snprintf 1024 (g @ '': '' @ err_str os s2)"
    let ?s3 = "error_state os conn msg None s2"
    have "status_heap ?s3 = f" "conn_heap ?s3 = conn_heap s" "timeout_list ?s3 = timeout_list s"
      using io by (simp_all add: timeout_list_def)
    moreover have "\<exists>data. pending ?s3 = pending s @
        [\<lparr>pc_conn = conn, pc_event = msg_error, pc_data = data, to_free = None\<rparr>]"
      using error_state_pending(1) [OF inv(2), of os conn msg None] io by (auto simp: pending_def)
    moreover have "msg_get os conn d ctx s = Some ?s3"
      using s2(2) Some by (simp add: send_callback_os_error_eq msg_def)
    ultimately show ?thesis using view [of ?s3] by auto
  qed
qed

section \<open>Timeouts\<close>

text \<open>What a pending call will do, apart from its data.\<close>

definition brief :: "PendingCall \<Rightarrow> conn_ptr \<times> msg_Event \<times> heap_ptr option" where
  "brief pc = (pc_conn pc, pc_event pc, to_free pc)"

text \<open>
  \<open>timeouts_ok\<close>: every timeout is that of a request that still waits, over a live connection, and no
  request has two.
\<close>

definition awaits :: "mbox \<Rightarrow> Timeout \<Rightarrow> bool" where
  "awaits s t \<longleftrightarrow> live_status s (t_status t) \<and> reply_lookup s (t_status t) (t_reply_id t) \<noteq> None \<and>
     conn_heap s (t_conn t) \<noteq> None"

definition timeouts_ok :: "mbox \<Rightarrow> bool" where
  "timeouts_ok s \<longleftrightarrow> array_inv (timeouts s) \<and> array_inv (immediate_callbacks s) \<and>
     (\<forall>t \<in> set (timeout_list s). awaits s t) \<and>
     distinct (map (\<lambda>t. (t_status t, t_reply_id t)) (timeout_list s))"

text \<open>The slot that the code reads after it has removed the timeout at the front.\<close>

lemma slot_after_removal:
  assumes "array_inv a" "array_list a = t # ts"
  shows "\<exists>b. array__remove_item a 0 = Some b \<and> array_inv b \<and> array_list b = ts \<and>
    timeout_at b = Some (case ts of [] \<Rightarrow> t | t' # _ \<Rightarrow> t')"
proof -
  have n: "a_count a = Suc (length ts)" using length_array_list [OF assms(1)] assms(2) by simp
  then have "0 < a_count a" by simp
  from array_remove_facts [OF assms(1) this] assms(2) obtain b where
    b: "array__remove_item a 0 = Some b" "array_inv b" "array_list b = ts" by auto
  have first: "items a \<noteq> []" "hd (items a) = Some t"
    using array_invD(1,5) [OF assms(1)] assms(2) n by (cases "items a"; auto)+
  have "timeout_at b = Some (case ts of [] \<Rightarrow> t | t' # _ \<Rightarrow> t')"
  proof (cases ts)
    case Nil
    then have "items b = items a"
      using b(1) n by (auto simp: array__remove_item_def array__index_of_def Let_def split: if_splits)
    with first Nil show ?thesis by (cases "items a") (auto simp: timeout_at_def)
  next
    case (Cons t' ts')
    have "0 < a_count b" using length_array_list [OF b(2)] b(3) Cons by simp
    from array_item_val [OF b(2) this] b(3) Cons show ?thesis
      by (cases "items b") (auto simp: timeout_at_def array__item_val_def)
  qed
  with b show ?thesis by blast
qed

text \<open>
  One timeout that is due: its request is forgotten, the connection gets the context of the request,
  and one error is queued. Its buffer carries the address of the status of the following timeout.
\<close>

lemma expire_first_facts:
  assumes "timeouts_ok s" "timeout_list s = t # ts" "reply_lookup s (t_status t) (t_reply_id t) = Some v"
    "conn_heap s (t_conn t) = Some c"
  shows "\<exists>s' d b buf st. expire_first os s = Some s' \<and> timeouts_ok s' \<and> timeout_list s' = ts \<and>
    pending s' = pending s @ [\<lparr>pc_conn = t_conn t, pc_event = msg_error, pc_data = d, to_free = None\<rparr>] \<and>
    conn_heap s' = (conn_heap s)(t_conn t := Some (c\<lparr>reply_context := v\<rparr>)) \<and>
    reply_lookup s' (t_status t) (t_reply_id t) = None \<and>
    data_bytes d = Some (b, 0) \<and> buf_heap s' b = Some buf \<and> md_reply_context (b_meta buf) = v \<and>
    status_heap s' (t_status (case ts of [] \<Rightarrow> t | t' # _ \<Rightarrow> t')) = Some st \<and>
    md_remote_address (b_meta buf) = st_remote_address st"
proof -
  let ?p = "t_status t" and ?r = "t_reply_id t"
  note ok = assms(1) [unfolded timeouts_ok_def]
  have live: "live_status s ?p" using ok assms(2) by (auto simp: awaits_def)
  have L: "array_list (timeouts s) = t # ts" using assms(2) by (simp add: timeout_list_def)
  have n: "0 < a_count (timeouts s)" using length_array_list [of "timeouts s"] ok L by auto
  have it: "array__item_val (timeouts s) 0 = Some t"
    using array_item_val [OF _ n] ok L by simp
  let ?h = "(conn_heap s)(t_conn t := Some (c\<lparr>reply_context := v\<rparr>))"
  let ?s1 = "s\<lparr>conn_heap := ?h\<rparr>"
  have "live_status ?s1 ?p" using live by (simp add: live_status_def)
  from reply_context_unset_facts [OF this, of ?r] obtain f where
    f: "reply_context_unset ?p ?r ?s1 = Some (?s1\<lparr>status_heap := f\<rparr>)" "live_status (?s1\<lparr>status_heap := f\<rparr>) ?p"
      "\<forall>r'. reply_lookup (?s1\<lparr>status_heap := f\<rparr>) ?p r' = (if r' = ?r then None else reply_lookup ?s1 ?p r')"
      "\<forall>q. q \<noteq> ?p \<longrightarrow> f q = status_heap s q" by auto
  from slot_after_removal [OF _ L] ok obtain a where
    a: "array__remove_item (timeouts s) 0 = Some a" "array_inv a" "array_list a = ts"
      "timeout_at a = Some (case ts of [] \<Rightarrow> t | t' # _ \<Rightarrow> t')" by auto
  define slot where "slot = (case ts of [] \<Rightarrow> t | t' # _ \<Rightarrow> t')"
  let ?s2 = "?s1\<lparr>status_heap := f, timeouts := a\<rparr>"
  have live2: "live_status s q \<Longrightarrow> status_heap s' = f \<Longrightarrow> live_status s' q" for q s'
    using f(2,4) by (cases "q = ?p") (auto simp: live_status_def)
  have look2: "status_heap s' = f \<Longrightarrow> reply_lookup s' q r = (if q = ?p \<and> r = ?r then None else reply_lookup s q r)"
    for q r s'
    using f(3,4) by (cases "q = ?p") (auto simp: reply_lookup_def)
  have "slot \<in> set (timeout_list s)" using assms(2) by (auto simp: slot_def split: list.split)
  then have "live_status s (t_status slot)" using ok by (simp add: awaits_def)
  from live2 [OF this, of ?s2] obtain st where st: "f (t_status slot) = Some st"
    by (auto simp: live_status_def)
  define msg where "msg = (if protocol_type c = msg_tcp then ''tcp get timed out'' else ''udp get timed out'')"
  let ?b = "next_id s"
  let ?d = "\<lparr>num_bytes = length msg + 1, data_bytes = Some (?b, 0)\<rparr>"
  let ?buf = "\<lparr>b_meta = (os_malloc_meta os (clock s))\<lparr>md_reply_context := v, md_remote_address := st_remote_address st\<rparr>,
    b_body = c_string msg\<rparr>"
  define s3 where "s3 = ?s2\<lparr>next_id := ?b + 1, clock := clock s + 1,
      trace := trace s @ [Sys_malloc (length msg + 1)], buf_heap := (buf_heap s)(?b := Some ?buf)\<rparr>"
  let ?s4 = "send_callback (t_conn t) msg_error ?d None s3"
  have run: "expire_first os s = Some ?s4"
    using it reply_context_get_eq [OF live, of ?r] assms(3,4) f(1) a(1,4) st
    by (simp add: expire_first_def update_conn_def msg_new_data_eq buffer_of_def update_buffer_def
        msg_def [symmetric] s3_def slot_def Let_def)
  have fields: "status_heap ?s4 = f" "timeout_list ?s4 = ts" "conn_heap ?s4 = ?h" "timeouts ?s4 = a"
    "buf_heap ?s4 ?b = Some ?buf"
    using a(3) by (simp_all add: s3_def timeout_list_def)
  have imm: "array_inv (immediate_callbacks s3)" "pending s3 = pending s" using ok by (simp_all add: s3_def pending_def)
  have others: "(t_status x, t_reply_id x) \<noteq> (?p, ?r)" if "x \<in> set ts" for x
    using ok assms(2) that by (auto simp: image_iff)
  have "awaits ?s4 x" if "x \<in> set ts" for x
  proof -
    have "awaits s x" using ok assms(2) that by simp
    then show ?thesis
      using live2 [of "t_status x" ?s4] look2 [of ?s4 "t_status x" "t_reply_id x"] others [OF that] fields
      by (auto simp: awaits_def)
  qed
  then have "timeouts_ok ?s4"
    using ok assms(2) a(2) fields send_callback_pending(2) [OF imm(1)] by (simp add: timeouts_ok_def)
  then show ?thesis
    using run fields st send_callback_pending(1) [OF imm(1)] imm(2) look2 [of ?s4 ?p ?r]
    by (intro exI [of _ ?s4] exI [of _ ?d] exI [of _ ?b] exI [of _ ?buf] exI [of _ st]) (simp add: slot_def)
qed

text \<open>
  The timeout pass ends, forgets exactly the requests at the front that are due, and queues one
  error for each, in order.
\<close>

lemma expire_timeouts_facts:
  assumes "timeouts_ok s"
  shows "\<exists>s'. expire_timeouts os time_now s = Some s' \<and> timeouts_ok s' \<and>
    timeout_list s' = dropWhile (\<lambda>t. t_at t \<le> time_now) (timeout_list s) \<and>
    map brief (pending s') = map brief (pending s) @
      map (\<lambda>t. (t_conn t, msg_error, None)) (takeWhile (\<lambda>t. t_at t \<le> time_now) (timeout_list s))"
  using assms
proof (induction "timeout_list s" arbitrary: s)
  case Nil
  then have "a_count (timeouts s) = 0"
    using length_array_list [of "timeouts s"] by (simp add: timeouts_ok_def timeout_list_def)
  with Nil show ?case by (subst expire_timeouts.simps) simp
next
  case (Cons t ts)
  note ok = Cons.prems [unfolded timeouts_ok_def]
  have L: "array_list (timeouts s) = t # ts" using Cons.hyps(2) by (simp add: timeout_list_def)
  have n: "0 < a_count (timeouts s)" using length_array_list [of "timeouts s"] ok L by auto
  have it: "array__item_val (timeouts s) 0 = Some t" using array_item_val [OF _ n] ok L by simp
  show ?case
  proof (cases "t_at t \<le> time_now")
    case False
    with it n Cons.prems Cons.hyps(2) [symmetric] show ?thesis by (subst expire_timeouts.simps) simp
  next
    case True
    have "awaits s t" using ok Cons.hyps(2) [symmetric] by simp
    then obtain v c where "reply_lookup s (t_status t) (t_reply_id t) = Some v" "conn_heap s (t_conn t) = Some c"
      by (auto simp: awaits_def)
    from expire_first_facts [OF Cons.prems Cons.hyps(2) [symmetric] this, of os] obtain s1 d where
      s1: "expire_first os s = Some s1" "timeouts_ok s1" "timeout_list s1 = ts"
        "pending s1 = pending s @ [\<lparr>pc_conn = t_conn t, pc_event = msg_error, pc_data = d, to_free = None\<rparr>]"
      by blast
    from Cons.hyps(1) [OF s1(3) [symmetric] s1(2)] obtain s' where
      s': "expire_timeouts os time_now s1 = Some s'" "timeouts_ok s'"
        "timeout_list s' = dropWhile (\<lambda>t. t_at t \<le> time_now) ts"
        "map brief (pending s') = map brief (pending s1) @
          map (\<lambda>t. (t_conn t, msg_error, None)) (takeWhile (\<lambda>t. t_at t \<le> time_now) ts)"
      using s1(3) by auto
    have "expire_timeouts os time_now s = Some s'"
      using True it n s1(1) s'(1) by (subst expire_timeouts.simps) simp
    with True s' s1(4) Cons.hyps(2) [symmetric] show ?thesis by (auto simp: brief_def)
  qed
qed

end
