(* ===== verification/Delivery.thy ===== *)
theory Delivery
  imports Replies
begin

text \<open>
  Sending and receiving put together: what \<open>msg_send\<close> writes to a tcp socket, the same bytes read by
  the other side, and a request that is answered.
\<close>

section \<open>What a send writes\<close>

definition wire_packet :: "u16 \<Rightarrow> u16 \<Rightarrow> msg_Data \<Rightarrow> buffer \<Rightarrow> bytes" where
  "wire_packet t r d buf =
     header_bytes (network_header t r (of_nat (num_bytes d))) @ take (num_bytes d) (b_body buf)"

lemma packet_with_header:
  assumes "sendable d b (with_header t r d buf) s"
  shows "packet d s = Some (wire_packet t r d buf)"
  using assms by (simp add: sendable_def packet_def buffer_of_def with_header_def wire_packet_def)

lemma sent_on_error_state [simp]:
  "sent_on sock (trace (error_state os conn msg free s)) = sent_on sock (trace s)"
  by (simp add: error_state_def)

definition send_type :: "msg_Conn \<Rightarrow> u16" where
  "send_type c = (if reply_id c \<noteq> 0 then msg_type_reply else msg_type_one_way)"

text \<open>
  \<open>msg_send\<close> over tcp writes the whole packet, or a proper prefix of it and then reports one error.
\<close>

lemma msg_send_tcp_run:
  assumes "sendable d b buf s" "conn_heap s conn = Some c" "protocol_type c = msg_tcp"
    "msg_send os conn d s = Some s'" "out = wire_packet (send_type c) (reply_id c) d buf"
  obtains n s2 where "n \<le> length out"
    "only_io (s\<lparr>buf_heap := (buf_heap s)(b := Some (with_header (send_type c) (reply_id c) d buf))\<rparr>) s2"
    "sent_on (socket c) (trace s2) = sent_on (socket c) (trace s) @ take n out"
    "n = length out \<longrightarrow> s' = s2" "n < length out \<longrightarrow> (\<exists>msg. s' = error_state os conn msg None s2)"
proof -
  note hdr = set_header_eq [OF assms(1), of "send_type c" "reply_id c"]
  let ?s1 = "s\<lparr>buf_heap := (buf_heap s)(b := Some (with_header (send_type c) (reply_id c) d buf))\<rparr>"
  have pk: "packet d ?s1 = Some out" using packet_with_header [OF hdr(2)] assms(5) by simp
  obtain r s2 where s2: "send_loop os (socket c) out ?s1 = Some (r, s2)"
    "(if r \<noteq> 0 then send_callback_os_error os conn ''send'' None s2 else Some s2) = Some s'"
  proof (cases "send_loop os (socket c) out ?s1")
    case (Some rs)
    with assms(2-4) hdr(1) pk that [of "fst rs" "snd rs"] show ?thesis
      by (cases rs; cases "fst rs = 0")
        (simp_all add: msg_send_def send_data_def send_all_def send_type_def [symmetric])
  qed (use assms(2-4) hdr(1) pk in
      \<open>simp add: msg_send_def send_data_def send_all_def send_type_def [symmetric]\<close>)
  from send_loop_prefix [OF s2(1)] obtain n where
    n: "only_io ?s1 s2" "n \<le> length out" "r = 0 \<longleftrightarrow> n = length out"
      "sent_on (socket c) (trace s2) = sent_on (socket c) (trace s) @ take n out"
    by (auto simp: sends_prefix_def)
  show thesis
    by (rule that [OF n(2,1,4)]) (use s2(2) n(3) in \<open>auto simp: send_callback_os_error_eq\<close>)
qed

text \<open>What this means for the queue of callbacks.\<close>

lemma msg_send_tcp:
  assumes "sendable d b buf s" "conn_heap s conn = Some c" "protocol_type c = msg_tcp"
    "array_inv (immediate_callbacks s)" "msg_send os conn d s = Some s'"
    "out = wire_packet (send_type c) (reply_id c) d buf"
  shows "\<exists>n \<le> length out. sent_on (socket c) (trace s') = sent_on (socket c) (trace s) @ take n out \<and>
    (if n = length out then pending s' = pending s
     else \<exists>data. pending s' = pending s @
       [\<lparr>pc_conn = conn, pc_event = msg_error, pc_data = data, to_free = None\<rparr>])"
proof -
  obtain n s2 where n: "n \<le> length out"
    "only_io (s\<lparr>buf_heap := (buf_heap s)(b := Some (with_header (send_type c) (reply_id c) d buf))\<rparr>) s2"
    "sent_on (socket c) (trace s2) = sent_on (socket c) (trace s) @ take n out"
    "n = length out \<longrightarrow> s' = s2" "n < length out \<longrightarrow> (\<exists>msg. s' = error_state os conn msg None s2)"
    by (rule msg_send_tcp_run [OF assms(1-3,5,6)])
  have imm: "immediate_callbacks s2 = immediate_callbacks s"
    using only_io_fields(2) [OF n(2)] by simp
  show ?thesis
  proof (cases "n = length out")
    case True
    with n imm show ?thesis by (intro exI [of _ n]) (simp add: pending_def)
  next
    case False
    with n obtain msg where s': "s' = error_state os conn msg None s2" by auto
    have "\<exists>data. pending s' = pending s @
        [\<lparr>pc_conn = conn, pc_event = msg_error, pc_data = data, to_free = None\<rparr>]"
      using error_state_pending(1) [of s2 os conn msg None] assms(4) imm by (auto simp: s' pending_def)
    with n False show ?thesis by (intro exI [of _ n]) (simp add: s')
  qed
qed

text \<open>When it queues no error, all of the packet is written and only the header is stored.\<close>

lemma msg_send_clean:
  assumes "sendable d b buf s" "conn_heap s conn = Some c" "protocol_type c = msg_tcp"
    "array_inv (immediate_callbacks s)" "msg_send os conn d s = Some s'" "pending s' = pending s"
  shows "sent_on (socket c) (trace s') =
      sent_on (socket c) (trace s) @ wire_packet (send_type c) (reply_id c) d buf"
    "only_io (s\<lparr>buf_heap := (buf_heap s)(b := Some (with_header (send_type c) (reply_id c) d buf))\<rparr>) s'"
proof -
  let ?out = "wire_packet (send_type c) (reply_id c) d buf"
  obtain n s2 where n: "n \<le> length ?out"
    "only_io (s\<lparr>buf_heap := (buf_heap s)(b := Some (with_header (send_type c) (reply_id c) d buf))\<rparr>) s2"
    "sent_on (socket c) (trace s2) = sent_on (socket c) (trace s) @ take n ?out"
    "n = length ?out \<longrightarrow> s' = s2" "n < length ?out \<longrightarrow> (\<exists>msg. s' = error_state os conn msg None s2)"
    by (rule msg_send_tcp_run [OF assms(1-3,5) refl])
  have imm: "immediate_callbacks s2 = immediate_callbacks s"
    using only_io_fields(2) [OF n(2)] by simp
  have "n = length ?out"
  proof (rule ccontr)
    assume "n \<noteq> length ?out"
    with n obtain msg where "s' = error_state os conn msg None s2" by auto
    then show False
      using error_state_pending(1) [of s2 os conn msg None] assms(4,6) imm by (auto simp: pending_def)
  qed
  with n show "sent_on (socket c) (trace s') = sent_on (socket c) (trace s) @ ?out"
    "only_io (s\<lparr>buf_heap := (buf_heap s)(b := Some (with_header (send_type c) (reply_id c) d buf))\<rparr>) s'"
    by auto
qed

lemma msg_send_returns:
  assumes "sendable d b buf s" "conn_heap s conn = Some c" "send_accepts os (socket c)" "send_progress os (socket c)"
  shows "\<exists>s'. msg_send os conn d s = Some s'"
proof -
  note hdr = set_header_eq [OF assms(1), of "send_type c" "reply_id c"]
  obtain r s2 where "send_data os conn d
      (s\<lparr>buf_heap := (buf_heap s)(b := Some (with_header (send_type c) (reply_id c) d buf))\<rparr>) = Some (r, s2)"
    using send_data_returns [OF hdr(2), of conn c os] assms(2-4) by auto
  with hdr(1) assms(2) show ?thesis
    by (cases r) (simp_all add: msg_send_def send_type_def send_callback_os_error_eq)
qed

text \<open>
  From one side to the other: when a one-way message was sent without an error, and the other side
  reads the bytes that were written, in any pieces, then it announces that message.
\<close>

lemma tcp_transfer:
  assumes "sendable d b buf s" "conn_heap s conn = Some c" "protocol_type c = msg_tcp" "reply_id c = 0"
    "array_inv (immediate_callbacks s)" "msg_send os conn d s = Some s'" "pending s' = pending s"
    "0 < num_bytes d" "num_bytes d < 2 ^ 32"
    "sent_on (socket c) (trace s') = sent_on (socket c) (trace s) @ stream"
    "tcp_peer rconn rc p r" "status_heap r p = Some st" "num_bytes (waiting_buffer st) = 0"
    "header_waits ros (socket rc) (clock r) (header_of_bytes (take header_len stream))"
    "delivers ros (socket rc) (clock r + 3) (length (drop header_len stream)) (as @ [Ok bs])"
    "payload as @ bs = drop header_len stream"
  shows "\<exists>rb r1 r' rbuf. read_partial ros (socket rc) rconn (length as) r = Some r1 \<and> pending r1 = pending r \<and>
    read_from_socket ros (socket rc) rconn r1 = Some (True, r') \<and>
    pending r' = pending r @ [\<lparr>pc_conn = rconn, pc_event = msg_message,
      pc_data = \<lparr>num_bytes = num_bytes d, data_bytes = Some (rb, 0)\<rparr>, to_free = None\<rparr>] \<and>
    buf_heap r' rb = Some rbuf \<and> b_body rbuf = take (num_bytes d) (b_body buf)"
proof -
  let ?body = "take (num_bytes d) (b_body buf)"
  let ?nh = "network_header msg_type_one_way 0 (of_nat (num_bytes d))"
  define out where "out = wire_packet (send_type c) (reply_id c) d buf"
  have out: "out = header_bytes ?nh @ ?body"
    using assms(4) by (simp add: out_def wire_packet_def send_type_def)
  have len: "length ?body = num_bytes d" "min (length (b_body buf)) (num_bytes d) = num_bytes d" using assms(1) by (simp_all add: sendable_def)
  from msg_send_tcp [OF assms(1-3,5,6) out_def] obtain n where
    "sent_on (socket c) (trace s') = sent_on (socket c) (trace s) @ take n out" "n \<le> length out"
    "if n = length out then pending s' = pending s else \<exists>data. pending s' = pending s @
       [\<lparr>pc_conn = conn, pc_event = msg_error, pc_data = data, to_free = None\<rparr>]" by blast
  with assms(7,10) have stream: "stream = header_bytes ?nh @ ?body"
    by (auto simp: out len split: if_splits)
  have parts: "header_of_bytes (take header_len stream) = ?nh" "drop header_len stream = ?body"
    by (simp_all add: stream)
  have "event_of_type msg_type_one_way = Some msg_message" "msg_type_one_way \<noteq> msg_type_reply"
    by (simp_all add: event_of_type_def msg_type_defs)
  from tcp_message [OF assms(11-13), of ros msg_type_one_way 0 ?body msg_message as bs] this
    assms(8,9,14-16) len show ?thesis by (simp add: parts)
qed

section \<open>A request and its reply\<close>

text \<open>
  The reply to a request that was sent gives the connection the context of that request, and leaves
  the reply contexts and the timeouts as they were before the request.
\<close>

lemma get_reply:
  assumes "lib_ok s" "conn_heap s conn = Some c" "map_lookup (conn_status s) (address_of_conn c) = Some p"
    "status_heap s p = Some st" "rid = next_reply_id st" "sendable d b buf s"
    "send_accepts os (socket c)" "send_progress os (socket c)"
    "reply_lookup s p rid = None" "\<forall>t \<in> set (timeout_list s). (t_status t, t_reply_id t) \<noteq> (p, rid)"
    "message_type h = msg_type_reply" "hdr_reply_id h = rid"
  shows "\<exists>s1. msg_get os conn d ctx s = Some s1 \<and>
    (\<exists>s2. match_reply os conn h p data False s1 = Some (True, s2) \<and>
      conn_heap s2 conn = Some (c\<lparr>reply_context := ctx, reply_id := 0\<rparr>) \<and>
      reply_lookup s2 p = reply_lookup s p \<and> timeout_list s2 = timeout_list s \<and> pending s2 = pending s1)"
proof -
  from msg_get_facts [OF assms(1-8), of ctx] obtain s1 where
    s1: "msg_get os conn d ctx s = Some s1" "live_status s1 p" "conn_heap s1 = conn_heap s"
      "reply_lookup s1 p = (reply_lookup s p)(rid \<mapsto> ctx)" and
    tl: "(\<exists>t. timeout_list s1 = timeout_list s @ [make_timeout (t + 1000000) conn p rid]) \<or>
      timeout_list s1 = timeout_list s" by blast
  have none: "remove_first_match P xs = xs" if "\<forall>x \<in> set xs. \<not> P x" for P and xs :: "Timeout list"
    using that by (induction xs) auto
  have last: "remove_first_match P (xs @ [x]) = xs" if "\<forall>x \<in> set xs. \<not> P x" "P x" for P x and xs :: "Timeout list"
    using that by (induction xs) auto
  have ok: "lib_ok s1" by (rule msg_get_keeps [OF s1(1) assms(1)])
  have "reply_lookup s1 p (hdr_reply_id h) = Some ctx" "conn_heap s1 conn = Some c"
    using s1(3,4) assms(2,12) by simp_all
  from match_reply_known [OF assms(11) s1(2) this(1) lib_okD(5) [OF ok] this(2), of os data] obtain s2 where
    s2: "match_reply os conn h p data False s1 = Some (True, s2)"
      "conn_heap s2 conn = Some (c\<lparr>reply_context := ctx, reply_id := 0\<rparr>)"
      "reply_lookup s2 p = (reply_lookup s1 p)(hdr_reply_id h := None)"
      "timeout_list s2 = remove_first_match (\<lambda>t. t_status t = p \<and> t_reply_id t = hdr_reply_id h) (timeout_list s1)"
      "pending s2 = pending s1" by blast
  have "timeout_list s2 = timeout_list s"
    using tl s2(4) assms(10,12) by (auto simp: none last make_timeout_def)
  moreover have "reply_lookup s2 p = reply_lookup s p"
    using s2(3) s1(4) assms(9,12) by (simp add: fun_upd_idem)
  ultimately show ?thesis using s1(1) s2 by blast
qed

lemma msg_send_blocked:
  assumes "sendable d b buf s" "conn_heap s conn = Some c" "protocol_type c = msg_tcp"
    "\<forall>t bs. os_send os t (socket c) bs = Err EWOULDBLOCK"
  shows "msg_send os conn d s = None"
proof -
  note hdr = set_header_eq [OF assms(1), of "send_type c" "reply_id c"]
  let ?s1 = "s\<lparr>buf_heap := (buf_heap s)(b := Some (with_header (send_type c) (reply_id c) d buf))\<rparr>"
  have "packet d ?s1 = Some (wire_packet (send_type c) (reply_id c) d buf)"
    by (rule packet_with_header [OF hdr(2)])
  moreover have "send_loop os (socket c) (wire_packet (send_type c) (reply_id c) d buf) ?s1 = None"
    by (rule send_loop_stuck [OF assms(4)]) (simp add: wire_packet_def)
  ultimately have "send_data os conn d ?s1 = None"
    using assms(2,3) by (simp add: send_data_def send_all_def)
  then show ?thesis using hdr(1) assms(2) by (simp add: msg_send_def send_type_def)
qed

end
