(* ===== verification/Samples.thy ===== *)
theory Samples
  imports Machine Delivery
begin

text \<open>
  A small environment and small states, at which the witnesses of the properties apply them.
  \<open>sample_os\<close> accepts every call at once and has nothing to receive.
\<close>

definition no_address :: Address where
  "no_address = \<lparr>ip = 0, port = 0, addr_protocol = 0\<rparr>"

definition sample_os :: os where
  "sample_os =
     \<lparr>os_socket = (\<lambda>_ _. Ok 3), os_getfl = (\<lambda>_ _. Ok 0), os_setfl = (\<lambda>_ _ _. Ok ()),
      os_setsockopt = (\<lambda>_ _. Ok ()), os_bind = (\<lambda>_ _ _. Ok ()), os_connect = (\<lambda>_ _ _. Ok ()),
      os_listen = (\<lambda>_ _. Ok ()), os_accept = (\<lambda>_ _. Ok (4, \<lparr>sin_port = 0x5000, sin_addr = 0x0100007F\<rparr>)),
      os_recv = (\<lambda>_ _ _ _. Err EWOULDBLOCK), os_recvfrom = (\<lambda>_ _ _. Err EWOULDBLOCK),
      os_send = (\<lambda>_ _ out. Ok (length out)), os_sendto = (\<lambda>_ _ out _. Ok (length out)),
      os_close = (\<lambda>_ _. Ok ()), os_poll = (\<lambda>_ _ _. Ok (0, [])), os_so_error = (\<lambda>_ _. EOTHER 0),
      os_time = (\<lambda>t. int t), os_strerror = (\<lambda>_. ''failure''),
      os_malloc_meta = (\<lambda>_. \<lparr>md_reply_context = null, md_remote_address = no_address,
        md_header = \<lparr>message_type = 0, hdr_reply_id = 0, hdr_num_bytes = 0\<rparr>\<rparr>),
      os_malloc_byte = (\<lambda>_ _. 0)\<rparr>"

definition sample_start :: mbox where
  "sample_start = init_if_needed initial_mbox"

definition sample_program :: program where
  "sample_program cb conn ev d s = (if ev = msg_request then [Send conn d] else [])"

lemma sample_os_simps [simp]:
  "os_socket sample_os = (\<lambda>_ _. Ok 3)" "os_getfl sample_os = (\<lambda>_ _. Ok 0)"
  "os_setfl sample_os = (\<lambda>_ _ _. Ok ())" "os_bind sample_os = (\<lambda>_ _ _. Ok ())"
  "os_connect sample_os = (\<lambda>_ _ _. Ok ())" "os_listen sample_os = (\<lambda>_ _. Ok ())"
  "os_send sample_os = (\<lambda>_ _ out. Ok (length out))" "os_recv sample_os = (\<lambda>_ _ _ _. Err EWOULDBLOCK)"
  "os_time sample_os = (\<lambda>t. int t)" "os_close sample_os = (\<lambda>_ _. Ok ())"
  by (simp_all add: sample_os_def)

lemma sample_sends: "send_accepts sample_os sock" "send_progress sample_os sock"
  by (auto simp: send_accepts_def send_progress_def send_stalls_def)

section \<open>States\<close>

lemma sample_start_ok: "lib_ok sample_start"
  unfolding sample_start_def by (rule lib_ok_initial)

lemma sample_start_simps [simp]:
  "init_done sample_start = True" "pending sample_start = []" "conn_list sample_start = []"
  "pollfd_list sample_start = []" "next_id sample_start = 1" "timeout_list sample_start = []"
  "clock sample_start = 0" "trace sample_start = []" "array_inv (conns sample_start)"
  "a_count (conns sample_start) = 0"
  by (simp_all add: sample_start_def init_if_needed_def initial_mbox_def init_poll_fds_def pending_def
      conn_list_def pollfd_list_def timeout_list_def array_simps array_invs)

lemma sample_start_conns: "conns_ok sample_start"
  using lib_okD [OF sample_start_ok] by (simp add: conns_ok_def matched_def)

text \<open>A state with one tcp connection to a known peer, with index 0 in both arrays.\<close>

definition sample_conn :: msg_Conn where
  "sample_conn = \<lparr>conn_context = null, reply_context = null, callback = 7, remote_ip = 0x0100007F,
     remote_port = 80, protocol_type = msg_tcp, socket = 3, for_listening = False, reply_id = 0, index = 0\<rparr>"

definition sample_pre :: mbox where
  "sample_pre = sample_start\<lparr>conn_heap := [1 \<mapsto> sample_conn], next_id := 2\<rparr>"

definition sample_open :: mbox where
  "sample_open = add_to_poll_fds 3 poll_mode_read
     (sample_pre\<lparr>conns := array__add_item_ptr (conns sample_pre) 1\<rparr>)"

definition sample_buffer :: buffer where
  "sample_buffer = \<lparr>b_meta = os_malloc_meta sample_os 0, b_body = [104, 105, 0]\<rparr>"

lemma sample_start_heaps [simp]:
  "conn_heap sample_start = (\<lambda>_. None)" "status_heap sample_start = (\<lambda>_. None)"
  "buf_heap sample_start = (\<lambda>_. None)" "conn_status sample_start = new_conn_status_map"
  "immediate_callbacks sample_start = array__new 16" "removals sample_start = array__new 8"
  by (simp_all add: sample_start_def init_if_needed_def initial_mbox_def init_poll_fds_def)

lemma sample_conn_simps [simp]:
  "protocol_type sample_conn = msg_tcp" "for_listening sample_conn = False" "socket sample_conn = 3"
  "index sample_conn = 0"
  by (simp_all add: sample_conn_def)

lemma sample_pre_ok: "lib_ok sample_pre"
proof -
  have "status_ok sample_pre"
    using status_ok_next_id [of sample_start 2] lib_okD(7) [OF sample_start_ok]
    by (simp add: status_ok_def sample_pre_def)
  then show ?thesis
    using lib_okD [OF sample_start_ok] by (simp add: lib_ok_def arrays_ok_def heap_ok_def sample_pre_def)
qed

lemma sample_open_ok: "lib_ok sample_open"
  unfolding sample_open_def by (rule lib_ok_add_conn [OF sample_pre_ok])

lemma sample_pre_views:
  "conn_list sample_pre = []" "pending sample_pre = []" "pollfd_list sample_pre = []"
  "timeout_list sample_pre = []" "a_count (conns sample_pre) = 0" "array_inv (conns sample_pre)"
  using sample_start_simps
  unfolding conn_list_def pending_def pollfd_list_def timeout_list_def by (simp_all add: sample_pre_def)

lemma sample_open_simps [simp]:
  "conn_heap sample_open = [1 \<mapsto> sample_conn]" "conn_status sample_open = new_conn_status_map"
  "next_id sample_open = 2" "clock sample_open = 0"
  "status_heap sample_open = (\<lambda>_. None)" "buf_heap sample_open = (\<lambda>_. None)" "trace sample_open = []"
  by (simp_all add: sample_open_def sample_pre_def add_to_poll_fds_def)

lemma sample_open_views [simp]:
  "conn_list sample_open = [1]" "pending sample_open = []" "timeout_list sample_open = []"
  using sample_pre_views
  unfolding conn_list_def pending_def timeout_list_def
  by (simp_all add: sample_open_def add_to_poll_fds_def array_simps)

lemma sample_open_conns: "conns_ok sample_open"
  unfolding sample_open_def
proof (rule add_conn_ok)
  show "conns_ok sample_pre"
    using lib_okD [OF sample_pre_ok] sample_pre_views by (simp add: conns_ok_def matched_def)
qed (use sample_pre_views in \<open>auto simp: sample_pre_def sample_conn_def\<close>)

text \<open>The same with the status of the peer, named 2, and its \<open>msg_connection_ready\<close> queued.\<close>

lemma sample_peer:
  obtains m where "tcp_peer 1 sample_conn 2 (seen_state os 1 sample_conn m sample_open)"
    "remote_address_seen os 1 sample_open = Some (2, seen_state os 1 sample_conn m sample_open)"
proof -
  have "map_lookup (conn_status sample_open) (address_of_conn sample_conn) = None"
    by (simp add: conn_status_map.new_lookup)
  from remote_address_new [OF sample_open_ok _ this, of 1 os] obtain m where
    "remote_address_seen os 1 sample_open = Some (next_id sample_open, seen_state os 1 sample_conn m sample_open)"
    "map_lookup m = (map_lookup (conn_status sample_open))(address_of_conn sample_conn \<mapsto> next_id sample_open)"
    "lib_ok (seen_state os 1 sample_conn m sample_open)" by auto
  then show thesis by (intro that [of m]) (simp_all add: tcp_peer_def)
qed

lemma seen_state_clock [simp]: "clock (seen_state os conn c m s) = Suc (clock s)"
  by (simp add: seen_state_def)

text \<open>A sender: \<open>sample_open\<close> with a message of three bytes in buffer 5.\<close>

definition sample_data :: msg_Data where
  "sample_data = \<lparr>num_bytes = 3, data_bytes = Some (5, 0)\<rparr>"

lemma sample_data_simps [simp]: "num_bytes sample_data = 3" "data_bytes sample_data = Some (5, 0)"
  by (simp_all add: sample_data_def)

definition sample_sender :: mbox where
  "sample_sender = sample_open\<lparr>buf_heap := [5 \<mapsto> sample_buffer]\<rparr>"

lemma sample_sendable: "sendable sample_data 5 sample_buffer (s\<lparr>buf_heap := [5 \<mapsto> sample_buffer]\<rparr>)"
  by (simp add: sendable_def sample_buffer_def)

lemma sample_conn_ids [simp]: "reply_id sample_conn = 0"
  by (simp add: sample_conn_def)

definition sample_stream :: bytes where
  "sample_stream = [0, 0, 0, 0, 0, 0, 0, 3, 104, 105, 0]"

lemma sample_packet: "wire_packet msg_type_one_way 0 sample_data sample_buffer = sample_stream"
  by (simp add: wire_packet_def sample_buffer_def sample_stream_def network_header_def header_bytes_def
      htons_def htonl_def le16_def le32_def msg_type_one_way_def)

text \<open>A receiver's environment: the header, then the body in two pieces with a pause between.\<close>

definition sample_pieces :: "nat \<Rightarrow> bytes sysret" where
  "sample_pieces t = (if t = 1 \<or> t = 2 then Ok (take 8 sample_stream) else if t = 4 then Ok [104]
     else if t = 6 then Ok [105, 0] else Err EWOULDBLOCK)"

definition sample_receiver_os :: os where
  "sample_receiver_os = sample_os\<lparr>os_recv := \<lambda>t _ _ _. sample_pieces t\<rparr>"

lemma sample_receiver_recv [simp]: "os_recv sample_receiver_os t sock n peek = sample_pieces t"
  by (simp add: sample_receiver_os_def)

lemma sample_send_loop:
  "out \<noteq> [] \<Longrightarrow> send_loop sample_os sock out s =
     Some (0, s\<lparr>clock := clock s + 1, trace := trace s @ [Sys_send sock out]\<rparr>)"
  by (subst send_loop.simps, subst (2) send_loop.simps) (simp add: sys_send_def)

lemma sample_send:
  "\<exists>s'. msg_send sample_os 1 sample_data sample_sender = Some s' \<and> pending s' = pending sample_sender \<and>
    sent_on 3 (trace s') = sent_on 3 (trace sample_sender) @ sample_stream"
proof -
  have snd: "sendable sample_data 5 sample_buffer sample_sender"
    unfolding sample_sender_def by (rule sample_sendable)
  note hdr = set_header_eq [OF snd, of msg_type_one_way 0]
  let ?s1 = "sample_sender\<lparr>buf_heap := (buf_heap sample_sender)(5 := Some (with_header msg_type_one_way 0 sample_data sample_buffer))\<rparr>"
  have "packet sample_data ?s1 = Some sample_stream"
    using packet_with_header [OF hdr(2)] by (simp add: sample_packet)
  moreover have "conn_heap sample_sender 1 = Some sample_conn" by (simp add: sample_sender_def)
  moreover have "sample_stream \<noteq> []" by (simp add: sample_stream_def)
  ultimately have "msg_send sample_os 1 sample_data sample_sender =
      Some (?s1\<lparr>clock := clock ?s1 + 1, trace := trace ?s1 @ [Sys_send 3 sample_stream]\<rparr>)"
    using hdr(1) by (simp add: msg_send_def send_data_def send_all_def sample_send_loop)
  then show ?thesis by (simp add: pending_def sample_sender_def)
qed

lemma sample_receiver:
  "header_waits sample_receiver_os 3 1 (header_of_bytes (take header_len sample_stream))"
  "delivers sample_receiver_os 3 4 3 ([Ok [104], Err EWOULDBLOCK] @ [Ok [105, 0]])"
  "payload [Ok [104], Err EWOULDBLOCK] @ [105, 0] = drop header_len sample_stream"
proof -
  have len: "length (take header_len sample_stream) = header_len"
    by (simp add: sample_stream_def header_len_def)
  show "header_waits sample_receiver_os 3 1 (header_of_bytes (take header_len sample_stream))"
    by (simp add: header_waits_def header_bytes_of_bytes [OF len] sample_pieces_def) (simp add: header_len_def)
qed (simp_all add: sample_pieces_def sample_stream_def header_len_def)

section \<open>A connection with a known peer\<close>

definition empty_data :: msg_Data where
  "empty_data = \<lparr>num_bytes = 0, data_bytes = Some (3, 0)\<rparr>"

lemma sample_known:
  obtains s buf where "lib_ok s" "conns_ok s" "conn_heap s = [1 \<mapsto> sample_conn]"
    "map_lookup (conn_status s) (address_of_conn sample_conn) = Some 2"
    "status_heap s = [2 \<mapsto> fresh_status sample_conn]" "sendable empty_data 3 buf s" "timeout_list s = []"
    "conn_list s = [1]" "length (pending s) = 1" "clock s = 1" "tcp_peer 1 sample_conn 2 s"
    "\<And>r. reply_lookup s 2 r = None"
proof -
  obtain m where m: "tcp_peer 1 sample_conn 2 (seen_state sample_os 1 sample_conn m sample_open)"
    by (rule sample_peer)
  let ?s = "seen_state sample_os 1 sample_conn m sample_open"
  have st: "status_heap ?s = [2 \<mapsto> fresh_status sample_conn]" by simp
  have "conns_ok ?s" "conn_list ?s = [1]"
    using sample_open_conns sample_open_views by (simp_all add: conns_ok_def conn_list_def pollfd_list_def)
  moreover have "sendable empty_data 3 \<lparr>b_meta = (os_malloc_meta sample_os 0)\<lparr>md_remote_address :=
      address_of_conn sample_conn\<rparr>, b_body = []\<rparr> ?s"
    by (simp add: sendable_def empty_data_def seen_state_buf_heap)
  moreover have "length (pending ?s) = 1"
    using seen_state_pending [OF lib_okD(1) [OF sample_open_ok]] by simp
  moreover have "timeout_list ?s = []" using sample_open_views(3) by (simp add: timeout_list_def)
  moreover have "reply_lookup ?s 2 r = None" for r
    unfolding reply_lookup_def st by (simp add: fresh_status_def reply_map.new_lookup)
  ultimately show thesis using m st by (intro that [of ?s]) (auto simp: tcp_peer_def)
qed

section \<open>Two requests that wait\<close>

text \<open>Requests to two peers, over the same connection object, that are due at 10 and at 20.\<close>

definition sample_waiting :: "(vptr, vptr) cmap \<Rightarrow> mbox" where
  "sample_waiting rm = sample_start\<lparr>conn_heap := [1 \<mapsto> sample_conn], next_id := 4,
     status_heap := [2 \<mapsto> (fresh_status sample_conn)\<lparr>reply_contexts := Some rm\<rparr>,
       3 \<mapsto> (fresh_status sample_conn)\<lparr>reply_contexts := Some rm, st_remote_address := no_address\<rparr>],
     timeouts := array__add_item_ptr (array__add_item_ptr (array__new 8) (make_timeout 10 1 2 1))
       (make_timeout 20 1 3 1)\<rparr>"

lemma sample_contexts:
  obtains rm where "map_inv reply_keys rm" "map_lookup rm (reply_id_key 1) = Some (9 :: vptr)"
proof -
  obtain rm :: "(vptr, vptr) cmap" where
    rm: "map_inv reply_keys rm" "map_lookup rm = (map_lookup new_reply_contexts)(reply_id_key 1 \<mapsto> 9)"
    using cmap.put_lookup [OF reply_map.new_inv reply_key_in] by metis
  have "map_lookup rm (reply_id_key 1) = Some 9" unfolding rm(2) by (rule fun_upd_same)
  with rm(1) show thesis by (rule that)
qed

lemma sample_waiting_simps [simp]:
  "conn_heap (sample_waiting rm) = [1 \<mapsto> sample_conn]"
  "status_heap (sample_waiting rm) = [2 \<mapsto> (fresh_status sample_conn)\<lparr>reply_contexts := Some rm\<rparr>,
     3 \<mapsto> (fresh_status sample_conn)\<lparr>reply_contexts := Some rm, st_remote_address := no_address\<rparr>]"
  "timeout_list (sample_waiting rm) = [make_timeout 10 1 2 1, make_timeout 20 1 3 1]"
  by (simp_all add: sample_waiting_def timeout_list_def array_simps array_invs)

lemma sample_waiting_ok:
  assumes "map_inv reply_keys rm" "map_lookup rm (reply_id_key 1) = Some 9"
  shows "timeouts_ok (sample_waiting rm)"
proof -
  have "array_inv (timeouts (sample_waiting rm))" "array_inv (immediate_callbacks (sample_waiting rm))"
    by (simp_all add: sample_waiting_def array_invs)
  moreover have "awaits (sample_waiting rm) t" if "t \<in> set (timeout_list (sample_waiting rm))" for t
    using that assms by (auto simp: awaits_def live_status_def reply_lookup_def make_timeout_def)
  ultimately show ?thesis by (simp add: timeouts_ok_def make_timeout_def)
qed

end
