(* ===== verification/Accepting.thy ===== *)
theory Accepting
  imports Opening
begin

text \<open>
  Accepting a tcp connection: the outcomes of \<open>accept_connection\<close>, in the terms of the theory
  \<open>Opening\<close>.
\<close>

text \<open>The connection object that is made for an accepted socket.\<close>

definition accepted_conn :: "msg_Conn \<Rightarrow> int \<Rightarrow> sockaddr_in \<Rightarrow> nat \<Rightarrow> msg_Conn" where
  "accepted_conn c sock sa i =
     \<lparr>conn_context = conn_context c, reply_context = null, callback = callback c,
      remote_ip = sin_addr sa, remote_port = ntohs (sin_port sa), protocol_type = protocol_type c,
      socket = sock, for_listening = False, reply_id = 0, index = i\<rparr>"

text \<open>
  When the system accepts the connection and its socket can be made non-blocking, the new
  connection is put at the end of the arrays, with the callback and context of the listening one;
  if its address is not known yet, one \<open>msg_connection_ready\<close> is queued for it.
\<close>

lemma accept_facts:
  assumes "lib_ok s" "conns_ok s" "conn_heap s conn = Some c"
    "os_accept os (clock s) (socket c) = Ok (sock, sa)"
    "os_getfl os (Suc (clock s)) sock = Ok fl" "os_setfl os (Suc (Suc (clock s))) sock (fl OR O_NONBLOCK) = Ok ()"
    "p = next_id s" "n = accepted_conn c sock sa (a_count (conns s))"
  shows "\<exists>s'. accept_connection os conn s = Some s' \<and> lib_ok s' \<and> conns_ok s' \<and>
    conn_list s' = conn_list s @ [p] \<and> conn_heap s' p = Some n \<and>
    map_lookup (conn_status s') (address_of_conn n) \<noteq> None \<and>
    (if map_lookup (conn_status s) (address_of_conn n) = None
     then \<exists>d. pending s' = pending s @ [\<lparr>pc_conn = p, pc_event = msg_connection_ready, pc_data = d, to_free = None\<rparr>]
     else pending s' = pending s)"
proof -
  define s1 where "s1 = s\<lparr>clock := Suc (Suc (Suc (clock s))),
    trace := trace s @ [Sys_accept (socket c), Sys_fcntl sock, Sys_fcntl sock]\<rparr>"
  have io: "only_io s s1" by (simp add: s1_def only_io_iff)
  note v = only_io_views [OF io]
  have s1: "lib_ok s1" "conns_ok s1" using v assms(1,2) by simp_all
  obtain q s2 where s2: "new_connection (conn_context c) (callback c) s1 = (q, s2)" by fastforce
  have q: "q = p" using s2 assms(7) by (auto simp: new_connection_def Let_def s1_def)
  obtain d where d: "s2 = s1\<lparr>conn_heap := (conn_heap s1)(p := Some d), next_id := p + 1\<rparr>"
    "accepted_conn c sock sa i = d\<lparr>socket := sock, remote_ip := sin_addr sa,
       remote_port := ntohs (sin_port sa), protocol_type := protocol_type c, index := i\<rparr>" for i
    using s2 q by (auto simp: new_connection_def Let_def accepted_conn_def)
  have fresh: "p \<notin> set (conn_list s1)" using fresh_not_listed [OF assms(1,2)] assms(7) v(1) by simp
  have "conns_ok s2" "conn_list s2 = conn_list s1"
    using conns_ok_update_other [OF s1(2) fresh, of "Some d"]
    by (simp_all add: d(1) conns_ok_def conn_list_def pollfd_list_def)
  then have u2: "unplaced s p s2" "conn_heap s2 p = Some d"
    using new_connection_keeps [OF s2 s1(1)] fresh v by (simp_all add: d(1) unplaced_def pending_def)
  let ?f = "\<lambda>n. n\<lparr>socket := sock, remote_ip := sin_addr sa, remote_port := ntohs (sin_port sa),
    protocol_type := protocol_type c, index := a_count (conns s2)\<rparr>"
  note u3 = unplaced_update [OF u2, of ?f]
  let ?s3 = "s2\<lparr>conn_heap := (conn_heap s2)(p := Some (?f d))\<rparr>"
  let ?s4 = "add_to_poll_fds sock poll_mode_read (?s3\<lparr>conns := array__add_item_ptr (conns ?s3) p\<rparr>)"
  have cnt: "a_count (conns s2) = a_count (conns s)" by (simp add: d(1) s1_def)
  have n: "?f d = n" using d(2) assms(8) cnt by simp
  have pl: "placed s p n ?s4" by (rule place_conn [OF u3(2)]) (simp_all add: n [symmetric])
  have run: "accept_connection os conn s = map_option snd (remote_address_seen os p ?s4)"
    using assms(3-6) s2 q u3(1)
    by (simp add: accept_connection_def sys_accept_def syscall_def avoid_sigpipe_def make_non_blocking_def
        s1_def [symmetric] Let_def map_option_case split_def split: option.split)
  have s4: "lib_ok ?s4" "conns_ok ?s4" "conn_heap ?s4 p = Some n" "conn_list ?s4 = conn_list s @ [p]"
    "pending ?s4 = pending s" "conn_status ?s4 = conn_status s"
    using pl by (simp_all add: placed_def)
  show ?thesis
  proof (cases "map_lookup (conn_status s) (address_of_conn n)")
    case (Some st)
    with remote_address_known [OF lib_okD(7) [OF s4(1)] s4(3)] s4 run show ?thesis by auto
  next
    case None
    with remote_address_new [OF s4(1,3), of os] s4(6) obtain m where
      m: "remote_address_seen os p ?s4 = Some (next_id ?s4, seen_state os p n m ?s4)"
        "map_lookup m = (map_lookup (conn_status s))(address_of_conn n \<mapsto> next_id ?s4)"
        "lib_ok (seen_state os p n m ?s4)" by auto
    have "conns_ok (seen_state os p n m ?s4)" "conn_list (seen_state os p n m ?s4) = conn_list ?s4"
      using s4(2) by (simp_all add: conns_ok_def conn_list_def pollfd_list_def)
    with m run None s4 seen_state_pending [OF lib_okD(1) [OF s4(1)], of os p n m] show ?thesis by auto
  qed
qed

end
