(* ===== verification/Datagram.thy ===== *)
theory Datagram
  imports Receive
begin

text \<open>
  Receiving over udp: a datagram becomes one event, with the address that sent it in the preamble
  of its buffer and in the connection. The last section is on message types that the code does not
  expect.
\<close>

section \<open>One datagram\<close>

definition sender_address :: "sockaddr_in \<Rightarrow> Address" where
  "sender_address sa = \<lparr>ip = sin_addr sa, port = ntohs (sin_port sa), addr_protocol = msg_udp\<rparr>"

lemma read_header_udp:
  assumes "conn_heap s conn = Some c" "protocol_type c = msg_udp"
    "os_recv os (clock s) sock header_len True = Ok (header_bytes nh)"
  shows "read_header os sock conn s = Some (Some (host_header nh),
    s\<lparr>clock := Suc (clock s), trace := trace s @ [Sys_recv sock header_len True],
      conn_heap := (conn_heap s)(conn := Some (c\<lparr>reply_id := hdr_reply_id (host_header nh)\<rparr>))\<rparr>)"
  using assms
  by (simp add: read_header_def sys_recv_def syscall_def update_conn_def Let_def header_len_def)

lemma write_packet_datagram:
  assumes "buf_heap s b = Some buf" "length (b_body buf) = length body"
  shows "write_packet b (header_bytes nh @ body) s = Some (s\<lparr>buf_heap := (buf_heap s)(b :=
    Some (buf\<lparr>b_meta := (b_meta buf)\<lparr>md_header := nh\<rparr>, b_body := body\<rparr>))\<rparr>)"
  using assms by (cases buf) (simp add: write_packet_def update_buffer_def write_body_def Let_def)

text \<open>The state in which \<open>read_udp\<close> looks for the status of the sender.\<close>

lemma read_udp_facts:
  assumes "lib_ok s" "conn_heap s conn = Some c" "protocol_type c = msg_udp"
    "os_recvfrom os (Suc (clock s)) sock (msg_len h + header_len) = Ok (header_bytes nh @ body, sa)"
    "length body = msg_len h"
  shows "\<exists>p s' buf c'. read_udp os sock conn h s =
      Some (Some (p, \<lparr>num_bytes = msg_len h, data_bytes = Some (next_id s, 0)\<rparr>), s') \<and>
    buf_heap s' (next_id s) = Some buf \<and> b_body buf = body \<and>
    md_remote_address (b_meta buf) = sender_address sa \<and> md_reply_context (b_meta buf) = null \<and>
    conn_heap s' conn = Some c' \<and> address_of_conn c' = sender_address sa \<and> protocol_type c' = msg_udp \<and>
    map_lookup (conn_status s') (sender_address sa) = Some p \<and> lib_ok s' \<and>
    (if map_lookup (conn_status s) (sender_address sa) = None
     then \<exists>d. pending s' = pending s @ [\<lparr>pc_conn = conn, pc_event = msg_connection_ready, pc_data = d, to_free = None\<rparr>]
     else pending s' = pending s)"
proof -
  let ?b = "next_id s" and ?d = "\<lparr>num_bytes = msg_len h, data_bytes = Some (next_id s, 0)\<rparr>"
  let ?c = "c\<lparr>remote_ip := sin_addr sa, remote_port := ntohs (sin_port sa)\<rparr>"
  obtain d s1 where s1: "msg_new_data_space os (msg_len h) s = (d, s1)" by fastforce
  obtain got s2 where s2: "sys_recvfrom os sock (msg_len h + header_len) s1 = (got, s2)" by fastforce
  have d: "d = ?d" "clock s1 = Suc (clock s)" "conn_heap s1 = conn_heap s" "pending s1 = pending s"
    "conn_status s1 = conn_status s" "buf_heap s1 ?b = Some \<lparr>b_meta = os_malloc_meta os (clock s),
      b_body = map (os_malloc_byte os (clock s)) [0..<msg_len h]\<rparr>"
    using s1 by (auto simp: msg_new_data_space_def Let_def pending_def)
  have io: "only_io s1 s2" using s2 only_io_syscall unfolding sys_recvfrom_def by (metis snd_conv)
  note v = only_io_views [OF io] only_io_fields(10) [OF io]
  have got: "got = Some (header_bytes nh @ body, sa)"
    using s2 assms(4) d(2) by (auto simp: sys_recvfrom_def syscall_def Let_def)
  have ok2: "lib_ok s2" using sys_recvfrom_keeps [OF s2] msg_new_data_space_keeps [OF s1 assms(1)] .
  obtain buf where buf: "buf_heap s2 ?b = Some buf" "length (b_body buf) = length body"
    using d(6) v assms(5) by auto
  define s3 where "s3 = s2\<lparr>buf_heap := (buf_heap s2)(?b := Some (buf\<lparr>b_meta := (b_meta buf)\<lparr>md_header := nh\<rparr>, b_body := body\<rparr>))\<rparr>"
  have w: "write_packet ?b (header_bytes nh @ body) s2 = Some s3"
    using write_packet_datagram [OF buf] by (simp add: s3_def)
  have c3: "conn_heap s3 conn = Some c" using v(6) d(3) assms(2) by (simp add: s3_def)
  define s4 where "s4 = s3\<lparr>conn_heap := (conn_heap s3)(conn := Some ?c)\<rparr>"
  have u: "update_conn conn (\<lambda>c. c\<lparr>remote_ip := sin_addr sa, remote_port := ntohs (sin_port sa)\<rparr>) s3 = Some s4"
    using c3 by (simp add: update_conn_def s4_def)
  have ok4: "lib_ok s4" by (rule update_conn_keeps [OF u write_packet_keeps [OF w ok2]])
  have s4: "conn_heap s4 conn = Some ?c" "conn_status s4 = conn_status s" "pending s4 = pending s"
    "buf_heap s4 ?b = Some (buf\<lparr>b_meta := (b_meta buf)\<lparr>md_header := nh\<rparr>, b_body := body\<rparr>)"
    using v d(4,5) by (simp_all add: s4_def s3_def pending_def)
  have addr: "address_of_conn ?c = sender_address sa"
    using assms(3) by (simp add: address_of_conn_def sender_address_def)
  obtain p s5 where s5: "remote_address_seen os conn s4 = Some (p, s5)" "conn_heap s5 = conn_heap s4"
    "buf_heap s5 ?b = buf_heap s4 ?b" "map_lookup (conn_status s5) (sender_address sa) = Some p" "lib_ok s5"
    "if map_lookup (conn_status s) (sender_address sa) = None
     then \<exists>d. pending s5 = pending s @ [\<lparr>pc_conn = conn, pc_event = msg_connection_ready, pc_data = d, to_free = None\<rparr>]
     else pending s5 = pending s"
  proof (cases "map_lookup (conn_status s) (sender_address sa)")
    case (Some p)
    with that [of p s4] remote_address_known [OF lib_okD(7) [OF ok4] s4(1)] s4 addr ok4 show ?thesis by auto
  next
    case None
    with remote_address_new [OF ok4 s4(1), of os] s4(2) addr obtain m where
      m: "remote_address_seen os conn s4 = Some (next_id s4, seen_state os conn ?c m s4)"
        "map_lookup m = (map_lookup (conn_status s4))(sender_address sa \<mapsto> next_id s4)"
        "lib_ok (seen_state os conn ?c m s4)" by auto
    have "?b < next_id s4"
      using s1 only_io_fields(11) [OF io] by (auto simp: msg_new_data_space_def Let_def s4_def s3_def)
    then have "buf_heap (seen_state os conn ?c m s4) ?b = buf_heap s4 ?b" by (simp add: seen_state_buf_heap)
    with that [OF m(1)] m None seen_state_pending [OF lib_okD(1) [OF ok4], of os conn ?c m] s4(3) show ?thesis
      by auto
  qed
  define meta where "meta = (b_meta buf)\<lparr>md_header := nh, md_reply_context := null, md_remote_address := sender_address sa\<rparr>"
  let ?s6 = "s5\<lparr>buf_heap := (buf_heap s5)(?b := Some (buf\<lparr>b_meta := meta, b_body := body\<rparr>))\<rparr>"
  have "update_buffer ?b (\<lambda>buf. buf\<lparr>b_meta := (b_meta buf)
      \<lparr>md_reply_context := null, md_remote_address := sender_address sa\<rparr>\<rparr>) s5 = Some ?s6"
    using s5(3) s4(4) by (cases buf; cases "b_meta buf") (simp add: update_buffer_def meta_def)
  moreover from this have "lib_ok ?s6" by (rule update_buffer_keeps) (rule s5(5))
  ultimately have "read_udp os sock conn h s = Some (Some (p, ?d), ?s6)" "lib_ok ?s6"
    using s1 s2 got d(1) w u s5(1,2) s4(1) addr
    by (simp_all add: read_udp_def msg_len_def buffer_of_def)
  moreover have "pending ?s6 = pending s5" by (simp add: pending_def)
  ultimately show ?thesis
    using s5 s4(1) addr assms(3) by (intro exI [of _ p] exI [of _ ?s6]) (auto simp: meta_def)
qed

text \<open>
  A datagram whose header gives its true length becomes one event, after the
  \<open>msg_connection_ready\<close> of its sender when that address is new.
\<close>

lemma udp_message:
  assumes "lib_ok s" "conn_heap s conn = Some c" "protocol_type c = msg_udp"
    "os_recv os (clock s) sock header_len True = Ok (header_bytes nh)" "h = host_header nh"
    "event_of_type (message_type h) = Some ev" "message_type h \<noteq> msg_type_reply"
    "os_recvfrom os (clock s + 2) sock (msg_len h + header_len) = Ok (header_bytes nh @ body, sa)"
    "length body = msg_len h"
  shows "\<exists>s' b buf c' call. read_from_socket os sock conn s = Some (True, s') \<and>
    call = \<lparr>pc_conn = conn, pc_event = ev, pc_data = \<lparr>num_bytes = length body, data_bytes = Some (b, 0)\<rparr>, to_free = None\<rparr> \<and>
    buf_heap s' b = Some buf \<and> b_body buf = body \<and> md_remote_address (b_meta buf) = sender_address sa \<and>
    conn_heap s' conn = Some c' \<and> address_of_conn c' = sender_address sa \<and>
    (if map_lookup (conn_status s) (sender_address sa) = None
     then \<exists>d. pending s' = pending s @
        [\<lparr>pc_conn = conn, pc_event = msg_connection_ready, pc_data = d, to_free = None\<rparr>, call]
     else pending s' = pending s @ [call])"
proof -
  let ?c1 = "c\<lparr>reply_id := hdr_reply_id h\<rparr>"
  define s1 where "s1 = s\<lparr>clock := Suc (clock s), trace := trace s @ [Sys_recv sock header_len True],
      conn_heap := (conn_heap s)(conn := Some ?c1)\<rparr>"
  have hdr: "read_header os sock conn s = Some (Some h, s1)"
    using read_header_udp [OF assms(2-4)] assms(5) by (simp add: s1_def)
  have ok1: "lib_ok s1" by (rule read_header_keeps [OF hdr assms(1)])
  define c2 where "c2 = (if message_type h = msg_type_one_way then ?c1\<lparr>reply_id := 0\<rparr> else ?c1)"
  define s2 where "s2 = s1\<lparr>conn_heap := (conn_heap s1)(conn := Some c2)\<rparr>"
  have up: "(if message_type h = msg_type_one_way then update_conn conn (\<lambda>c. c\<lparr>reply_id := 0\<rparr>) s1 else Some s1) = Some s2"
    by (cases "message_type h = msg_type_one_way") (simp_all add: update_conn_def s2_def c2_def s1_def)
  have ok2: "lib_ok s2" using up ok1 by (auto split: if_splits dest: update_conn_keeps)
  have s2: "conn_heap s2 conn = Some c2" "protocol_type c2 = msg_udp" "clock s2 = Suc (clock s)"
    "pending s2 = pending s" "conn_status s2 = conn_status s"
    using assms(3) by (simp_all add: s2_def s1_def c2_def pending_def)
  have "os_recvfrom os (Suc (clock s2)) sock (msg_len h + header_len) = Ok (header_bytes nh @ body, sa)"
    using assms(8) s2(3) by simp
  from read_udp_facts [OF ok2 s2(1,2) this assms(9)] obtain p s3 buf c3 where
    s3: "read_udp os sock conn h s2 = Some (Some (p, \<lparr>num_bytes = msg_len h, data_bytes = Some (next_id s2, 0)\<rparr>), s3)"
      "buf_heap s3 (next_id s2) = Some buf" "b_body buf = body" "md_remote_address (b_meta buf) = sender_address sa"
      "conn_heap s3 conn = Some c3" "address_of_conn c3 = sender_address sa" "lib_ok s3"
      "if map_lookup (conn_status s2) (sender_address sa) = None
       then \<exists>d. pending s3 = pending s2 @ [\<lparr>pc_conn = conn, pc_event = msg_connection_ready, pc_data = d, to_free = None\<rparr>]
       else pending s3 = pending s2" by blast
  let ?s4 = "s3\<lparr>conn_heap := (conn_heap s3)(conn := Some (c3\<lparr>reply_context := null\<rparr>))\<rparr>"
  let ?d = "\<lparr>num_bytes = msg_len h, data_bytes = Some (next_id s2, 0)\<rparr>"
  have c1: "conn_heap s1 conn = Some ?c1" by (simp add: s1_def)
  have "dispatch os sock conn h None s1 = Some (True, send_callback conn ev ?d None ?s4)"
    using c1 assms(3,6,7) event_not_close [OF assms(6)] up s3(1,5)
    by (simp add: dispatch_def match_reply_def update_conn_def Let_def)
  then have "read_from_socket os sock conn s = Some (True, send_callback conn ev ?d None ?s4)"
    using assms(2,3) hdr by (simp add: read_from_socket_def)
  moreover have "pending (send_callback conn ev ?d None ?s4) = pending s3 @
      [\<lparr>pc_conn = conn, pc_event = ev, pc_data = ?d, to_free = None\<rparr>]"
    using lib_okD(1) [OF s3(7)] by (simp add: send_callback_pending)
  moreover have "address_of_conn (c3\<lparr>reply_context := null\<rparr>) = address_of_conn c3"
    by (simp add: address_of_conn_def)
  ultimately show ?thesis
    using s3 s2(4,5) assms(9)
    by (intro exI [of _ "send_callback conn ev ?d None ?s4"] exI [of _ "next_id s2"] exI [of _ buf])
      (auto split: if_splits)
qed

section \<open>Unexpected message types\<close>

text \<open>
  For a heartbeat, and for any type that the protocol does not have, the variable \<open>event\<close> is used
  without having been set: once the message is complete, the run has no defined result.
\<close>

definition unexpected_type :: "u16 \<Rightarrow> bool" where
  "unexpected_type t \<longleftrightarrow> t = msg_type_heartbeat \<or> t > msg_type_close"

lemma unexpected_type_not:
  "unexpected_type t \<Longrightarrow> t \<notin> {msg_type_one_way, msg_type_request, msg_type_reply, msg_type_close}"
  by (auto simp: unexpected_type_def msg_type_defs)

lemma dispatch_unexpected:
  assumes "conn_heap s conn = Some c" "protocol_type c = msg_tcp" "unexpected_type (message_type h)"
  shows "dispatch os sock conn h (Some (p, d)) s = None"
  using assms unexpected_type_not [OF assms(3)]
  by (simp add: dispatch_def match_reply_def update_conn_def event_of_type_def Let_def)

end
