(* ===== verification/Order.thy ===== *)
theory Order
  imports Machine
begin

text \<open>
  The order of the callbacks: \<open>called\<close> lists the callbacks that were made, from the trace. No
  function of the library but \<open>make_call\<close> makes one, so a run of the loop makes those that were
  queued before it came to the callbacks, in the order of the queue, and what they queue waits.
\<close>

fun call_of :: "observed \<Rightarrow> (conn_ptr \<times> msg_Event \<times> msg_Data) list" where
  "call_of (Callback cb p ev d) = [(p, ev, d)]"
| "call_of _ = []"

definition called :: "mbox \<Rightarrow> (conn_ptr \<times> msg_Event \<times> msg_Data) list" where
  "called s = concat (map call_of (trace s))"

definition call_args :: "PendingCall \<Rightarrow> conn_ptr \<times> msg_Event \<times> msg_Data" where
  "call_args pc = (pc_conn pc, pc_event pc, pc_data pc)"

named_theorems quiet \<open>operations that call no user code\<close>

lemma called_fields [simp]:
  "called (s\<lparr>init_done := x1\<rparr>) = called s" "called (s\<lparr>immediate_callbacks := x2\<rparr>) = called s"
  "called (s\<lparr>conns := x3\<rparr>) = called s" "called (s\<lparr>removals := x4\<rparr>) = called s"
  "called (s\<lparr>poll_fds := x5\<rparr>) = called s" "called (s\<lparr>timeouts := x6\<rparr>) = called s"
  "called (s\<lparr>conn_heap := x7\<rparr>) = called s" "called (s\<lparr>buf_heap := x8\<rparr>) = called s"
  "called (s\<lparr>last_errno := x9\<rparr>) = called s" "called (s\<lparr>clock := x10\<rparr>) = called s"
  "called (s\<lparr>conn_status := x11\<rparr>) = called s" "called (s\<lparr>status_heap := x12\<rparr>) = called s"
  "called (s\<lparr>next_id := x13\<rparr>) = called s"
  "called (s\<lparr>trace := trace s @ tr\<rparr>) = called s @ concat (map call_of tr)"
  by (simp_all add: called_def)

section \<open>Primitives\<close>

lemma syscall_quiet: "syscall ob answer s = (r, s') \<Longrightarrow> call_of ob = [] \<Longrightarrow> called s' = called s"
  by (auto simp: syscall_def Let_def called_def split: sysret.splits)

lemma sys_quiet [quiet]:
  "closesocket os k s = (a1, s') \<Longrightarrow> called s' = called s"
  "sys_recv os k n peek s = (a2, s') \<Longrightarrow> called s' = called s"
  "sys_recvfrom os k n s = (a3, s') \<Longrightarrow> called s' = called s"
  "sys_accept os k s = (a4, s') \<Longrightarrow> called s' = called s"
  "sys_socket os proto s = (a5, s') \<Longrightarrow> called s' = called s"
  "sys_setsockopt os k s = (a6, s') \<Longrightarrow> called s' = called s"
  "sys_bind os k sa s = (a7, s') \<Longrightarrow> called s' = called s"
  "sys_connect os k sa s = (a8, s') \<Longrightarrow> called s' = called s"
  "sys_listen os k s = (a9, s') \<Longrightarrow> called s' = called s"
  "sys_sendto os k out sa s = (b1, s') \<Longrightarrow> called s' = called s"
  unfolding closesocket_def sys_recv_def sys_recvfrom_def sys_accept_def sys_socket_def sys_setsockopt_def
    sys_bind_def sys_connect_def sys_listen_def sys_sendto_def
  by (erule syscall_quiet; simp)+

lemma sys_send_quiet [quiet]: "sys_send os k out s = (r, s') \<Longrightarrow> called s' = called s"
  by (auto simp: sys_send_def called_def split: sysret.splits)

lemma now_quiet [quiet]: "now os s = (t, s') \<Longrightarrow> called s' = called s"
  by (auto simp: now_def called_def)

lemma make_non_blocking_quiet [quiet]: "make_non_blocking os k s = (r, s') \<Longrightarrow> called s' = called s"
  by (auto simp: make_non_blocking_def run_iffs syscall_def called_def split: sysret.splits prod.splits
      if_splits)

lemma init_quiet [simp]: "called (init_if_needed s) = called s"
  by (simp add: init_if_needed_def init_poll_fds_def Let_def)

lemma update_quiet [quiet]:
  "update_conn p f s = Some s' \<Longrightarrow> called s' = called s"
  "update_status q g s = Some s' \<Longrightarrow> called s' = called s"
  "update_buffer b h s = Some s' \<Longrightarrow> called s' = called s"
  "free_ptr a s = Some s' \<Longrightarrow> called s' = called s"
  by (auto simp: update_conn_def update_status_def update_buffer_def free_ptr_def split: heap_ptr.splits)

lemma new_quiet [quiet]:
  "msg_new_data_space os n s = (d, s') \<Longrightarrow> called s' = called s"
  "new_connection ctx cb s = (p, s') \<Longrightarrow> called s' = called s"
  "new_conn_status t a s = (q, s') \<Longrightarrow> called s' = called s"
  by (auto simp: msg_new_data_space_def new_connection_def new_conn_status_def Let_def called_def)

lemma msg_new_data_quiet [quiet]: "msg_new_data os str s = Some (d, s') \<Longrightarrow> called s' = called s"
  by (auto simp: msg_new_data_def run_iffs dest!: quiet)

lemma send_callback_quiet [simp]: "called (send_callback conn ev d free s) = called s"
  by (simp add: send_callback_def)

lemma add_to_poll_fds_quiet [simp]: "called (add_to_poll_fds k m s) = called s"
  by (simp add: add_to_poll_fds_def)

lemma send_callback_error_quiet [quiet]:
  "send_callback_error os conn msg free s = Some s' \<Longrightarrow> called s' = called s"
  "send_callback_os_error os conn msg free s = Some s' \<Longrightarrow> called s' = called s"
  by (auto simp: send_callback_error_eq send_callback_os_error_eq error_state_def called_def)

lemma msg_delete_data_quiet [quiet]: "msg_delete_data d s = Some s' \<Longrightarrow> called s' = called s"
  by (auto simp: msg_delete_data_def dest!: quiet)

lemma delete_conn_statuses_quiet [quiet]: "delete_conn_statuses ps s = Some s' \<Longrightarrow> called s' = called s"
  by (induction ps arbitrary: s) (auto simp: delete_conn_status_def dest!: quiet)

lemma conn_status_quiet [quiet]:
  "conn_status_unset a s = Some s' \<Longrightarrow> called s' = called s"
  "conn_status_set a p s = Some s' \<Longrightarrow> called s' = called s"
  by (auto simp: conn_status_unset_def conn_status_set_def Let_def dest!: quiet)

lemma reply_context_quiet [quiet]:
  "reply_context_set p r v s = Some s' \<Longrightarrow> called s' = called s"
  "reply_context_unset p r s = Some s' \<Longrightarrow> called s' = called s"
  by (auto simp: reply_context_set_def reply_context_unset_def dest!: quiet)

lemma timeout_quiet [quiet]: "remove_timeout p r s = Some s' \<Longrightarrow> called s' = called s"
  by (auto simp: remove_timeout_def)

lemma add_timeout_quiet [simp]: "called (add_timeout os conn p r s) = called s"
  by (simp add: add_timeout_def now_def) (simp add: called_def)

lemma status_buffer_quiet [quiet]:
  "new_conn_status_buffer os p h s = Some s' \<Longrightarrow> called s' = called s"
  "delete_conn_status_buffer p s = Some s' \<Longrightarrow> called s' = called s"
  by (auto simp: new_conn_status_buffer_def delete_conn_status_buffer_def run_iffs dest!: quiet)

lemma local_disconnect_quiet [quiet]: "local_disconnect os conn ev s = Some s' \<Longrightarrow> called s' = called s"
  by (auto simp: local_disconnect_def run_iffs dest!: quiet split: if_splits)

lemma set_header_quiet [quiet]: "set_header d t r n s = Some s' \<Longrightarrow> called s' = called s"
  by (auto simp: set_header_def dest!: quiet)

lemma set_conn_to_poll_mode_quiet [quiet]: "set_conn_to_poll_mode i m s = Some s' \<Longrightarrow> called s' = called s"
  by (auto simp: set_conn_to_poll_mode_def)

lemma remove_last_quiet [quiet]: "remove_last_polling_conn s = Some s' \<Longrightarrow> called s' = called s"
  by (auto simp: remove_last_polling_conn_def)

lemma write_quiet [quiet]:
  "write_body b off bs s = Some s' \<Longrightarrow> called s' = called s"
  "write_packet b bs s = Some s' \<Longrightarrow> called s' = called s"
  by (auto simp: write_body_def write_packet_def Let_def dest!: quiet)

lemma remote_address_seen_quiet [quiet]: "remote_address_seen os conn s = Some (p, s') \<Longrightarrow> called s' = called s"
  by (auto simp: remote_address_seen_def run_iffs dest!: quiet)

lemma send_loop_quiet [quiet]: "send_loop os k out s = Some (r, s') \<Longrightarrow> called s' = called s"
proof -
  assume run: "send_loop os k out s = Some (r, s')"
  have "called (snd (r, s')) = called s"
  proof (rule send_loop.raw_induct [where P = "\<lambda>os k out s y. called (snd y) = called s", OF _ run])
    fix f os k out s y
    assume IH: "\<And>os k out s y. f os k out s = Some y \<Longrightarrow> called (snd y) = called s"
      and eq: "(if out = [] then Some (0, s)
        else case sys_send os k out s of (just_sent, s) \<Rightarrow>
          (case just_sent of
             None \<Rightarrow> if get_errno s = EWOULDBLOCK then f os k out s else Some (- 1, s)
           | Some n \<Rightarrow> if n \<le> length out then f os k (drop n out) s else None)) = Some y"
    obtain j s1 where j: "sys_send os k out s = (j, s1)" by fastforce
    have "called s1 = called s" using j by (rule sys_send_quiet)
    then show "called (snd y) = called s"
      using eq j by (auto split: if_splits option.splits dest: IH)
  qed
  then show ?thesis by simp
qed

lemma send_data_quiet [quiet]: "send_data os conn d s = Some (r, s') \<Longrightarrow> called s' = called s"
  by (auto simp: send_data_def send_all_def run_iffs dest!: quiet)

section \<open>Actions\<close>

lemma setup_sockaddr_quiet [quiet]: "setup_sockaddr os address conn s = Some (r, s') \<Longrightarrow> called s' = called s"
  by (auto simp: setup_sockaddr_def run_iffs dest!: quiet)

lemma open_failed_quiet [quiet]: "open_failed os conn fn s = Some s' \<Longrightarrow> called s' = called s"
  by (auto simp: open_failed_def dest!: quiet)

lemma socket_opened_quiet [quiet]: "socket_opened os conn c listening s = Some s' \<Longrightarrow> called s' = called s"
  by (auto simp: socket_opened_def run_iffs split: if_splits dest!: quiet)

lemma setsockopt_snd_quiet [simp]: "called (snd (sys_setsockopt os k s)) = called s"
  by (cases "sys_setsockopt os k s") (auto dest: quiet)

lemma open_sockaddr_quiet [quiet]: "open_sockaddr os conn c listening sa s = Some s' \<Longrightarrow> called s' = called s"
  by (cases listening; cases "protocol_type c = msg_tcp") (auto simp: open_sockaddr_def run_iffs dest!: quiet)

lemma open_socket_quiet [quiet]: "open_socket os address ctx cb listening s = Some s' \<Longrightarrow> called s' = called s"
  by (auto simp: open_socket_def run_iffs dest!: quiet)

lemma msg_unlisten_quiet [quiet]: "msg_unlisten os conn s = Some s' \<Longrightarrow> called s' = called s"
  by (auto simp: msg_unlisten_def run_iffs split: if_splits dest!: quiet)

lemma msg_disconnect_quiet [quiet]: "msg_disconnect os conn s = Some s' \<Longrightarrow> called s' = called s"
  by (auto simp: msg_disconnect_def run_iffs dest!: quiet)

lemma msg_send_quiet [quiet]: "msg_send os conn d s = Some s' \<Longrightarrow> called s' = called s"
  by (auto simp: msg_send_def run_iffs dest!: quiet)

lemma msg_get_quiet [quiet]: "msg_get os conn d ctx s = Some s' \<Longrightarrow> called s' = called s"
  by (auto simp: msg_get_def run_iffs dest!: quiet)

lemma run_action_quiet [quiet]: "run_action os a s = Some s' \<Longrightarrow> called s' = called s"
  by (cases a) (auto simp: msg_listen_def msg_connect_def dest!: quiet simp del: called_fields
      simp: msg_new_data_space_def Let_def called_def)

lemma run_actions_quiet [quiet]: "run_actions os as s = Some s' \<Longrightarrow> called s' = called s"
  by (induction as arbitrary: s) (auto dest!: quiet)

section \<open>The callbacks of a run\<close>

lemma restore_udp_quiet [quiet]: "restore_udp call s = Some (r, s') \<Longrightarrow> called s' = called s"
  by (auto simp: restore_udp_def run_iffs split: if_splits dest!: quiet)

lemma save_udp_quiet [quiet]: "save_udp conn p s = Some s' \<Longrightarrow> called s' = called s"
  by (auto simp: save_udp_def run_iffs split: option.splits if_splits dest!: quiet)

lemma make_call_called:
  "make_call (user_of os prog) call s = Some s' \<Longrightarrow> called s' = called s @ [call_args call]"
  by (auto simp: make_call_def user_of_def call_args_def run_iffs dest!: quiet)

lemma run_calls_called:
  "run_calls (user_of os prog) calls s = Some s' \<Longrightarrow> called s' = called s @ map call_args calls"
  by (induction calls arbitrary: s) (auto dest!: make_call_called)

lemma run_pending_called:
  assumes "array_inv (immediate_callbacks s)" "run_pending (user_of os prog) s = Some s'"
  shows "called s' = called s @ map call_args (pending s)"
  using run_calls_called [of os prog "pending s"] assms by (simp add: run_pending_eq)

end
