(* ===== verification/CSort.thy ===== *)
theory CSort
  imports CArray
begin

text \<open>
  \<open>array__sort\<close> and \<open>array__find\<close> of cstructs/array.c, over the \<open>qsort\<close> and \<open>bsearch\<close> of the C
  library. An item is its bytes; the \<open>item_size\<close> of the array is an argument.

  \<open>qsort\<close> is insertion sort here. The C standard leaves open the order of items that compare equal;
  \<open>sorted_unique\<close> shows that for a comparison in which only equal items compare equal, as the
  default one of \<open>array__sort\<close>, there is nothing left open.
\<close>

section \<open>Comparing items\<close>

text \<open>The loop of \<open>compare_as_ints\<close> from byte \<open>i\<close>; \<open>memcmp\<close> has a result of the same sign.\<close>

function compare_from :: "nat \<Rightarrow> nat \<Rightarrow> bytes \<Rightarrow> bytes \<Rightarrow> int" where
  "compare_from s i i1 i2 =
     (if i < s then
        let diff = uint (i1 ! i) - uint (i2 ! i) in
        if diff \<noteq> 0 then diff else compare_from s (Suc i) i1 i2
      else 0)"
  by pat_completeness auto
termination
  by (relation "measure (\<lambda>(s, i, i1, i2). s - i)") auto

declare compare_from.simps [simp del]

text \<open>The \<open>void *\<close> that a comparison is given: NULL, the address of an item size, or the user's.\<close>

datatype compare_context = No_context | Item_size nat | User_context vptr

type_synonym CompareFn = "compare_context \<Rightarrow> bytes \<Rightarrow> bytes \<Rightarrow> int"

fun compare_as_ints :: CompareFn where
  "compare_as_ints (Item_size s) i1 i2 = compare_from s 0 i1 i2"
| "compare_as_ints _ i1 i2 = 0"

text \<open>The static variables that \<open>custom_compare\<close> and \<open>compare_for_find\<close> read.\<close>

record sort_statics =
  user_compare :: "CompareFn option"
  user_context :: compare_context
  find_item_size :: nat

definition custom_compare :: "sort_statics \<Rightarrow> (bytes \<Rightarrow> bytes \<Rightarrow> int) option" where
  "custom_compare st = map_option (\<lambda>f. f (user_context st)) (user_compare st)"

definition compare_for_find :: "sort_statics \<Rightarrow> bytes \<Rightarrow> bytes \<Rightarrow> int" where
  "compare_for_find st a b = compare_from (find_item_size st) 0 a b"

section \<open>The C library\<close>

fun insert_sorted :: "('a \<Rightarrow> 'a \<Rightarrow> int) \<Rightarrow> 'a \<Rightarrow> 'a list \<Rightarrow> 'a list" where
  "insert_sorted cmp x [] = [x]"
| "insert_sorted cmp x (y # ys) = (if cmp x y \<le> 0 then x # y # ys else y # insert_sorted cmp x ys)"

fun qsort :: "('a \<Rightarrow> 'a \<Rightarrow> int) \<Rightarrow> 'a list \<Rightarrow> 'a list" where
  "qsort cmp [] = []"
| "qsort cmp (x # xs) = insert_sorted cmp x (qsort cmp xs)"

text \<open>The search between the indices \<open>l\<close> and \<open>u\<close>.\<close>

function bsearch_between :: "('a \<Rightarrow> 'a \<Rightarrow> int) \<Rightarrow> 'a \<Rightarrow> 'a list \<Rightarrow> nat \<Rightarrow> nat \<Rightarrow> nat option" where
  "bsearch_between cmp key xs l u =
     (if l < u then
        let idx = (l + u) div 2; c = cmp key (xs ! idx) in
        if c < 0 then bsearch_between cmp key xs l idx
        else if c > 0 then bsearch_between cmp key xs (idx + 1) u
        else Some idx
      else None)"
  by pat_completeness auto
termination
  by (relation "measure (\<lambda>(cmp, key, xs, l, u). u - l)") auto

declare bsearch_between.simps [simp del]

definition bsearch :: "('a \<Rightarrow> 'a \<Rightarrow> int) \<Rightarrow> 'a \<Rightarrow> 'a list \<Rightarrow> nat option" where
  "bsearch cmp key xs = bsearch_between cmp key xs 0 (length xs)"

section \<open>Operations of array.c\<close>

definition array__sort ::
  "sort_statics \<Rightarrow> nat \<Rightarrow> bytes carray \<Rightarrow> CompareFn option \<Rightarrow> compare_context \<Rightarrow> (sort_statics \<times> bytes carray) option" where
  "array__sort st item_size a compare context = do {
     let old_compare = user_compare st;
     let old_context = user_context st;
     let st = (case compare of
         None \<Rightarrow> st\<lparr>user_compare := Some compare_as_ints, user_context := Item_size item_size\<rparr>
       | Some f \<Rightarrow> st\<lparr>user_compare := Some f, user_context := context\<rparr>);
     cmp \<leftarrow> custom_compare st;
     let a = a\<lparr>items := map Some (qsort cmp (array_list a)) @ drop (a_count a) (items a)\<rparr>;
     Some (st\<lparr>user_compare := old_compare, user_context := old_context\<rparr>, a)
   }"

definition array__find :: "sort_statics \<Rightarrow> nat \<Rightarrow> bytes carray \<Rightarrow> bytes \<Rightarrow> nat option \<times> sort_statics" where
  "array__find st item_size a item =
     (let old_size = find_item_size st;
          st = st\<lparr>find_item_size := item_size\<rparr>;
          found_val = bsearch (compare_for_find st) item (array_list a)
      in (found_val, st\<lparr>find_item_size := old_size\<rparr>))"

section \<open>The default order\<close>

text \<open>Comparing from byte \<open>i\<close> on is comparing the rest of the items.\<close>

fun byte_order :: "bytes \<Rightarrow> bytes \<Rightarrow> int" where
  "byte_order (x # xs) (y # ys) = (if x \<noteq> y then uint x - uint y else byte_order xs ys)"
| "byte_order _ _ = 0"

lemma uint_eq_iff [simp]: "uint (a :: u8) = uint b \<longleftrightarrow> a = b"
  by (simp add: word_uint_eq_iff)

lemma compare_from_order:
  assumes "length a = s" "length b = s" "i \<le> s"
  shows "compare_from s i a b = byte_order (drop i a) (drop i b)"
  using assms(3)
proof (induction "s - i" arbitrary: i)
  case 0
  then show ?case using assms by (subst compare_from.simps) simp
next
  case (Suc n)
  then have i: "i < s" by simp
  then have "drop i a = a ! i # drop (Suc i) a" "drop i b = b ! i # drop (Suc i) b"
    using assms by (simp_all add: Cons_nth_drop_Suc)
  moreover have "compare_from s (Suc i) a b = byte_order (drop (Suc i) a) (drop (Suc i) b)"
    using Suc by simp
  ultimately show ?case using i by (subst compare_from.simps) (simp add: Let_def)
qed

lemma compare_as_ints_order:
  "length a = s \<Longrightarrow> length b = s \<Longrightarrow> compare_as_ints (Item_size s) a b = byte_order a b"
  by (simp add: compare_from_order)

lemma byte_order_eq_0: "length a = length b \<Longrightarrow> byte_order a b = 0 \<longleftrightarrow> a = b"
  by (induction a b rule: byte_order.induct) auto

lemma byte_order_flip: "byte_order a b = - byte_order b a"
  by (induction a b rule: byte_order.induct) auto

lemma byte_order_trans:
  "length a = length b \<Longrightarrow> length b = length c \<Longrightarrow> byte_order a b \<le> 0 \<Longrightarrow> byte_order b c \<le> 0 \<Longrightarrow>
    byte_order a c \<le> 0"
proof (induction a b arbitrary: c rule: byte_order.induct)
  case (1 x xs y ys)
  show ?case
  proof (cases c)
    case (Cons z zs)
    then show ?thesis using 1 by (auto split: if_splits)
  qed (use 1 in simp)
qed auto

section \<open>Sorting\<close>

text \<open>A comparison that orders the items of a set: total, transitive, and 0 on equal items only.\<close>

definition orders :: "'a set \<Rightarrow> ('a \<Rightarrow> 'a \<Rightarrow> int) \<Rightarrow> bool" where
  "orders A cmp \<longleftrightarrow> (\<forall>x \<in> A. \<forall>y \<in> A. (cmp x y = 0 \<longleftrightarrow> x = y) \<and> (cmp x y \<le> 0 \<or> cmp y x \<le> 0) \<and>
     (cmp x y \<le> 0 \<and> cmp y x \<le> 0 \<longrightarrow> x = y) \<and> (cmp x y < 0 \<longleftrightarrow> cmp y x > 0) \<and>
     (\<forall>z \<in> A. cmp x y \<le> 0 \<longrightarrow> cmp y z \<le> 0 \<longrightarrow> cmp x z \<le> 0))"

lemma ordersD:
  assumes "orders A cmp" "x \<in> A" "y \<in> A"
  shows "cmp x y = 0 \<longleftrightarrow> x = y" "cmp x y \<le> 0 \<or> cmp y x \<le> 0" "cmp x y < 0 \<longleftrightarrow> cmp y x > 0"
    "z \<in> A \<Longrightarrow> cmp x y \<le> 0 \<Longrightarrow> cmp y z \<le> 0 \<Longrightarrow> cmp x z \<le> 0"
  using assms unfolding orders_def by blast+

lemma byte_order_orders: "orders {x. length x = s} byte_order"
  unfolding orders_def using byte_order_eq_0 byte_order_flip byte_order_trans
  by (smt (verit) mem_Collect_eq)

lemma orders_mono: "orders A cmp \<Longrightarrow> B \<subseteq> A \<Longrightarrow> orders B cmp"
  unfolding orders_def by blast

abbreviation sorted_by :: "('a \<Rightarrow> 'a \<Rightarrow> int) \<Rightarrow> 'a list \<Rightarrow> bool" where
  "sorted_by cmp \<equiv> sorted_wrt (\<lambda>x y. cmp x y \<le> 0)"

lemma mset_insert_sorted [simp]: "mset (insert_sorted cmp x ys) = add_mset x (mset ys)"
  by (induction ys) auto

lemma mset_qsort [simp]: "mset (qsort cmp xs) = mset xs"
  by (induction xs) auto

lemma set_qsort [simp]: "set (qsort cmp xs) = set xs"
  by (metis mset_qsort set_mset_mset)

lemma length_qsort [simp]: "length (qsort cmp xs) = length xs"
  by (metis mset_qsort size_mset)

lemma set_insert_sorted [simp]: "set (insert_sorted cmp x ys) = insert x (set ys)"
  by (induction ys) auto

lemma sorted_insert_sorted:
  assumes "orders A cmp" "insert x (set ys) \<subseteq> A" "sorted_by cmp ys"
  shows "sorted_by cmp (insert_sorted cmp x ys)"
  using assms(2,3)
proof (induction ys)
  case (Cons y ys)
  then have A: "x \<in> A" "y \<in> A" "set ys \<subseteq> A" by auto
  show ?case
  proof (cases "cmp x y \<le> 0")
    case True
    have "cmp x z \<le> 0" if "z \<in> set ys" for z
      using ordersD(4) [OF assms(1) A(1,2), of z] True Cons.prems(2) A(3) that by auto
    with True Cons.prems show ?thesis by simp
  next
    case False
    then have "cmp y x \<le> 0" using ordersD(2) [OF assms(1) A(1,2)] by simp
    with False Cons A show ?thesis by simp
  qed
qed simp

lemma sorted_qsort: "orders (set xs) cmp \<Longrightarrow> sorted_by cmp (qsort cmp xs)"
proof (induction xs)
  case (Cons x xs)
  have "sorted_by cmp (qsort cmp xs)" using Cons by (auto intro: orders_mono)
  then show ?case using sorted_insert_sorted [OF Cons.prems, of x "qsort cmp xs"] by simp
qed simp

text \<open>There is only one sorted arrangement: any correct \<open>qsort\<close> gives this one.\<close>

lemma sorted_unique:
  assumes "orders (set xs) cmp" "sorted_by cmp xs" "sorted_by cmp ys" "mset xs = mset ys"
  shows "xs = ys"
  using assms
proof (induction xs arbitrary: ys)
  case (Cons x xs)
  then obtain y ys' where ys: "ys = y # ys'" by (cases ys) auto
  have sets: "set (x # xs) = set ys" using Cons.prems(4) by (metis set_mset_mset)
  have mem: "x \<in> set (x # xs)" "y \<in> set (x # xs)" "x \<in> set ys" using sets ys by auto
  have self: "cmp x x = 0" using ordersD(1) [OF Cons.prems(1) mem(1) mem(1)] by simp
  have "cmp x y \<le> 0" using mem(2) self Cons.prems(2) by auto
  moreover have "cmp y x \<le> 0" using mem(3) self Cons.prems(3) ys by auto
  ultimately have "x = y"
    using Cons.prems(1) sets ys unfolding orders_def by (metis list.set_intros(1))
  with Cons ys show ?case by (auto intro: orders_mono)
qed simp

section \<open>Searching\<close>

lemma sorted_by_nth:
  "sorted_by cmp xs \<Longrightarrow> i < j \<Longrightarrow> j < length xs \<Longrightarrow> cmp (xs ! i) (xs ! j) \<le> 0"
  by (simp add: sorted_wrt_iff_nth_less)

text \<open>What a comparison with the item at \<open>i\<close> says about the place of the key.\<close>

lemma compare_places:
  assumes "orders (insert key (set xs)) cmp" "sorted_by cmp xs" "i < length xs" "j < length xs" "xs ! j = key"
  shows "cmp key (xs ! i) < 0 \<Longrightarrow> j < i" "cmp key (xs ! i) > 0 \<Longrightarrow> i < j"
proof -
  let ?y = "xs ! i"
  have mem: "key \<in> insert key (set xs)" "?y \<in> insert key (set xs)" using assms(3) by auto
  have flip: "cmp key ?y < 0 \<longleftrightarrow> cmp ?y key > 0" "cmp ?y key < 0 \<longleftrightarrow> cmp key ?y > 0"
    using ordersD(3) [OF assms(1)] mem by blast+
  have self: "cmp key key = 0" using ordersD(1) [OF assms(1) mem(1) mem(1)] by simp
  show "j < i" if "cmp key ?y < 0"
    using that flip sorted_by_nth [OF assms(2), of i j] assms(4,5) self
    by (cases i j rule: linorder_cases) auto
  show "i < j" if "cmp key ?y > 0"
    using that flip sorted_by_nth [OF assms(2), of j i] assms(3,5) self
    by (cases i j rule: linorder_cases) auto
qed

lemma bsearch_between_facts:
  assumes "orders (insert key (set xs)) cmp" "sorted_by cmp xs" "u \<le> length xs"
    "\<forall>j < length xs. xs ! j = key \<longrightarrow> l \<le> j \<and> j < u"
  shows "case bsearch_between cmp key xs l u of None \<Rightarrow> key \<notin> set xs | Some i \<Rightarrow> i < length xs \<and> xs ! i = key"
  using assms
proof (induction cmp key xs l u rule: bsearch_between.induct)
  case (1 cmp key xs l u)
  show ?case
  proof (cases "l < u")
    case False
    then have "key \<notin> set xs" using 1(6) by (fastforce simp: in_set_conv_nth)
    then show ?thesis using False by (subst bsearch_between.simps) simp
  next
    case True
    let ?i = "(l + u) div 2"
    have i: "?i < length xs" using True 1(5) by simp
    note at = compare_places [OF 1(3,4) i]
    consider "cmp key (xs ! ?i) < 0" | "cmp key (xs ! ?i) > 0" | "cmp key (xs ! ?i) = 0" by linarith
    then show ?thesis
    proof cases
      case 1
      moreover have "\<forall>j < length xs. xs ! j = key \<longrightarrow> l \<le> j \<and> j < ?i"
        using at(1) 1 "1.prems"(4) by blast
      ultimately show ?thesis
        using "1.IH"(1) [OF True refl refl] "1.prems" i True
        by (subst bsearch_between.simps) (simp add: Let_def)
    next
      case 2
      moreover have "\<forall>j < length xs. xs ! j = key \<longrightarrow> ?i + 1 \<le> j \<and> j < u"
        using at(2) 2 "1.prems"(4) by (simp add: Suc_le_eq)
      ultimately show ?thesis
        using "1.IH"(2) [OF True refl refl] "1.prems" True
        by (subst bsearch_between.simps) (simp add: Let_def)
    next
      case 3
      moreover have "xs ! ?i = key"
        using 3 ordersD(1) [OF "1.prems"(1), of key "xs ! ?i"] i by auto
      ultimately show ?thesis
        using True i by (subst bsearch_between.simps) (simp add: Let_def)
    qed
  qed
qed

lemma bsearch_facts:
  assumes "orders (insert key (set xs)) cmp" "sorted_by cmp xs"
  shows "case bsearch cmp key xs of None \<Rightarrow> key \<notin> set xs | Some i \<Rightarrow> i < length xs \<and> xs ! i = key"
  unfolding bsearch_def by (rule bsearch_between_facts [OF assms]) auto

section \<open>Arrays\<close>

lemma orders_cong:
  assumes "\<And>x y. x \<in> A \<Longrightarrow> y \<in> A \<Longrightarrow> cmp' x y = cmp x y"
  shows "orders A cmp' \<longleftrightarrow> orders A cmp"
  unfolding orders_def by (intro ball_cong refl) (simp add: assms)

lemma compare_from_orders: "orders {x. length x = s} (compare_from s 0)"
  by (rule iffD2 [OF orders_cong byte_order_orders]) (simp add: compare_from_order)

definition items_sized :: "nat \<Rightarrow> bytes carray \<Rightarrow> bool" where
  "items_sized s a \<longleftrightarrow> (\<forall>x \<in> set (array_list a). length x = s)"

lemma statics_restored [simp]:
  "st\<lparr>user_compare := f, user_context := c, user_compare := user_compare st, user_context := user_context st\<rparr> = st"
  "st\<lparr>find_item_size := n, find_item_size := find_item_size st\<rparr> = st"
  by simp_all

lemma array_sort_run:
  assumes "array_inv a" "compare = None \<Longrightarrow> cmp = compare_from n 0"
    "\<And>f. compare = Some f \<Longrightarrow> cmp = f ctx"
  shows "\<exists>b. array__sort st n a compare ctx = Some (st, b) \<and> array_inv b \<and> array_list b = qsort cmp (array_list a)"
proof -
  let ?b = "a\<lparr>items := map Some (qsort cmp (array_list a)) @ drop (a_count a) (items a)\<rparr>"
  note a = array_invD [OF assms(1)]
  have len: "length (array_list a) = a_count a" by (rule length_array_list [OF assms(1)])
  have "take (a_count a) (items ?b) = map Some (qsort cmp (array_list a))" using len by simp
  from array_invI [OF this] have "array_inv ?b" "array_list ?b = qsort cmp (array_list a)"
    using a len by simp_all
  moreover have "compare_as_ints (Item_size n) = compare_from n 0" by (intro ext) simp
  then have "array__sort st n a compare ctx = Some (st, ?b)"
    using assms(2,3) by (cases compare) (simp_all add: array__sort_def custom_compare_def)
  ultimately show ?thesis by blast
qed

text \<open>
  C33. Sorting with \<open>compare = NULL\<close> succeeds, leaves the static variables as they were, and gives
  the one arrangement of the items that is in ascending \<open>memcmp\<close> order, so the freedom that the C
  standard gives to \<open>qsort\<close> does not show.
\<close>

theorem array_sort_default:
  assumes "array_inv a" "items_sized n a"
  shows "\<exists>b. array__sort st n a None ctx = Some (st, b) \<and> array_inv b \<and>
    mset (array_list b) = mset (array_list a) \<and> sorted_by byte_order (array_list b) \<and>
    (\<forall>ys. sorted_by byte_order ys \<and> mset ys = mset (array_list a) \<longrightarrow> ys = array_list b)"
proof -
  let ?c = "compare_from n 0"
  from array_sort_run [OF assms(1), of None ?c n ctx st] obtain b where
    b: "array__sort st n a None ctx = Some (st, b)" "array_inv b" "array_list b = qsort ?c (array_list a)"
    by auto
  have sets: "set (array_list b) = set (array_list a)" "set (array_list a) \<subseteq> {x. length x = n}"
    using b(3) assms(2) by (auto simp: items_sized_def)
  have "sorted_by ?c (array_list b)"
    unfolding b(3) by (rule sorted_qsort) (rule orders_mono [OF compare_from_orders sets(2)])
  then have sorted: "sorted_by byte_order (array_list b)"
    by (rule sorted_wrt_mono_rel [rotated]) (use sets in \<open>auto simp: compare_from_order subset_iff\<close>)
  have ord: "orders (set (array_list b)) byte_order"
    unfolding sets(1) by (rule orders_mono [OF byte_order_orders sets(2)])
  have same: "mset (array_list b) = mset (array_list a)" by (simp add: b(3))
  have uniq: "\<forall>ys. sorted_by byte_order ys \<and> mset ys = mset (array_list a) \<longrightarrow> ys = array_list b"
  proof (intro allI impI, elim conjE)
    fix ys assume "sorted_by byte_order ys" "mset ys = mset (array_list a)"
    with sorted_unique [OF ord sorted] same show "ys = array_list b" by simp
  qed
  show ?thesis by (intro exI [of _ b] conjI b(1,2) same sorted uniq)
qed

theorem array_sort_default_witness:
  "\<exists>b. array__sort \<lparr>user_compare = None, user_context = No_context, find_item_size = 0\<rparr> 1
      \<lparr>a_count = 2, capacity = 2, items = [Some [7], Some [3]], releaser = False, released = []\<rparr> None No_context
    = Some (\<lparr>user_compare = None, user_context = No_context, find_item_size = 0\<rparr>, b) \<and>
    mset (array_list b) = {#[7], [3]#}"
proof -
  let ?a = "\<lparr>a_count = 2, capacity = 2, items = [Some [7], Some [3]], releaser = False, released = []\<rparr> :: bytes carray"
  have a: "array_inv ?a" "items_sized 1 ?a" "mset (array_list ?a) = {#[7], [3]#}"
    by (simp_all add: array_inv_def items_sized_def array_list_def)
  from array_sort_default [OF a(1,2), of "\<lparr>user_compare = None, user_context = No_context, find_item_size = 0\<rparr>" No_context]
  show ?thesis unfolding a(3) by blast
qed

text \<open>
  C34. \<open>array__find\<close> on an array in ascending \<open>memcmp\<close> order gives the position of an item equal to
  the one asked for, or NULL exactly if there is none, and restores its static variable.
\<close>

theorem array_find_sorted:
  assumes "array_inv a" "items_sized n a" "length item = n" "sorted_by byte_order (array_list a)"
  shows "\<exists>r. array__find st n a item = (r, st) \<and>
    (case r of None \<Rightarrow> item \<notin> set (array_list a) | Some i \<Rightarrow> array__item_val a i = Some item \<and> i < a_count a)"
proof -
  let ?c = "compare_from n 0" and ?st = "st\<lparr>find_item_size := n\<rparr>"
  have cmp: "compare_for_find ?st = ?c" by (intro ext) (simp add: compare_for_find_def)
  have sub: "insert item (set (array_list a)) \<subseteq> {x. length x = n}"
    using assms by (auto simp: items_sized_def)
  have "sorted_by ?c (array_list a)"
    by (rule sorted_wrt_mono_rel [OF _ assms(4)]) (use sub in \<open>auto simp: compare_from_order subset_iff\<close>)
  from bsearch_facts [OF orders_mono [OF compare_from_orders sub] this]
  show ?thesis using array_item_val [OF assms(1)]
    by (auto simp: array__find_def cmp Let_def length_array_list [OF assms(1)] split: option.splits)
qed

theorem array_find_sorted_witness:
  "\<exists>r. array__find \<lparr>user_compare = None, user_context = No_context, find_item_size = 0\<rparr> 1
      \<lparr>a_count = 2, capacity = 2, items = [Some [3], Some [7]], releaser = False, released = []\<rparr> [7]
    = (Some r, \<lparr>user_compare = None, user_context = No_context, find_item_size = 0\<rparr>) \<and> r < 2"
proof -
  let ?a = "\<lparr>a_count = 2, capacity = 2, items = [Some [3], Some [7]], releaser = False, released = []\<rparr> :: bytes carray"
  have a: "array_inv ?a" "items_sized 1 ?a" "length [7 :: u8] = 1" "sorted_by byte_order (array_list ?a)"
    "[7] \<in> set (array_list ?a)" "a_count ?a = 2"
    by (simp_all add: array_inv_def items_sized_def array_list_def)
  from array_find_sorted [OF a(1-4), of "\<lparr>user_compare = None, user_context = No_context, find_item_size = 0\<rparr>"] a(5,6)
  show ?thesis by (auto split: option.splits)
qed

end
