(* ===== verification/MapSpec.thy ===== *)
theory MapSpec
  imports Address
begin

text \<open>
  The map of map.c against its abstract specification, a partial function: any sequence of
  \<open>map__set\<close> and \<open>map__unset\<close> calls, the number of buckets, iteration and the final release.
\<close>

datatype ('k, 'v) map_op = Put 'k 'v | Unset 'k

fun op_key :: "('k, 'v) map_op \<Rightarrow> 'k" where
  "op_key (Put k v) = k"
| "op_key (Unset k) = k"

fun map_step :: "('k, 'v) map_op \<Rightarrow> ('k, 'v) cmap \<Rightarrow> ('k, 'v) cmap option" where
  "map_step (Put k v) m = map__set m k v"
| "map_step (Unset k) m = map__unset m k"

fun map_steps :: "('k, 'v) map_op list \<Rightarrow> ('k, 'v) cmap \<Rightarrow> ('k, 'v) cmap option" where
  "map_steps [] m = Some m"
| "map_steps (c # cs) m = Option.bind (map_step c m) (map_steps cs)"

fun spec_step :: "('k, 'v) map_op \<Rightarrow> ('k \<rightharpoonup> 'v) \<Rightarrow> ('k \<rightharpoonup> 'v)" where
  "spec_step (Put k v) f = f(k \<mapsto> v)"
| "spec_step (Unset k) f = f(k := None)"

abbreviation spec_steps :: "('k, 'v) map_op list \<Rightarrow> ('k \<rightharpoonup> 'v) \<Rightarrow> ('k \<rightharpoonup> 'v)" where
  "spec_steps cs f \<equiv> fold spec_step cs f"

section \<open>The load of a map\<close>

text \<open>
  The quotient \<open>(count + 1) / buckets->count\<close> of two \<open>int\<close>s exceeds 2.5 only from 3 on: there are
  fewer than three pairs per bucket on average.
\<close>

definition load_ok :: "('k, 'v) cmap \<Rightarrow> bool" where
  "load_ok m \<longleftrightarrow> m_count m < 3 * a_count (buckets m)"

lemma over_load_iff: "0 < n \<Longrightarrow> over_load (c div n) \<longleftrightarrow> 3 * n \<le> c"
  using less_eq_div_iff_mult_less_eq [of n 3 c] by (auto simp: over_load_def)

lemma item_set_count: "array__item_set a i x = Some b \<Longrightarrow> a_count b = a_count a"
  by (auto simp: array__item_set_def split: if_splits)

lemma map_set_load:
  assumes "map_inv K m" "load_ok m" "map__set m k v = Some m'"
  shows "load_ok m'"
proof -
  have n: "0 < a_count (buckets m)" by (rule map_invD(2) [OF assms(1)])
  from double_size_facts [OF assms(1)] obtain b where
    b: "double_size m = Some (m\<lparr>buckets := b\<rparr>)" "a_count b = 2 * a_count (buckets m)" by blast
  show ?thesis
    using assms(2,3) n b
    by (auto simp: map__set_def load_ok_def run_iffs over_load_iff dest!: item_set_count split: if_splits)
qed

lemma map_unset_load: "load_ok m \<Longrightarrow> map__unset m k = Some m' \<Longrightarrow> load_ok m'"
  by (auto simp: map__unset_def load_ok_def run_iffs dest!: item_set_count)

lemma load_ok_new: "load_ok (map__new h e)"
  by (simp add: load_ok_def map__new_def MIN_BUCKETS_def array__add_zeroed_items_def Let_def)

section \<open>Sequences of operations\<close>

lemma map_step_facts:
  assumes "map_inv K m" "op_key c \<in> K"
  shows "\<exists>m'. map_step c m = Some m' \<and> map_inv K m' \<and> map_lookup m' = spec_step c (map_lookup m) \<and>
    (load_ok m \<longrightarrow> load_ok m')"
proof (cases c)
  case (Put k v)
  with cmap.put_lookup [of K m k v] map_set_load [of K m k v] assms show ?thesis by fastforce
next
  case (Unset k)
  with cmap.unset_lookup [of K m k] map_unset_load [of m k] assms show ?thesis by fastforce
qed

lemma map_steps_facts:
  assumes "map_inv K m" "load_ok m" "\<forall>c \<in> set cs. op_key c \<in> K"
  shows "\<exists>m'. map_steps cs m = Some m' \<and> map_inv K m' \<and> map_lookup m' = spec_steps cs (map_lookup m) \<and> load_ok m'"
  using assms
proof (induction cs arbitrary: m)
  case (Cons c cs)
  then obtain m1 where "map_step c m = Some m1" "map_inv K m1"
    "map_lookup m1 = spec_step c (map_lookup m)" "load_ok m1"
    using map_step_facts [of K m c] by auto
  with Cons.IH [of m1] Cons.prems(3) show ?case by simp
qed simp

lemma map_steps_new:
  assumes "\<forall>x \<in> K. \<forall>y \<in> K. e x y \<longleftrightarrow> x = y" "\<forall>c \<in> set cs. op_key c \<in> K"
  shows "\<exists>m. map_steps cs (map__new h e) = Some m \<and> map_inv K m \<and>
    map_lookup m = spec_steps cs Map.empty \<and> load_ok m"
  using map_steps_facts [OF map_new_facts(1) [OF assms(1), of h] load_ok_new assms(2)]
  by (simp add: map_new_facts(2) [OF assms(1)])

lemma map_count_card:
  assumes "map_inv K m"
  shows "m_count m = card (dom (map_lookup m))"
proof -
  let ?ps = "concat (bucket_list m)"
  note ps = concat_bucket_list [OF assms]
  have "dom (map_lookup m) = fst ` set ?ps" using ps(2) by (force simp: dom_def)
  moreover have "card (fst ` set ?ps) = length ?ps" using distinct_card [OF ps(1)] by simp
  ultimately show ?thesis using ps(3) by simp
qed

text \<open>
  C13. A map refines a partial function: after any sequence of insertions and removals that starts
  from \<open>map__new\<close>, with collisions, replacements and doublings as they come, every operation has
  succeeded, \<open>map__get\<close> finds for every key the pair that the same updates of a partial function
  give, and \<open>count\<close> is the number of keys.
\<close>

theorem map_refines:
  assumes "\<forall>x \<in> K. \<forall>y \<in> K. e x y \<longleftrightarrow> x = y" "\<forall>c \<in> set cs. op_key c \<in> K"
  shows "\<exists>m. map_steps cs (map__new h e) = Some m \<and>
    (\<forall>k \<in> K. map__get m k = Some (map_option (Pair k) (spec_steps cs Map.empty k))) \<and>
    m_count m = card (dom (spec_steps cs Map.empty))"
proof -
  obtain m where m: "map_steps cs (map__new h e) = Some m" "map_inv K m"
    "map_lookup m = spec_steps cs Map.empty"
    using map_steps_new [OF assms] by blast
  with map_get_lookup [OF m(2)] map_count_card [OF m(2)] show ?thesis by auto
qed

theorem map_refines_witness:
  "\<exists>m. map_steps [Put (1 :: nat) ''a'', Put 2 ''b'', Put 1 ''c'', Unset 2] (map__new (\<lambda>_. 0) (=)) = Some m \<and>
    map__get m 1 = Some (Some (1, ''c'')) \<and> map__get m 2 = Some None"
proof -
  let ?cs = "[Put (1 :: nat) ''a'', Put 2 ''b'', Put 1 ''c'', Unset 2]"
  have "\<forall>x \<in> UNIV. \<forall>y \<in> UNIV. ((=) :: nat \<Rightarrow> nat \<Rightarrow> bool) x y \<longleftrightarrow> x = y" "\<forall>c \<in> set ?cs. op_key c \<in> UNIV"
    by simp_all
  from map_refines [OF this, of "\<lambda>_. 0"] show ?thesis by auto
qed

text \<open>
  C30. The number of buckets keeps up with the number of pairs: after any sequence of operations on
  a new map there are fewer than three pairs per bucket on average, so the comparison of the
  integer load with \<open>MAX_LOAD\<close> acts as the bound 3.
\<close>

theorem map_load_bound:
  assumes "\<forall>x \<in> K. \<forall>y \<in> K. e x y \<longleftrightarrow> x = y" "\<forall>c \<in> set cs. op_key c \<in> K"
    "map_steps cs (map__new h e) = Some m"
  shows "m_count m < 3 * a_count (buckets m)"
  using map_steps_new [OF assms(1,2), of h] assms(3) by (auto simp: load_ok_def)

text \<open>The last pair that 16 buckets take: the load reaches 47 / 16, which is above 2.5.\<close>

lemma fill_map:
  "\<exists>m. map_steps (map (\<lambda>k. Put k ()) [0..<n]) (map__new (\<lambda>_. 0) (=)) = Some m \<and> m_count m = n"
proof -
  let ?cs = "map (\<lambda>k. Put k ()) [0..<n]"
  have h: "\<forall>x \<in> UNIV. \<forall>y \<in> UNIV. ((=) :: nat \<Rightarrow> nat \<Rightarrow> bool) x y \<longleftrightarrow> x = y" "\<forall>c \<in> set ?cs. op_key c \<in> UNIV"
    by simp_all
  from map_steps_new [OF h, of "\<lambda>_. 0"] obtain m where
    m: "map_steps ?cs (map__new (\<lambda>_. 0) (=)) = Some m" "map_inv UNIV m"
    "map_lookup m = spec_steps ?cs Map.empty" by blast
  have "spec_steps ?cs Map.empty = (\<lambda>k. if k < n then Some () else None)"
    by (induction n) (auto simp: fun_eq_iff)
  then have "dom (map_lookup m) = {..<n}" using m(3) by (auto simp: dom_def)
  with m(1) map_count_card [OF m(2)] show ?thesis by simp
qed

theorem map_load_bound_witness:
  "\<exists>m. map_steps (map (\<lambda>k. Put k ()) [0..<47]) (map__new (\<lambda>_. 0) (=)) = Some m \<and>
    m_count m = 47 \<and> 47 < 3 * a_count (buckets m)"
proof -
  let ?cs = "map (\<lambda>k. Put k ()) [0..<47]" and ?new = "map__new (\<lambda>_. 0) (=) :: (nat, unit) cmap"
  obtain m where m: "map_steps ?cs ?new = Some m" "m_count m = 47" using fill_map by blast
  have "\<forall>x \<in> UNIV. \<forall>y \<in> UNIV. ((=) :: nat \<Rightarrow> nat \<Rightarrow> bool) x y \<longleftrightarrow> x = y" "\<forall>c \<in> set ?cs. op_key c \<in> UNIV"
    by (simp_all del: upt_rec_numeral)
  from map_load_bound [OF this m(1)] have "47 < 3 * a_count (buckets m)" unfolding m(2) .
  with m show ?thesis by blast
qed

section \<open>Iteration and release\<close>

text \<open>
  C31. A \<open>map__for\<close> loop over a well-formed map ends, and visits every pair of the map exactly once.
\<close>

theorem map_iteration:
  assumes "map_inv K m"
  shows "\<exists>ps. map_for m (- 1) [] = Some ps \<and> distinct (map fst ps) \<and> length ps = m_count m \<and>
    (\<forall>k v. (k, v) \<in> set ps \<longleftrightarrow> map_lookup m k = Some v)"
  using map_for_all [OF assms] concat_bucket_list [OF assms] by blast

theorem map_iteration_witness:
  "\<exists>m ps. map__set (map__new (\<lambda>_. 7) (=)) (5 :: nat) ''a'' = Some m \<and>
    map_for m (- 1) [] = Some ps \<and> ps = [(5, ''a'')]"
proof -
  have h: "\<forall>x \<in> UNIV. \<forall>y \<in> UNIV. ((=) :: nat \<Rightarrow> nat \<Rightarrow> bool) x y \<longleftrightarrow> x = y" by simp
  have keys: "\<forall>c \<in> set [Put (5 :: nat) ''a'']. op_key c \<in> UNIV" by simp
  from map_steps_new [OF h keys, of "\<lambda>_. 7"]
  obtain m where m: "map__set (map__new (\<lambda>_. 7) (=)) (5 :: nat) ''a'' = Some m" "map_inv UNIV m"
    "map_lookup m = [5 \<mapsto> ''a'']" by auto
  obtain ps where ps: "map_for m (- 1) [] = Some ps" "distinct (map fst ps)"
    "\<forall>k v. (k, v) \<in> set ps \<longleftrightarrow> map_lookup m k = Some v"
    using map_iteration [OF m(2)] by (elim exE conjE) (rule that)
  have "p \<in> set ps \<longleftrightarrow> p = (5, ''a'')" for p
    using ps(3) unfolding m(3) by (cases p) (auto split: if_splits)
  then have set: "set ps = {(5, ''a'')}" by blast
  then have "length ps = 1" using distinct_card [of ps] ps(2) by (simp add: distinct_map)
  with set have "ps = [(5, ''a'')]" by (cases ps) auto
  with m ps show ?thesis by blast
qed



end
