(* ===== verification/AddressText.thy ===== *)
theory AddressText
  imports Address
begin

text \<open>
  The text form of addresses: what \<open>address_as_str\<close> prints and \<open>parse_address_str\<close> reads.
\<close>

text \<open>The connection as \<open>new_connection\<close> makes it.\<close>

definition blank_conn :: msg_Conn where
  "blank_conn = \<lparr>conn_context = null, reply_context = null, callback = 0, remote_ip = 0,
     remote_port = 0, protocol_type = 0, socket = 0, for_listening = False, reply_id = 0, index = 0\<rparr>"

text \<open>Evaluation of the texts in the examples below.\<close>

lemma digit_chars:
  "digit_char 0 = CHR ''0''" "digit_char (Suc 0) = CHR ''1''" "digit_char 2 = CHR ''2''"
  "digit_char 3 = CHR ''3''" "digit_char 5 = CHR ''5''" "digit_char 6 = CHR ''6''" "digit_char 7 = CHR ''7''"
  by (simp_all add: digit_char_def char_of_def bit_Suc_0_iff)

lemmas eval_text = address_as_str_def snprintf_def inet_ntoa_def le32_def dec_string.simps digit_chars
  strtol_def is_digit_def is_space_def digits_val_def digit_val_def

text \<open>
  C28. Printing and parsing are inverse: \<open>parse_address_str\<close> accepts what \<open>address_as_str\<close> prints and
  stores that very address in the connection, whatever its ip and port, and changes nothing else.
\<close>

theorem parse_print:
  assumes "addr_protocol a = msg_tcp \<or> addr_protocol a = msg_udp"
  shows "parse_address_str (address_as_str a) c = (None, set_address_of_conn a c)"
proof -
  have n: "unat (port a) < 2 ^ 63" using unsigned_less [of "port a", where ?'a = nat] by simp
  from assms show ?thesis
    using parse_text [OF _ n, of "''tcp://''" "ip a" c] parse_text [OF _ n, of "''udp://''" "ip a" c]
    by (cases c) (auto simp: address_as_str_eq set_address_of_conn_def)
qed

theorem parse_print_witness:
  "parse_address_str ''udp://127.0.0.1:65535'' blank_conn =
   (None, set_address_of_conn \<lparr>ip = 0x0100007F, port = 65535, addr_protocol = msg_udp\<rparr> blank_conn)"
proof -
  let ?a = "\<lparr>ip = 0x0100007F, port = 65535, addr_protocol = msg_udp\<rparr>"
  have "address_as_str ?a = ''udp://127.0.0.1:65535''" by (simp add: eval_text)
  moreover have "addr_protocol ?a = msg_tcp \<or> addr_protocol ?a = msg_udp" by simp
  ultimately show ?thesis using parse_print [of ?a blank_conn] by metis
qed

text \<open>
  The printed form is never cut off: it is complete and with its terminating null it fits the
  32 bytes of the static buffer.
\<close>

lemma address_str_fits:
  "address_as_str a = (if addr_protocol a = msg_udp then ''udp'' else ''tcp'') @ ''://'' @
     inet_ntoa (ip a) @ '':'' @ dec_string (unat (port a)) \<and> length (address_as_str a) < 32"
proof
  show "length (address_as_str a) < 32" unfolding address_as_str_def Let_def snprintf_def by simp
qed (rule address_as_str_eq)

text \<open>
  Port numbers that do not fit 16 bits are accepted and wrap around: the connection gets the
  port modulo 65536.
\<close>

lemma port_wraps:
  assumes "n < 2 ^ 63"
  shows "\<exists>c'. parse_address_str (''tcp://'' @ inet_ntoa w @ '':'' @ dec_string n) c = (None, c') \<and>
    unat (remote_port c') = n mod 65536 \<and> remote_ip c' = w"
  using parse_text [of "''tcp://''" n w c] assms by (simp add: unat_of_nat)

lemma port_wraps_sample:
  "\<exists>c'. parse_address_str ''tcp://127.0.0.1:65616'' blank_conn = (None, c') \<and> unat (remote_port c') = 80"
proof -
  have n: "(65616 :: nat) < 2 ^ 63" by simp
  have str: "''tcp://'' @ inet_ntoa 0x0100007F @ '':'' @ dec_string 65616 = ''tcp://127.0.0.1:65616''"
    by (simp add: eval_text)
  from port_wraps [OF n, of "0x0100007F" blank_conn] show ?thesis unfolding str by auto
qed

definition address_only :: "msg_Conn \<Rightarrow> msg_Conn \<Rightarrow> bool" where
  "address_only c c' \<longleftrightarrow> c' = set_address_of_conn (address_of_conn c') c"

lemma address_only_simps [simp]:
  "address_only c c" "address_only c (c\<lparr>protocol_type := p\<rparr>)"
  "address_only c (c\<lparr>protocol_type := p, remote_ip := i\<rparr>)"
  "address_only c (c\<lparr>protocol_type := p, remote_ip := i, remote_port := q\<rparr>)"
  by (cases c; simp add: address_only_def set_address_of_conn_def address_of_conn_def)+

lemma parse_address_only: "address_only c (snd (parse_address_str s c))"
  by (simp add: parse_address_str_def Let_def split: option.split prod.split)

lemma parse_protocol:
  "fst (parse_address_str s c) = None \<longrightarrow>
     protocol_type (snd (parse_address_str s c)) = msg_tcp \<or> protocol_type (snd (parse_address_str s c)) = msg_udp"
  by (simp add: parse_address_str_def Let_def split: option.split prod.split)

text \<open>
  C29. Whatever the string, \<open>parse_address_str\<close> touches only the address of the connection, and when
  it reports no error the protocol is tcp or udp, the only values that the rest of the code expects.
\<close>

theorem parse_frame:
  assumes "parse_address_str s c = (err, c')"
  shows "c' = set_address_of_conn (address_of_conn c') c \<and>
    (err = None \<longrightarrow> protocol_type c' = msg_tcp \<or> protocol_type c' = msg_udp)"
  using parse_address_only [of c s] parse_protocol [of s c] assms by (simp add: address_only_def)

theorem parse_frame_witness:
  "\<exists>c'. parse_address_str ''udp://*:80'' blank_conn = (None, c') \<and>
    c' = set_address_of_conn (address_of_conn c') blank_conn"
proof -
  obtain err c' where p: "parse_address_str ''udp://*:80'' blank_conn = (err, c')" by fastforce
  have "fst (parse_address_str ''udp://*:80'' blank_conn) = None"
    by (simp add: parse_address_str_def eval_text)
  with p parse_frame [OF p] show ?thesis by auto
qed

end
