(* ===== verification/Platform.thy ===== *)
theory Platform
  imports AddressText Complex_Main
begin

text \<open>
  The functions that differ between platforms or only talk to the terminal: the two clocks of
  msgbox_now.h, \<open>library_init_\<close> and \<open>print_bytes\<close> of msgbox.c.

  Numbers of type double are rational here, so that what rounding does is not modelled.
\<close>

section \<open>The two clocks\<close>

text \<open>
  The static \<open>counts_per_sec\<close> with its flag is an optional value; \<open>frequency\<close> and \<open>counts\<close> are what
  the performance counter answers at the time of the call.
\<close>

definition now_win :: "int \<Rightarrow> int \<Rightarrow> rat option \<Rightarrow> rat \<times> rat option" where
  "now_win frequency counts counts_per_sec =
     (let counts_per_sec = (case counts_per_sec of None \<Rightarrow> rat_of_int frequency | Some c \<Rightarrow> c);
          seconds = rat_of_int counts / counts_per_sec
      in (seconds, Some counts_per_sec))"

definition now_unix :: "int \<Rightarrow> int \<Rightarrow> rat" where
  "now_unix tv_sec tv_usec = rat_of_int tv_sec + rat_of_int tv_usec / 10 ^ 6"

text \<open>
  The frequency counts from the first call on, whatever is reported later, and the clock of windows
  never runs backwards.
\<close>

lemma now_win_keeps_frequency:
  "now_win f' n' (snd (now_win f n None)) = (rat_of_int n' / rat_of_int f, Some (rat_of_int f))"
  by (simp add: now_win_def Let_def)

lemma now_win_mono:
  assumes "0 < f" "n \<le> n'"
  shows "fst (now_win f n None) \<le> fst (now_win f' n' (snd (now_win f n None)))"
  using assms by (simp add: now_win_def Let_def divide_right_mono)

text \<open>
  What the rest of the model takes for \<open>now\<close>, a number of microseconds, orders times as the code
  does, and a second is a million of them.
\<close>

lemma now_unix_micro: "now_unix a b * 10 ^ 6 = rat_of_int (a * 10 ^ 6 + b)"
  by (simp add: now_unix_def field_simps)

lemma now_unix_due:
  "now_unix a b + rat_of_int n \<le> now_unix a' b' \<longleftrightarrow> (a * 10 ^ 6 + b) + n * 10 ^ 6 \<le> a' * 10 ^ 6 + b'"
proof -
  have "now_unix a b + rat_of_int n \<le> now_unix a' b' \<longleftrightarrow>
      (now_unix a b + rat_of_int n) * 10 ^ 6 \<le> now_unix a' b' * 10 ^ 6"
    by (rule mult_le_cancel_right_pos [symmetric]) simp
  also have "\<dots> \<longleftrightarrow> rat_of_int ((a * 10 ^ 6 + b) + n * 10 ^ 6) \<le> rat_of_int (a' * 10 ^ 6 + b')"
    by (simp only: distrib_right now_unix_micro) simp
  finally show ?thesis by (simp only: of_int_le_iff)
qed

text \<open>
  The comment in the header promises seconds since the start of 1970 on both platforms. The windows
  version starts from whenever the counter did: it reports 1 when the other reports more than 10^9.
\<close>

lemma clocks_differ:
  "fst (now_win 10000000 10000000 None) = 1" "now_unix 1400000000 0 = 1400000000"
  by (simp_all add: now_win_def now_unix_def Let_def)

section \<open>Starting winsock\<close>

text \<open>\<open>wsa_startup\<close> is \<open>WSAStartup\<close>; the result is the line on stderr, if there is one.\<close>

definition MAKEWORD :: "u8 \<Rightarrow> u8 \<Rightarrow> u16" where
  "MAKEWORD low high = ucast low OR push_bit 8 (ucast high)"

definition library_init :: "(u16 \<Rightarrow> int) \<Rightarrow> int option" where
  "library_init wsa_startup =
     (let version_requested = MAKEWORD 2 0; err = wsa_startup version_requested
      in if err \<noteq> 0 then Some err else None)"

lemma library_init_version: "library_init f = (if f 2 \<noteq> 0 then Some (f 2) else None)"
proof -
  have "MAKEWORD 2 0 = 2" unfolding MAKEWORD_def by simp
  then show ?thesis by (simp add: library_init_def)
qed

section \<open>Printing bytes\<close>

text \<open>\<open>%02X\<close>\<close>

definition hex_digit :: "nat \<Rightarrow> char" where
  "hex_digit n = ''0123456789ABCDEF'' ! n"

fun hex_digits :: "nat \<Rightarrow> string" where
  "hex_digits n = (if n < 16 then [hex_digit n] else hex_digits (n div 16) @ [hex_digit (n mod 16)])"

declare hex_digits.simps [simp del]

definition hex_02 :: "nat \<Rightarrow> string" where
  "hex_02 n = (if n < 16 then CHR ''0'' # hex_digits n else hex_digits n)"

text \<open>
  \<open>char\<close> is signed on the platforms of the build files; as an argument of \<open>printf\<close> it becomes an
  \<open>int\<close>, which \<open>%X\<close> takes as unsigned.
\<close>

definition char_as_unsigned :: "u8 \<Rightarrow> nat" where
  "char_as_unsigned c = (if unat c < 128 then unat c else 2 ^ 32 - 256 + unat c)"

definition print_bytes :: "bytes \<Rightarrow> string" where
  "print_bytes bytes =
     ''bytes ('' @ dec_string (length bytes) @ '') :'' @
     concat (map (\<lambda>c. '' 0x'' @ hex_02 (char_as_unsigned c)) bytes) @ [CHR 0x0A]"

lemma hex_digits_snoc: "0 < n \<Longrightarrow> d < 16 \<Longrightarrow> hex_digits (16 * n + d) = hex_digits n @ [hex_digit d]"
  by (subst hex_digits.simps) simp

text \<open>A byte below 128 takes two digits, one from 128 on eight of them, the first six being F.\<close>

lemma hex_02_byte:
  assumes "n < 256"
  shows "hex_02 n = [hex_digit (n div 16), hex_digit (n mod 16)]"
proof (cases "n < 16")
  case True
  then show ?thesis by (simp add: hex_02_def hex_digits.simps [of n]) (simp add: hex_digit_def)
next
  case False
  with assms have "n div 16 < 16" by simp
  with False show ?thesis by (simp add: hex_02_def hex_digits.simps [of n] hex_digits.simps [of "n div 16"])
qed

lemma print_byte:
  "hex_02 (char_as_unsigned c) = (if unat c < 128 then [] else ''FFFFFF'') @
     [hex_digit (unat c div 16), hex_digit (unat c mod 16)]"
proof -
  have c: "unat c < 256" by (rule order.strict_trans2 [OF unsigned_less]) simp
  show ?thesis
  proof (cases "unat c < 128")
    case False
    let ?d = "unat c div 16" and ?e = "unat c mod 16"
    have split: "2 ^ 32 - 256 + unat c = 16 * (16 * 0xFFFFFF + ?d) + ?e" by simp
    have "hex_digits 0xFFFFFF = ''FFFFFF''" by (simp add: hex_digits.simps hex_digit_def)
    then have "hex_digits (16 * 0xFFFFFF + ?d) = ''FFFFFF'' @ [hex_digit ?d]"
      using c hex_digits_snoc [of "0xFFFFFF" ?d] by simp
    then have "hex_digits (2 ^ 32 - 256 + unat c) = ''FFFFFF'' @ [hex_digit ?d, hex_digit ?e]"
      unfolding split by (subst hex_digits_snoc) simp_all
    with False show ?thesis by (simp add: char_as_unsigned_def hex_02_def)
  qed (use c in \<open>simp add: char_as_unsigned_def hex_02_byte\<close>)
qed

end
