(* ===== verification/Sequences.thy ===== *)
theory Sequences
  imports CArray CList
begin

text \<open>
  The arrays of array.c and the lists of list.c against their abstract specification, a sequence of
  items: any sequence of array operations, the growth of the buffer, and the list operations that
  walk or rebuild a chain of nodes.
\<close>

section \<open>Arrays\<close>

datatype 'a array_op = Append 'a | Insert nat "'a list" | Remove nat | Fill nat | Assign nat 'a | Clear

fun array_step :: "'a \<Rightarrow> 'a array_op \<Rightarrow> 'a carray \<Rightarrow> 'a carray option" where
  "array_step z (Append x) a = Some (array__add_item_ptr a x)"
| "array_step z (Insert i xs) a = array__insert_items z a i xs"
| "array_step z (Remove i) a = array__remove_item a i"
| "array_step z (Fill i) a = array__remove_and_fill a i"
| "array_step z (Assign i x) a = array__item_set a i x"
| "array_step z Clear a = Some (array__clear a)"

fun array_steps :: "'a \<Rightarrow> 'a array_op list \<Rightarrow> 'a carray \<Rightarrow> 'a carray option" where
  "array_steps z [] a = Some a"
| "array_steps z (c # cs) a = Option.bind (array_step z c a) (array_steps z cs)"

text \<open>The specification; an operation outside of the sequence has no meaning.\<close>

fun seq_step :: "'a array_op \<Rightarrow> 'a list \<Rightarrow> 'a list option" where
  "seq_step (Append x) xs = Some (xs @ [x])"
| "seq_step (Insert i ys) xs = (if i \<le> length xs then Some (take i xs @ ys @ drop i xs) else None)"
| "seq_step (Remove i) xs = (if i < length xs then Some (take i xs @ drop (Suc i) xs) else None)"
| "seq_step (Fill i) xs = (if i < length xs then Some (butlast (xs[i := last xs])) else None)"
| "seq_step (Assign i x) xs = (if i < length xs then Some (xs[i := x]) else None)"
| "seq_step Clear xs = Some []"

fun seq_steps :: "'a array_op list \<Rightarrow> 'a list \<Rightarrow> 'a list option" where
  "seq_steps [] xs = Some xs"
| "seq_steps (c # cs) xs = Option.bind (seq_step c xs) (seq_steps cs)"

lemma array_step_refines:
  assumes "array_inv a" "seq_step c (array_list a) = Some xs"
  shows "\<exists>b. array_step z c a = Some b \<and> array_inv b \<and> array_list b = xs"
proof -
  note len = length_array_list [OF assms(1)]
  show ?thesis
  proof (cases c)
    case (Append x)
    then show ?thesis using assms by (auto simp: array_simps array_invs)
  next
    case (Insert i ys)
    then show ?thesis
      using array_insert_facts [OF assms(1), of i z ys] assms(2) len by (auto split: if_splits)
  next
    case (Remove i)
    then show ?thesis
      using array_remove_facts [OF assms(1), of i] assms(2) len by (auto split: if_splits)
  next
    case (Fill i)
    then show ?thesis
      using array_remove_and_fill_facts [OF assms(1), of i] assms(2) len by (auto split: if_splits)
  next
    case (Assign i x)
    then show ?thesis
      using array_set_facts [OF assms(1), of i x] assms(2) len by (auto split: if_splits)
  next
    case Clear
    then show ?thesis using assms by (auto simp: array_simps array_invs)
  qed
qed

lemma array_steps_refine:
  "array_inv a \<Longrightarrow> seq_steps cs (array_list a) = Some xs \<Longrightarrow>
    \<exists>b. array_steps z cs a = Some b \<and> array_inv b \<and> array_list b = xs"
proof (induction cs arbitrary: a)
  case (Cons c cs)
  then obtain ys where ys: "seq_step c (array_list a) = Some ys" "seq_steps cs ys = Some xs" by auto
  with array_step_refines [OF Cons.prems(1) ys(1), of z] Cons.IH show ?case by fastforce
qed simp

text \<open>
  C14. An array refines a sequence: whatever operations follow \<open>array__new\<close>, with reallocation and
  moving of items as they come, as long as every index is inside the sequence at that moment no
  operation touches memory outside the buffer or reads an indeterminate slot, and the array then
  holds the items that the same operations on a sequence give.
\<close>

theorem array_refines:
  assumes "seq_steps cs [] = Some xs"
  shows "\<exists>a. array_steps z cs (array__new c) = Some a \<and> array_inv a \<and> array_list a = xs \<and>
    (\<forall>i < length xs. array__item_val a i = Some (xs ! i))"
proof -
  from array_steps_refine [OF array_new_inv, of cs c xs z] assms obtain a where
    a: "array_steps z cs (array__new c) = Some a" "array_inv a" "array_list a = xs"
    by (auto simp: array_simps)
  with array_item_val [OF a(2)] length_array_list [OF a(2)] show ?thesis by auto
qed

theorem array_refines_witness:
  "\<exists>a. array_steps 0 [Append (4 :: nat), Insert 0 [1, 2, 3], Fill 1, Remove 0] (array__new 1) = Some a \<and>
    array_list a = [4, 3]"
proof -
  have "seq_steps [Append (4 :: nat), Insert 0 [1, 2, 3], Fill 1, Remove 0] [] = Some [4, 3]" by simp
  from array_refines [OF this, of 0 1] show ?thesis by blast
qed

lemma appended_capacity:
  assumes "array_inv a" "capacity a \<le> max n (2 * a_count a)"
  shows "array_inv (foldl array__add_item_ptr a xs) \<and>
    capacity (foldl array__add_item_ptr a xs) \<le> max n (2 * (a_count a + length xs))"
  using assms
proof (induction xs arbitrary: a)
  case (Cons x xs)
  let ?b = "array__add_item_ptr a x"
  have b: "array_inv ?b" "a_count ?b = Suc (a_count a)"
    using Cons.prems(1) by (simp add: array_invs, simp add: array__add_item_ptr_def array__new_ptr_def Let_def)
  have "capacity ?b \<le> max n (2 * a_count ?b)"
    using array_add_capacity(1) [OF Cons.prems(1), of x] Cons.prems(2) b(2) by auto
  from Cons.IH [OF b(1) this] b(2) show ?case by simp
qed simp

text \<open>
  Appending wastes at most half of the buffer: an array made with capacity \<open>c\<close> that has been
  given \<open>n\<close> items one by one has a buffer of at most \<open>max c (2 n)\<close> slots (and at least one).
\<close>

lemma array_capacity_bound:
  "capacity (foldl array__add_item_ptr (array__new c) xs) \<le> max (max 1 (nat c)) (2 * length xs) \<and>
   length xs \<le> capacity (foldl array__add_item_ptr (array__new c) xs)"
proof -
  have new: "capacity (array__new c) \<le> max (max 1 (nat c)) (2 * a_count (array__new c))"
    "a_count (array__new c) = 0"
    by (simp_all add: array__new_def array__init_def Let_def)
  from appended_capacity [OF array_new_inv new(1), of xs] new(2)
  have "capacity (foldl array__add_item_ptr (array__new c) xs) \<le> max (max 1 (nat c)) (2 * length xs)"
    by simp
  moreover have all: "array_inv (foldl array__add_item_ptr (array__new c) xs)"
    "array_list (foldl array__add_item_ptr (array__new c) xs) = xs"
    using carray.push_all_new [of c xs] by blast+
  ultimately show ?thesis
    using length_array_list [OF all(1)] all by (simp add: array_inv_def)
qed

section \<open>Lists\<close>

definition remove_entry :: "link \<Rightarrow> ('a \<Rightarrow> bool) \<Rightarrow> 'a lstore \<Rightarrow> ('a option \<times> 'a lstore) option" where
  "remove_entry list p s = do {
     entry \<leftarrow> list__find_entry list p s;
     case entry of None \<Rightarrow> Some (None, s) | Some l \<Rightarrow> list__remove_first l s
   }"

text \<open>
  Finding an entry and removing it there, as \<open>map__unset\<close> does, works through pointers into
  the chain: it returns, takes out exactly the first item that satisfies the predicate, and keeps
  every other list that shares no node with this one.
\<close>

lemma list_find_remove:
  assumes "is_list s r as xs" "first_pos p xs = Some i"
  shows "\<exists>s'. remove_entry (Root r) p s = Some (Some (xs ! i), s') \<and>
    is_list s' r (take i as @ drop (Suc i) as) (take i xs @ drop (Suc i) xs) \<and>
    (\<forall>r' bs ys. r' \<noteq> r \<longrightarrow> set as \<inter> set bs = {} \<longrightarrow> is_list s r' bs ys \<longrightarrow> is_list s' r' bs ys)"
proof -
  have i: "i < length as" using assms is_list_simps(1) [OF assms(1)] by (simp add: first_pos_Some)
  from remove_at [OF assms(1) i] obtain s' where
    s': "list__remove_first (link_at r as i) s = Some (Some (xs ! i), s')"
    "is_list s' r (take i as @ drop (Suc i) as) (take i xs @ drop (Suc i) xs)"
    "\<forall>a. a \<notin> set as \<longrightarrow> cells s' a = cells s a" "\<forall>r'. r' \<noteq> r \<longrightarrow> roots s' r' = roots s r'"
    "fresh s' = fresh s" by blast
  have "is_list s' r' bs ys" if "r' \<noteq> r" "set as \<inter> set bs = {}" "is_list s r' bs ys" for r' bs ys
    using is_list_frame [OF that(3), of s' "set as"] s'(3-5) that by auto
  then show ?thesis
    using s'(1,2) find_entry_list [OF assms(1), of p] assms(2) by (auto simp: remove_entry_def)
qed

definition two_lists :: "nat lstore" where
  "two_lists = \<lparr>roots = (\<lambda>_. None)(0 := Some 1, 5 := Some 3),
     cells = (\<lambda>_. None)(1 := Some (10, Some 2), 2 := Some (20, None), 3 := Some (30, None)), fresh = 4\<rparr>"

lemma two_lists: "is_list two_lists 0 [1, 2] [10, 20]" "is_list two_lists 5 [3] [30]"
  by (simp_all add: two_lists_def is_list_def)

lemma list_find_remove_sample:
  "\<exists>s'. remove_entry (Root 0) (\<lambda>x. x = 20) two_lists = Some (Some 20, s') \<and>
    is_list s' 0 [1] [10] \<and> is_list s' 5 [3] [30]"
proof -
  have p: "first_pos (\<lambda>x. x = 20) [10, 20 :: nat] = Some 1" by simp
  have l5: "(5 :: nat) \<noteq> 0" "set [1, 2] \<inter> set [3 :: nat] = {}" by simp_all
  from list_find_remove [OF two_lists(1) p] obtain s' where
    "remove_entry (Root 0) (\<lambda>x. x = 20) two_lists = Some (Some ([10, 20] ! 1), s')"
    "is_list s' 0 (take 1 [1, 2] @ drop (Suc 1) [1, 2]) (take 1 [10, 20] @ drop (Suc 1) [10, 20])"
    "is_list s' 5 [3] [30]"
    using l5 two_lists(2) by blast
  then show ?thesis by auto
qed

text \<open>
  \<open>list__reverse\<close> returns the length, reverses the list in place, on the same nodes, and undoes
  itself: two reversals give the list that was there.
\<close>

lemma list_reverse_twice:
  assumes "is_list s r as xs"
  shows "\<exists>s1 s2. list__reverse (Root r) s = Some (length xs, s1) \<and> is_list s1 r (rev as) (rev xs) \<and>
    list__reverse (Root r) s1 = Some (length xs, s2) \<and> is_list s2 r as xs"
proof -
  from reverse_list [OF assms] obtain s1 where
    s1: "list__reverse (Root r) s = Some (length xs, s1)" "is_list s1 r (rev as) (rev xs)" by blast
  from reverse_list [OF s1(2)] obtain s2 where
    "list__reverse (Root r) s1 = Some (length (rev xs), s2)" "is_list s2 r (rev (rev as)) (rev (rev xs))"
    by blast
  with s1 show ?thesis by auto
qed

text \<open>
  C40. \<open>list__delete_and_release\<close> returns, calls the releaser on every item once, in order, leaves
  the list variable NULL and frees all of its nodes and nothing else.
\<close>

theorem list_delete_frees:
  assumes "is_list s r as xs"
  shows "\<exists>s'. list__delete_and_release True (Root r) s = Some (xs, s') \<and> is_list s' r [] [] \<and>
    {a. cells s' a \<noteq> None} = {a. cells s a \<noteq> None} - set as \<and>
    (\<forall>a. a \<notin> set as \<longrightarrow> cells s' a = cells s a)"
proof -
  from delete_loop_seg [OF assms, of True "[]"] obtain s' where
    s': "delete_loop True (Root r) [] s = Some (xs, s')" "roots s' r = None"
    "\<forall>a \<in> set as. cells s' a = None" "\<forall>a. a \<notin> set as \<longrightarrow> cells s' a = cells s a" by auto
  have "is_list s' r [] []" using s'(2) by (simp add: is_list_def)
  moreover have "cells s' a \<noteq> None \<longleftrightarrow> cells s a \<noteq> None \<and> a \<notin> set as" for a
    using s'(3,4) by (cases "a \<in> set as") (simp_all del: not_None_eq)
  then have "{a. cells s' a \<noteq> None} = {a. cells s a \<noteq> None} - set as" by blast
  moreover have "list__delete_and_release True (Root r) s = Some (xs, s')"
    using s'(1) by (simp only: list__delete_and_release_def)
  ultimately show ?thesis using s'(4) by blast
qed

theorem list_delete_frees_witness:
  "\<exists>s'. list__delete_and_release True (Root 0) two_lists = Some ([10, 20], s') \<and> is_list s' 0 [] []"
  using list_delete_frees [OF two_lists(1)] by blast

end
