(* ===== verification/ForLoops.thy ===== *)
theory ForLoops
  imports Runloop Sequences
begin

text \<open>
  The loops that the headers of the containers define as macros: \<open>array__for\<close> of array.h and \<open>list__for\<close>
  of list.h. Their bodies are parameters. The loops over \<open>conns\<close> and over the saved callbacks are
  instances of the first.
\<close>

section \<open>Loops over an array\<close>

text \<open>
  The count is read afresh in every round, so items that the body appends are visited too; \<open>arr\<close> is
  the array in a state. The result is \<open>None\<close> when an item is read that is not there.
\<close>

partial_function (option) array__for_from ::
  "('s \<Rightarrow> 'a carray) \<Rightarrow> (nat \<Rightarrow> 'a \<Rightarrow> 's \<Rightarrow> 's option) \<Rightarrow> nat \<Rightarrow> 's \<Rightarrow> 's option" where
  "array__for_from arr body i s =
     (if i < a_count (arr s) then do {
        item \<leftarrow> array__item_val (arr s) i;
        s \<leftarrow> body i item s;
        array__for_from arr body (Suc i) s
      } else Some s)"

declare array__for_from.simps [code]

definition array__for :: "('s \<Rightarrow> 'a carray) \<Rightarrow> (nat \<Rightarrow> 'a \<Rightarrow> 's \<Rightarrow> 's option) \<Rightarrow> 's \<Rightarrow> 's option" where
  "array__for arr body = array__for_from arr body 0"

text \<open>The items one after the other, each with its index.\<close>

fun run_items :: "(nat \<Rightarrow> 'a \<Rightarrow> 's \<Rightarrow> 's option) \<Rightarrow> nat \<Rightarrow> 'a list \<Rightarrow> 's \<Rightarrow> 's option" where
  "run_items body i [] s = Some s"
| "run_items body i (x # xs) s = Option.bind (body i x s) (run_items body (Suc i) xs)"

text \<open>A body that leaves the array alone runs once for each item, in order.\<close>

lemma array_for_from_items:
  assumes "array_inv (arr s)" "i \<le> a_count (arr s)" "\<And>i x s s'. body i x s = Some s' \<Longrightarrow> arr s' = arr s"
  shows "array__for_from arr body i s = run_items body i (drop i (array_list (arr s))) s"
  using assms(1,2)
proof (induction "a_count (arr s) - i" arbitrary: i s)
  case 0
  then show ?case using length_array_list [OF 0(2)] by (subst array__for_from.simps) simp
next
  case (Suc n)
  then have i: "i < a_count (arr s)" by simp
  let ?x = "array_list (arr s) ! i"
  have item: "array__item_val (arr s) i = Some ?x" using array_item_val [OF Suc.prems(1) i] .
  have drop: "drop i (array_list (arr s)) = ?x # drop (Suc i) (array_list (arr s))"
    using i length_array_list [OF Suc.prems(1)] by (simp add: Cons_nth_drop_Suc)
  show ?case
  proof (cases "body i ?x s")
    case None
    then show ?thesis using i item drop by (subst array__for_from.simps) simp
  next
    case (Some s')
    with assms(3) have same: "arr s' = arr s" by blast
    have "array__for_from arr body (Suc i) s' = run_items body (Suc i) (drop (Suc i) (array_list (arr s'))) s'"
      using Suc.hyps(2) Suc.prems(1) i by (intro Suc.hyps(1)) (simp_all add: same)
    then show ?thesis using i item drop Some same by (subst array__for_from.simps) simp
  qed
qed

lemma array_for_items:
  assumes "array_inv (arr s)" "\<And>i x s s'. body i x s = Some s' \<Longrightarrow> arr s' = arr s"
  shows "array__for arr body s = run_items body 0 (array_list (arr s)) s"
proof -
  have "array__for_from arr body 0 s = run_items body 0 (drop 0 (array_list (arr s))) s"
    by (rule array_for_from_items) (use assms in auto)
  then show ?thesis by (simp add: array__for_def)
qed

text \<open>The loop over the saved callbacks is a loop of this kind, over an array that nobody changes.\<close>

lemma make_calls_is_array_for:
  "make_calls_from user saved i s = array__for_from (\<lambda>_. saved) (\<lambda>_ call. make_call user call) i s"
proof (induction user saved i s rule: make_calls_from.induct)
  case (1 user saved i s)
  show ?case
  proof (cases "i < a_count saved")
    case True
    with 1 show ?thesis
      by (subst make_calls_from.simps, subst array__for_from.simps) (auto intro!: Option.bind_cong)
  qed (subst make_calls_from.simps, subst array__for_from.simps, simp)
qed

section \<open>Loops over a list\<close>

text \<open>
  The variable of the loop is read through the node, after the body as well: a body that frees the
  node it is called for has no defined continuation.
\<close>

partial_function (option) list__for_from ::
  "('s \<Rightarrow> 'a lstore) \<Rightarrow> ('a \<Rightarrow> 's \<Rightarrow> 's option) \<Rightarrow> addr option \<Rightarrow> 's \<Rightarrow> 's option" where
  "list__for_from st body node s = (case node of
       None \<Rightarrow> Some s
     | Some a \<Rightarrow>
         Option.bind (cells (st s) a) (\<lambda>(item, _).
         Option.bind (body item s) (\<lambda>s.
         Option.bind (read_link (st s) (NextOf a)) (\<lambda>nxt.
         list__for_from st body nxt s))))"

declare list__for_from.simps [code]

definition list__for :: "('s \<Rightarrow> 'a lstore) \<Rightarrow> ('a \<Rightarrow> 's \<Rightarrow> 's option) \<Rightarrow> link \<Rightarrow> 's \<Rightarrow> 's option" where
  "list__for st body list s = Option.bind (read_link (st s) list) (\<lambda>node. list__for_from st body node s)"

lemma list_for_from_items:
  assumes "seg (cells (st s)) p as xs None" "\<And>x s s'. body x s = Some s' \<Longrightarrow> cells (st s') = cells (st s)"
  shows "list__for_from st body p s = run_items (\<lambda>_. body) i xs s"
  using assms(1)
proof (induction as arbitrary: p xs s i)
  case Nil
  then show ?case by (cases xs) (auto simp: list__for_from.simps)
next
  case (Cons a as)
  then obtain x xs' q where x: "xs = x # xs'" "p = Some a" "cells (st s) a = Some (x, q)"
    "seg (cells (st s)) q as xs' None" by (cases xs) (auto split: option.splits)
  show ?case
  proof (cases "body x s")
    case (Some s')
    with assms(2) have "cells (st s') = cells (st s)" by blast
    with Cons.IH [of s' q xs' "Suc i"] x Some show ?thesis by (subst list__for_from.simps) simp
  qed (use x in \<open>subst list__for_from.simps, simp\<close>)
qed

text \<open>A body that leaves the nodes alone runs once for each item of the list, in order.\<close>

lemma list_for_items:
  assumes "is_list (st s) r as xs" "\<And>x s s'. body x s = Some s' \<Longrightarrow> cells (st s') = cells (st s)"
  shows "list__for st body (Root r) s = run_items (\<lambda>_. body) 0 xs s"
proof -
  have "seg (cells (st s)) (roots (st s) r) as xs None" using assms(1) by (simp add: is_list_def)
  then have "list__for_from st body (roots (st s) r) s = run_items (\<lambda>_. body) 0 xs s"
    by (rule list_for_from_items) (use assms in auto)
  then show ?thesis by (simp add: list__for_def)
qed

text \<open>
  A body that frees its own node, as a user might write to empty a list, has no defined outcome.
\<close>

lemma list_for_freed:
  assumes "is_list (st s) r (a # as) (x # xs)" "body x s = Some s'" "cells (st s') a = None"
  shows "list__for st body (Root r) s = None"
proof -
  have "roots (st s) r = Some a" "\<exists>q. cells (st s) a = Some (x, q)"
    using assms(1) by (auto simp: is_list_def split: option.splits)
  with assms(2,3) show ?thesis by (auto simp: list__for_def list__for_from.simps)
qed

end
