(* ===== verification/Removals.thy ===== *)
theory Removals
  imports Samples
begin

text \<open>
  Taking connections out: what \<open>local_disconnect\<close> and \<open>msg_unlisten\<close> do, and what the run loop makes
  of the indices that they leave in \<open>removals\<close>.
\<close>

section \<open>Disconnecting\<close>

lemma close_facts: "\<exists>e. closesocket os k s =
    (case os_close os (clock s) k of Ok u \<Rightarrow> Some u | Err x \<Rightarrow> None,
     s\<lparr>clock := clock s + 1, trace := trace s @ [Sys_close k], last_errno := e\<rparr>)"
  by (cases "os_close os (clock s) k")
    (auto simp: closesocket_def syscall_def Let_def intro: exI [of _ "last_errno s"])

lemma removals_list_push:
  "array_inv a \<Longrightarrow> array_list (array__add_item_ptr a x) = array_list a @ [x]"
  by (simp add: array_simps)

lemma local_disconnect_facts:
  assumes "lib_ok s" "conn_heap s p = Some c"
  shows "\<exists>s'. local_disconnect os p ev s = Some s' \<and> lib_ok s' \<and>
    map_lookup (conn_status s') = (map_lookup (conn_status s))(address_of_conn c := None) \<and>
    conn_list s' = conn_list s \<and> pollfd_list s' = pollfd_list s \<and> conn_heap s' = conn_heap s \<and>
    (if for_listening c \<and> protocol_type c = msg_udp
     then pending s' = pending s @ [\<lparr>pc_conn = p, pc_event = ev, pc_data = msg_no_data, to_free = None\<rparr>] \<and>
       array_list (removals s') = array_list (removals s) \<and> trace s' = trace s
     else pending s' = pending s @ [\<lparr>pc_conn = p, pc_event = ev, pc_data = msg_no_data, to_free = Some (ConnPtr p)\<rparr>] \<and>
       array_list (removals s') = array_list (removals s) @ [index c] \<and> trace s' = trace s @ [Sys_close (socket c)])"
proof -
  note ok = lib_okD [OF assms(1)]
  from conn_status_unset_facts [OF ok(7), of "address_of_conn c"] obtain m f where
    m: "conn_status_unset (address_of_conn c) s = Some (s\<lparr>conn_status := m, status_heap := f\<rparr>)"
    "map_lookup m = (map_lookup (conn_status s))(address_of_conn c := None)" by blast
  let ?udp = "for_listening c \<and> protocol_type c = msg_udp"
  let ?s1 = "send_callback p ev msg_no_data (if ?udp then None else Some (ConnPtr p)) (s\<lparr>conn_status := m, status_heap := f\<rparr>)"
  from close_facts [of os "socket c" ?s1] obtain r e where
    cl: "closesocket os (socket c) ?s1 =
      (r, ?s1\<lparr>clock := clock ?s1 + 1, trace := trace ?s1 @ [Sys_close (socket c)], last_errno := e\<rparr>)" by blast
  let ?s2 = "?s1\<lparr>clock := clock ?s1 + 1, trace := trace ?s1 @ [Sys_close (socket c)], last_errno := e,
    removals := array__add_item_ptr (removals ?s1) (index c)\<rparr>"
  define s' where "s' = (if ?udp then ?s1 else ?s2)"
  have run: "local_disconnect os p ev s = Some s'"
    using assms(2) m(1) cl by (simp add: local_disconnect_def s'_def Let_def)
  have pend: "pending ?s1 = pending s @
      [\<lparr>pc_conn = p, pc_event = ev, pc_data = msg_no_data, to_free = (if ?udp then None else Some (ConnPtr p))\<rparr>]"
    using send_callback_pending(1) [of "s\<lparr>conn_status := m, status_heap := f\<rparr>"] ok(1) by (simp add: pending_def)
  show ?thesis
  proof (intro exI [of _ s'] conjI run)
    show "lib_ok s'" using local_disconnect_keeps [OF run] assms(1) by simp
    show "map_lookup (conn_status s') = (map_lookup (conn_status s))(address_of_conn c := None)"
      by (simp add: s'_def m(2))
    show "conn_list s' = conn_list s" "pollfd_list s' = pollfd_list s" "conn_heap s' = conn_heap s"
      by (simp_all add: s'_def conn_list_def pollfd_list_def)
    show "if ?udp
     then pending s' = pending s @ [\<lparr>pc_conn = p, pc_event = ev, pc_data = msg_no_data, to_free = None\<rparr>] \<and>
       array_list (removals s') = array_list (removals s) \<and> trace s' = trace s
     else pending s' = pending s @ [\<lparr>pc_conn = p, pc_event = ev, pc_data = msg_no_data, to_free = Some (ConnPtr p)\<rparr>] \<and>
       array_list (removals s') = array_list (removals s) @ [index c] \<and> trace s' = trace s @ [Sys_close (socket c)]"
    proof (cases ?udp)
      case True
      then show ?thesis using pend by (simp add: s'_def)
    next
      case False
      then have "s' = ?s2" unfolding s'_def by (rule if_not_P)
      with False pend ok(3) show ?thesis
        by (simp only: if_not_P) (simp add: pending_def removals_list_push)
    qed
  qed
qed

text \<open>
  C10. \<open>local_disconnect\<close> takes the remote address out of the status map, closes the socket, queues
  exactly the given event, whose callback frees the connection object, and leaves the connection's
  index for removal; it touches neither of the index-matched arrays. A listening udp connection only
  loses the status of its current remote address: it keeps its socket and its place.
\<close>

theorem disconnect_outcome:
  assumes "lib_ok s" "conn_heap s p = Some c"
  shows "\<exists>s'. local_disconnect os p ev s = Some s' \<and> lib_ok s' \<and>
    map_lookup (conn_status s') = (map_lookup (conn_status s))(address_of_conn c := None) \<and>
    conn_list s' = conn_list s \<and> pollfd_list s' = pollfd_list s \<and> conn_heap s' = conn_heap s \<and>
    (if for_listening c \<and> protocol_type c = msg_udp
     then pending s' = pending s @ [\<lparr>pc_conn = p, pc_event = ev, pc_data = msg_no_data, to_free = None\<rparr>] \<and>
       array_list (removals s') = array_list (removals s) \<and> trace s' = trace s
     else pending s' = pending s @ [\<lparr>pc_conn = p, pc_event = ev, pc_data = msg_no_data, to_free = Some (ConnPtr p)\<rparr>] \<and>
       array_list (removals s') = array_list (removals s) @ [index c] \<and> trace s' = trace s @ [Sys_close (socket c)])"
  using assms by (rule local_disconnect_facts)

theorem disconnect_outcome_witness:
  "\<exists>s'. local_disconnect sample_os 1 msg_connection_lost sample_open = Some s' \<and>
    array_list (removals s') = array_list (removals sample_open) @ [0]"
proof -
  have "conn_heap sample_open 1 = Some sample_conn" by simp
  from disconnect_outcome [OF sample_open_ok this, of sample_os msg_connection_lost] show ?thesis by auto
qed

text \<open>
  C27. \<open>msg_unlisten\<close> closes the listening socket twice: once itself and once more through
  \<open>local_disconnect\<close>, by when its descriptor may belong to another socket of the process.
\<close>

theorem unlisten_closes_twice:
  assumes "lib_ok s" "p \<noteq> 0" "conn_heap s p = Some c" "for_listening c" "os_close os (clock s) (socket c) = Ok ()"
  shows "\<exists>s'. msg_unlisten os p s = Some s' \<and> trace s' = trace s @ [Sys_close (socket c), Sys_close (socket c)]"
proof -
  let ?c = "c\<lparr>for_listening := False\<rparr>"
  let ?s1 = "s\<lparr>conn_heap := (conn_heap s)(p := Some ?c), clock := clock s + 1, trace := trace s @ [Sys_close (socket c)]\<rparr>"
  have upd: "update_conn p (\<lambda>c. c\<lparr>for_listening := False\<rparr>) s = Some (s\<lparr>conn_heap := (conn_heap s)(p := Some ?c)\<rparr>)"
    using assms(3) by (simp add: update_conn_def)
  have cl: "closesocket os (socket c) (s\<lparr>conn_heap := (conn_heap s)(p := Some ?c)\<rparr>) = (Some (), ?s1)"
    using assms(5) by (simp add: closesocket_def syscall_def)
  have run: "msg_unlisten os p s = local_disconnect os p msg_listening_ended ?s1"
    using assms upd cl by (simp add: msg_unlisten_def)
  have ok: "lib_ok ?s1"
    using closesocket_keeps [OF cl] update_conn_keeps [OF upd] assms(1) by blast
  have c: "conn_heap ?s1 p = Some ?c" by simp
  from local_disconnect_facts [OF ok c, of os msg_listening_ended] show ?thesis unfolding run by auto
qed

theorem unlisten_closes_twice_witness:
  "\<exists>s s'. msg_unlisten sample_os 1 s = Some s' \<and> trace s' = trace s @ [Sys_close 3, Sys_close 3]"
proof -
  let ?f = "\<lambda>c. c\<lparr>for_listening := True\<rparr>"
  define s where s: "s = sample_open\<lparr>conn_heap := (conn_heap sample_open)(1 := Some (?f sample_conn))\<rparr>"
  have "update_conn 1 ?f sample_open = Some s" by (simp add: s update_conn_def)
  from update_conn_keeps [OF this sample_open_ok] have "lib_ok s" .
  moreover have "conn_heap s 1 = Some (?f sample_conn)" by (simp add: s)
  ultimately show ?thesis
    using unlisten_closes_twice [of s 1 "?f sample_conn" sample_os] by auto
qed

section \<open>Processing the removals\<close>

text \<open>
  C11. The loop over \<open>removals\<close> takes out exactly the connections at the listed indices, keeps the
  two arrays index-matched and empties the list, provided that the indices are in descending order.
\<close>

theorem removals_descending:
  assumes "conns_ok s" "array_inv (removals s)" "sorted_wrt (>) (array_list (removals s))"
    "\<forall>i \<in> set (array_list (removals s)). i < a_count (conns s)"
  shows "\<exists>s'. process_removals s = Some s' \<and> conns_ok s' \<and> array_list (removals s') = [] \<and>
    mset (conn_list s') = mset (conn_list s) - mset (map ((!) (conn_list s)) (array_list (removals s)))"
proof -
  have "remove_conns_from (removals s) 0 s = remove_conns (array_list (removals s)) s"
    using remove_conns_from_run [OF assms(2), of 0] by simp
  with remove_conns_descending [OF assms(1,3,4)] obtain s1 where
    s1: "remove_conns_from (removals s) 0 s = Some s1" "conns_ok s1"
    "mset (conn_list s1) = mset (conn_list s) - mset (map ((!) (conn_list s)) (array_list (removals s)))" by auto
  let ?s = "s1\<lparr>removals := array__clear (removals s1)\<rparr>"
  have "conns_ok ?s = conns_ok s1" "conn_list ?s = conn_list s1" by (rule conns_ok_cong; simp)+
  with s1 show ?thesis
    by (intro exI [of _ ?s]) (simp add: process_removals_def array_simps)
qed

text \<open>Three connections in the arrays.\<close>

lemma array_of_three:
  obtains a :: "'a carray" where "array_inv a" "array_list a = [x, y, z]"
  using carray.push_all_new [of 8 "[x, y, z]"] by blast

definition three_conns :: "conn_ptr carray \<Rightarrow> pollfd carray \<Rightarrow> nat carray \<Rightarrow> mbox" where
  "three_conns a b r = sample_start\<lparr>conns := a, poll_fds := b, removals := r, next_id := 4,
     conn_heap := [1 \<mapsto> sample_conn, 2 \<mapsto> sample_conn\<lparr>index := 1\<rparr>, 3 \<mapsto> sample_conn\<lparr>index := 2\<rparr>]\<rparr>"

lemma sample_three:
  obtains a b where "conns_ok (three_conns a b r)" "conn_list (three_conns a b r) = [1, 2, 3]"
    "a_count (conns (three_conns a b r)) = 3"
proof -
  let ?f = "\<lparr>fd = 3, events = POLLIN, revents = 0\<rparr>"
  obtain a :: "conn_ptr carray" where a: "array_inv a" "array_list a = [1, 2, 3]" by (rule array_of_three)
  obtain b where b: "array_inv b" "array_list b = [?f, ?f, ?f]" by (rule array_of_three)
  have "matched (conn_heap (three_conns a b r)) [1, 2, 3] [?f, ?f, ?f]"
    by (auto simp: matched_def three_conns_def less_Suc_eq numeral_3_eq_3)
  with a b length_array_list [OF a(1)] show thesis
    by (intro that [of a b]) (simp_all add: conns_ok_def conn_list_def pollfd_list_def three_conns_def)
qed

theorem removals_descending_witness:
  "\<exists>s s'. conn_list s = [1, 2, 3] \<and> process_removals s = Some s' \<and> conns_ok s' \<and> mset (conn_list s') = {#2#}"
proof -
  obtain r :: "nat carray" where r: "array_inv r" "array_list r = [2, 0]"
    using carray.push_all_new [of 8 "[2, 0]"] by blast
  obtain a b where s: "conns_ok (three_conns a b r)" "conn_list (three_conns a b r) = [1, 2, 3]"
    "a_count (conns (three_conns a b r)) = 3" by (rule sample_three)
  have rem: "removals (three_conns a b r) = r" by (simp add: three_conns_def)
  have h: "array_inv (removals (three_conns a b r))" "sorted_wrt (>) (array_list (removals (three_conns a b r)))"
    "\<forall>i \<in> set (array_list (removals (three_conns a b r))). i < a_count (conns (three_conns a b r))"
    unfolding rem using r s(3) by simp_all
  from removals_descending [OF s(1) h] show ?thesis unfolding rem r(2) using s(2) by fastforce
qed

text \<open>
  Indices that go stale. Removing the connection at index 0 moves the last one there; an index
  beyond the end then makes the array one shorter all the same.
\<close>

lemma fill_beyond:
  assumes "array_inv a" "0 < a_count a" "a_count a \<le> i" "i < capacity a"
  shows "\<exists>b. array__remove_and_fill a i = Some b \<and> array_inv b \<and> array_list b = butlast (array_list a) \<and>
    a_count b = a_count a - 1"
proof -
  define a1 where "a1 = (if releaser a then a\<lparr>released := released a @ [items a ! i]\<rparr> else a)"
  have a1: "items a1 = items a" "a_count a1 = a_count a" "capacity a1 = capacity a" by (simp_all add: a1_def)
  let ?b = "a1\<lparr>items := (items a)[i := items a ! (a_count a - 1)], a_count := a_count a - 1\<rparr>"
  note inv = array_invD [OF assms(1)]
  have len: "length (items a) = capacity a" "a_count a \<le> capacity a" using assms(1) by (simp_all add: array_inv_def)
  have run: "array__remove_and_fill a i = Some ?b"
    using assms len by (simp add: array__remove_and_fill_def Let_def a1_def)
  have "take (a_count a - 1) (items a) = take (a_count a - 1) (take (a_count a) (items a))" by simp
  also have "\<dots> = map Some (butlast (array_list a))"
    unfolding inv(5) by (simp add: butlast_conv_take take_map length_array_list [OF assms(1)])
  finally have "take (a_count a - 1) (items ?b) = map Some (butlast (array_list a))"
    using assms(3) by simp
  from array_invI [OF this] len a1 assms(2) run show ?thesis by auto
qed

lemma fill_capacity: "array__remove_and_fill a i = Some b \<Longrightarrow> capacity b = capacity a"
  by (auto simp: array__remove_and_fill_def Let_def)

lemma remove_conn_at_capacity:
  "remove_conn_at i s = Some s' \<Longrightarrow> capacity (conns s') = capacity (conns s) \<and>
    capacity (poll_fds s') = capacity (poll_fds s)"
  by (auto simp: remove_conn_at_def remove_from_poll_fds_def update_conn_def Let_def dest: fill_capacity split: if_splits)



end
