(* ===== verification/Queueing.thy ===== *)
theory Queueing
  imports Order
begin

text \<open>
  The queue of callbacks through a whole run of the loop. \<open>grown z s\<close>: between \<open>z\<close> and \<open>s\<close> no
  callback was made and the queue was only appended to. Everything that \<open>msg_runloop\<close> does before it
  comes to the callbacks is of that kind.
\<close>

definition grown :: "mbox \<Rightarrow> mbox \<Rightarrow> bool" where
  "grown z s \<longleftrightarrow> called s = called z \<and>
     (\<exists>cs. immediate_callbacks s = foldl array__add_item_ptr (immediate_callbacks z) cs)"

named_theorems grows \<open>operations that at most append to the queue of callbacks\<close>

lemma grown_refl [simp]: "grown s s"
  unfolding grown_def by (simp add: exI [of _ "[]"])

lemma grown_same:
  "immediate_callbacks s' = immediate_callbacks s \<Longrightarrow> called s' = called s \<Longrightarrow> grown z s \<Longrightarrow> grown z s'"
  by (simp add: grown_def)

lemma grown_fields [simp]:
  "grown z (s\<lparr>conns := x3\<rparr>) = grown z s" "grown z (s\<lparr>removals := x4\<rparr>) = grown z s"
  "grown z (s\<lparr>poll_fds := x5\<rparr>) = grown z s" "grown z (s\<lparr>timeouts := x6\<rparr>) = grown z s"
  "grown z (s\<lparr>conn_heap := x7\<rparr>) = grown z s" "grown z (s\<lparr>buf_heap := x8\<rparr>) = grown z s"
  "grown z (s\<lparr>last_errno := x9\<rparr>) = grown z s" "grown z (s\<lparr>clock := y1\<rparr>) = grown z s"
  "grown z (s\<lparr>conn_status := y2\<rparr>) = grown z s" "grown z (s\<lparr>status_heap := y3\<rparr>) = grown z s"
  "grown z (s\<lparr>next_id := y4\<rparr>) = grown z s"
  "call_of ob = [] \<Longrightarrow> grown z (s\<lparr>trace := trace s @ [ob]\<rparr>) = grown z s"
  "call_of ob = [] \<Longrightarrow> grown z (s\<lparr>clock := c, trace := trace s @ [ob]\<rparr>) = grown z s"
  by (simp_all add: grown_def) (simp add: called_def)

lemma grown_send_callback [simp]: "grown z s \<Longrightarrow> grown z (send_callback conn ev d free s)"
proof -
  assume "grown z s"
  then obtain cs where "called s = called z" "immediate_callbacks s = foldl array__add_item_ptr (immediate_callbacks z) cs"
    by (auto simp: grown_def)
  then have "called (send_callback conn ev d free s) = called z"
    "immediate_callbacks (send_callback conn ev d free s) = foldl array__add_item_ptr (immediate_callbacks z)
       (cs @ [\<lparr>pc_conn = conn, pc_event = ev, pc_data = d, to_free = free\<rparr>])"
    by (simp_all add: send_callback_def)
  then show ?thesis unfolding grown_def by blast
qed

section \<open>Primitives\<close>

lemma syscall_grows: "syscall ob answer s = (r, s') \<Longrightarrow> call_of ob = [] \<Longrightarrow> grown z s \<Longrightarrow> grown z s'"
  by (rule grown_same) (auto simp: syscall_def Let_def called_def split: sysret.splits)

lemma sys_grows [grows]:
  "closesocket os k s = (a1, s') \<Longrightarrow> grown z s \<Longrightarrow> grown z s'"
  "sys_recv os k n peek s = (a2, s') \<Longrightarrow> grown z s \<Longrightarrow> grown z s'"
  "sys_recvfrom os k n s = (a3, s') \<Longrightarrow> grown z s \<Longrightarrow> grown z s'"
  "sys_accept os k s = (a4, s') \<Longrightarrow> grown z s \<Longrightarrow> grown z s'"
  unfolding closesocket_def sys_recv_def sys_recvfrom_def sys_accept_def
  by (erule syscall_grows; simp)+

lemma sys_so_error_grows [grows]: "sys_so_error os k s = (e, s') \<Longrightarrow> grown z s \<Longrightarrow> grown z s'"
  by (auto simp: sys_so_error_def)

lemma now_grows [grows]: "now os s = (t, s') \<Longrightarrow> grown z s \<Longrightarrow> grown z s'"
  by (auto simp: now_def)

lemma make_non_blocking_grows [grows]: "make_non_blocking os k s = (r, s') \<Longrightarrow> grown z s \<Longrightarrow> grown z s'"
  by (auto simp: make_non_blocking_def run_iffs split: prod.splits option.splits
      dest!: syscall_grows [where ob = "Sys_fcntl k", simplified])

lemma check_poll_fds_grows [grows]: "check_poll_fds os ms s = (n, s') \<Longrightarrow> grown z s \<Longrightarrow> grown z s'"
  by (auto simp: check_poll_fds_def run_iffs split: prod.splits option.splits
      dest!: syscall_grows [where ob = "Sys_poll fds ms" for fds, simplified])

lemma update_grows [grows]:
  "update_conn p f s = Some s' \<Longrightarrow> grown z s \<Longrightarrow> grown z s'"
  "update_status q g s = Some s' \<Longrightarrow> grown z s \<Longrightarrow> grown z s'"
  "update_buffer b h s = Some s' \<Longrightarrow> grown z s \<Longrightarrow> grown z s'"
  "free_ptr a s = Some s' \<Longrightarrow> grown z s \<Longrightarrow> grown z s'"
  by (auto simp: update_conn_def update_status_def update_buffer_def free_ptr_def split: heap_ptr.splits)

lemma new_grows [grows]:
  "msg_new_data_space os n s = (d, s') \<Longrightarrow> grown z s \<Longrightarrow> grown z s'"
  "new_connection ctx cb s = (p, s') \<Longrightarrow> grown z s \<Longrightarrow> grown z s'"
  "new_conn_status t a s = (q, s') \<Longrightarrow> grown z s \<Longrightarrow> grown z s'"
  by (auto simp: msg_new_data_space_def new_connection_def new_conn_status_def Let_def grown_def called_def)

lemma msg_new_data_grows [grows]: "msg_new_data os str s = Some (d, s') \<Longrightarrow> grown z s \<Longrightarrow> grown z s'"
  by (auto simp: msg_new_data_def run_iffs dest!: grows)

lemma send_callback_error_grows [grows]:
  "send_callback_error os conn msg free s = Some s' \<Longrightarrow> grown z s \<Longrightarrow> grown z s'"
  by (auto simp: send_callback_error_def run_iffs dest!: grows)

lemma send_callback_os_error_grows [grows]:
  "send_callback_os_error os conn msg free s = Some s' \<Longrightarrow> grown z s \<Longrightarrow> grown z s'"
  by (auto simp: send_callback_os_error_def dest!: grows)

lemma msg_delete_data_grows [grows]: "msg_delete_data d s = Some s' \<Longrightarrow> grown z s \<Longrightarrow> grown z s'"
  by (auto simp: msg_delete_data_def dest!: grows)

lemma delete_conn_statuses_grows [grows]: "delete_conn_statuses ps s = Some s' \<Longrightarrow> grown z s \<Longrightarrow> grown z s'"
  by (induction ps arbitrary: s) (auto simp: delete_conn_status_def dest!: grows)

lemma conn_status_grows [grows]:
  "conn_status_unset a s = Some s' \<Longrightarrow> grown z s \<Longrightarrow> grown z s'"
  "conn_status_set a p s = Some s' \<Longrightarrow> grown z s \<Longrightarrow> grown z s'"
  by (auto simp: conn_status_unset_def conn_status_set_def Let_def dest!: grows)

lemma reply_context_grows [grows]: "reply_context_unset p r s = Some s' \<Longrightarrow> grown z s \<Longrightarrow> grown z s'"
  by (auto simp: reply_context_unset_def dest!: grows)

lemma timeout_grows [grows]: "remove_timeout p r s = Some s' \<Longrightarrow> grown z s \<Longrightarrow> grown z s'"
  by (auto simp: remove_timeout_def)

lemma status_buffer_grows [grows]:
  "new_conn_status_buffer os p h s = Some s' \<Longrightarrow> grown z s \<Longrightarrow> grown z s'"
  "delete_conn_status_buffer p s = Some s' \<Longrightarrow> grown z s \<Longrightarrow> grown z s'"
  by (auto simp: new_conn_status_buffer_def delete_conn_status_buffer_def run_iffs dest!: grows)

lemma local_disconnect_grows [grows]: "local_disconnect os conn ev s = Some s' \<Longrightarrow> grown z s \<Longrightarrow> grown z s'"
  by (auto simp: local_disconnect_def run_iffs split: if_splits dest!: grows)

lemma poll_fds_grows [grows]:
  "set_conn_to_poll_mode i m s = Some s' \<Longrightarrow> grown z s \<Longrightarrow> grown z s'"
  "remove_from_poll_fds i s = Some s' \<Longrightarrow> grown z s \<Longrightarrow> grown z s'"
  by (auto simp: set_conn_to_poll_mode_def remove_from_poll_fds_def)

lemma add_to_poll_fds_grows [simp]: "grown z (add_to_poll_fds k m s) = grown z s"
  by (simp add: add_to_poll_fds_def)

lemma remove_conn_at_grows [grows]: "remove_conn_at i s = Some s' \<Longrightarrow> grown z s \<Longrightarrow> grown z s'"
  by (auto simp: remove_conn_at_def run_iffs split: if_splits dest!: grows)

lemma remove_conns_from_grows [grows]: "remove_conns_from rs i s = Some s' \<Longrightarrow> grown z s \<Longrightarrow> grown z s'"
proof (induction rs i s rule: remove_conns_from.induct)
  case (1 rs i s)
  from "1.prems" show ?case
    by (subst (asm) (1) remove_conns_from.simps [of rs i s])
      (auto split: if_splits dest: "1.IH" remove_conn_at_grows)
qed

lemma process_removals_grows [grows]: "process_removals s = Some s' \<Longrightarrow> grown z s \<Longrightarrow> grown z s'"
  by (auto simp: process_removals_def dest!: grows)

lemma write_grows [grows]:
  "write_body b off bs s = Some s' \<Longrightarrow> grown z s \<Longrightarrow> grown z s'"
  "write_packet b bs s = Some s' \<Longrightarrow> grown z s \<Longrightarrow> grown z s'"
  by (auto simp: write_body_def write_packet_def Let_def dest!: grows)

section \<open>The polling and timeout passes\<close>

lemma remote_address_seen_grows [grows]: "remote_address_seen os conn s = Some (p, s') \<Longrightarrow> grown z s \<Longrightarrow> grown z s'"
  by (auto simp: remote_address_seen_def run_iffs dest!: grows)

lemma read_header_grows [grows]: "read_header os sock conn s = Some (h, s') \<Longrightarrow> grown z s \<Longrightarrow> grown z s'"
  by (auto simp: read_header_def run_iffs dest!: grows)

lemma continue_recv_grows [grows]: "continue_recv os conn p s = Some (r, s') \<Longrightarrow> grown z s \<Longrightarrow> grown z s'"
  by (auto simp: continue_recv_def run_iffs split: option.splits if_splits dest!: grows)

lemma accept_connection_grows [grows]: "accept_connection os conn s = Some s' \<Longrightarrow> grown z s \<Longrightarrow> grown z s'"
  by (auto simp: accept_connection_def run_iffs dest!: grows)

lemma read_tcp_grows [grows]: "read_tcp os sock conn s = Some (r, s') \<Longrightarrow> grown z s \<Longrightarrow> grown z s'"
  by (auto simp: read_tcp_def run_iffs dest!: grows)

lemma read_udp_grows [grows]: "read_udp os sock conn h s = Some (r, s') \<Longrightarrow> grown z s \<Longrightarrow> grown z s'"
  by (auto simp: read_udp_def run_iffs dest!: grows)

lemma match_reply_grows [grows]: "match_reply os conn h p d udp s = Some (r, s') \<Longrightarrow> grown z s \<Longrightarrow> grown z s'"
  by (auto simp: match_reply_def run_iffs dest!: grows)

lemma dispatch_grows [grows]: "dispatch os sock conn h msg s = Some (r, s') \<Longrightarrow> grown z s \<Longrightarrow> grown z s'"
  by (auto simp: dispatch_def run_iffs dest!: grows)

lemma read_from_socket_grows [grows]:
  "read_from_socket os sock conn s = Some (r, s') \<Longrightarrow> grown z s \<Longrightarrow> grown z s'"
  by (auto simp: read_from_socket_def run_iffs dest!: grows)

lemma read_loop_grows [grows]: "read_loop os conn s = Some s' \<Longrightarrow> grown z s \<Longrightarrow> grown z s'"
  by (erule read_loop_invariant) (auto dest: grows)

lemma poll_one_grows [grows]: "poll_one os i s = Some s' \<Longrightarrow> grown z s \<Longrightarrow> grown z s'"
  by (auto simp: poll_one_def sys_so_error_def set_errno_def run_iffs split: if_splits dest!: grows)

lemma poll_conns_grows [grows]: "poll_conns_from os i s = Some s' \<Longrightarrow> grown z s \<Longrightarrow> grown z s'"
  by (erule poll_conns_invariant) (auto dest: poll_one_grows)

lemma poll_pass_grows [grows]: "poll_pass os ms s = Some s' \<Longrightarrow> grown z s \<Longrightarrow> grown z s'"
  by (auto simp: poll_pass_def run_iffs split: if_splits dest!: grows)

lemma expire_first_grows [grows]: "expire_first os s = Some s' \<Longrightarrow> grown z s \<Longrightarrow> grown z s'"
  by (auto simp: expire_first_def run_iffs dest!: grows)

lemma expire_timeouts_grows [grows]: "expire_timeouts os t s = Some s' \<Longrightarrow> grown z s \<Longrightarrow> grown z s'"
  by (erule expire_timeouts_invariant) (auto dest: expire_first_grows)

section \<open>A run of the loop\<close>

lemma grown_pending:
  assumes "grown z s" "array_inv (immediate_callbacks z)"
  shows "called s = called z" "array_inv (immediate_callbacks s)" "\<exists>cs. pending s = pending z @ cs"
proof -
  from assms(1) obtain cs where cs: "called s = called z"
    "immediate_callbacks s = foldl array__add_item_ptr (immediate_callbacks z) cs" by (auto simp: grown_def)
  show "called s = called z" by (rule cs(1))
  from carray.push_all [OF assms(2), of cs] show "array_inv (immediate_callbacks s)"
    "\<exists>cs. pending s = pending z @ cs" by (auto simp: cs(2) pending_def)
qed

lemma msg_runloop_called:
  assumes "msg_runloop os (user_of os prog) ms s = Some s'" "array_inv (immediate_callbacks s)" "init_done s"
  shows "\<exists>cs. called s' = called s @ map call_args (pending s) @ map call_args cs"
proof -
  have init: "init_if_needed s = s" using assms(3) by (simp add: init_if_needed_def)
  from assms(1) obtain t where t: "grown s t" "run_pending (user_of os prog) t = Some s'"
    by (auto simp: msg_runloop_def init run_iffs dest!: grows [where z = s])
  note g = grown_pending [OF t(1) assms(2)]
  from run_pending_called [OF g(2) t(2)] g show ?thesis by auto
qed

end
