(* ===== verification/PollSelect.thy ===== *)
theory PollSelect
  imports Samples "HOL-Library.Signed_Division"
begin

text \<open>
  The windows version of the polling functions of msgbox.c, on \<open>select\<close>, and its comparison with the
  mac/linux version of the theory \<open>Conns\<close>. The locale \<open>poll_backend\<close> is what the rest of msgbox.c
  relies on; both versions provide it.

  \<open>select\<close> and \<open>ioctlsocket\<close> of winsock are arguments. A socket set is the list of its members in
  the order of \<open>fd_array\<close>; \<open>FD_SET\<close> and \<open>FD_ISSET\<close> are those of winsock2.h, with its default size
  of 64 sockets.
\<close>

section \<open>Socket sets\<close>

definition FD_SETSIZE :: nat where "FD_SETSIZE = 64"

definition FD_SET :: "int \<Rightarrow> int list \<Rightarrow> int list" where
  "FD_SET sock fds = (if sock \<in> set fds \<or> FD_SETSIZE \<le> length fds then fds else fds @ [sock])"

definition FD_ISSET :: "int \<Rightarrow> int list \<Rightarrow> bool" where
  "FD_ISSET sock fds \<longleftrightarrow> sock \<in> set fds"

record poll_fds_t =
  poll_modes :: "u32 carray"
  read_fds :: "int list"
  write_fds :: "int list"
  except_fds :: "int list"

text \<open>The state of the windows version; its \<open>poll_fds\<close> is \<open>win_fds\<close>.\<close>

record win_mbox = mbox + win_fds :: poll_fds_t

section \<open>The windows functions\<close>

definition init_poll_fds_win :: "win_mbox \<Rightarrow> win_mbox" where
  "init_poll_fds_win w = w\<lparr>win_fds := (win_fds w)\<lparr>poll_modes := array__new 16\<rparr>\<rparr>"

definition remove_last_polling_conn_win :: "win_mbox \<Rightarrow> win_mbox option" where
  "remove_last_polling_conn_win w = do {
     a \<leftarrow> array__remove_last (conns w);
     b \<leftarrow> array__remove_last (poll_modes (win_fds w));
     Some (w\<lparr>conns := a, win_fds := (win_fds w)\<lparr>poll_modes := b\<rparr>\<rparr>)
   }"

definition remove_from_poll_fds_win :: "nat \<Rightarrow> win_mbox \<Rightarrow> win_mbox option" where
  "remove_from_poll_fds_win i w = do {
     a \<leftarrow> array__remove_and_fill (poll_modes (win_fds w)) i;
     Some (w\<lparr>win_fds := (win_fds w)\<lparr>poll_modes := a\<rparr>\<rparr>)
   }"

text \<open>Here the mode is kept, and the socket is not: it is read from \<open>conns\<close> when it is needed.\<close>

definition add_to_poll_fds_win :: "int \<Rightarrow> u32 \<Rightarrow> win_mbox \<Rightarrow> win_mbox" where
  "add_to_poll_fds_win new_sock poll_mode w =
     w\<lparr>win_fds := (win_fds w)\<lparr>poll_modes := array__add_item_ptr (poll_modes (win_fds w)) poll_mode\<rparr>\<rparr>"

definition set_conn_to_poll_mode_win :: "nat \<Rightarrow> u32 \<Rightarrow> win_mbox \<Rightarrow> win_mbox option" where
  "set_conn_to_poll_mode_win i poll_mode w = do {
     a \<leftarrow> array__item_set (poll_modes (win_fds w)) i poll_mode;
     Some (w\<lparr>win_fds := (win_fds w)\<lparr>poll_modes := a\<rparr>\<rparr>)
   }"

text \<open>The loop of \<open>check_poll_fds\<close> that fills the three sets, from index \<open>i\<close> on.\<close>

function fill_fd_sets :: "nat \<Rightarrow> win_mbox \<Rightarrow> win_mbox option" where
  "fill_fd_sets i w =
     (if i < a_count (poll_modes (win_fds w)) then do {
        poll_mode \<leftarrow> array__item_val (poll_modes (win_fds w)) i;
        conn \<leftarrow> array__item_val (conns w) i;
        c \<leftarrow> conn_heap w conn;
        let f = win_fds w;
        let f = f\<lparr>except_fds := FD_SET (socket c) (except_fds f)\<rparr>;
        let f = (if poll_mode = poll_mode_read
                 then f\<lparr>read_fds := FD_SET (socket c) (read_fds f)\<rparr>
                 else f\<lparr>write_fds := FD_SET (socket c) (write_fds f)\<rparr>);
        fill_fd_sets (Suc i) (w\<lparr>win_fds := f\<rparr>)
      } else Some w)"
  by pat_completeness auto
termination
  by (relation "measure (\<lambda>(i, w). a_count (poll_modes (win_fds w)) - i)") (auto simp: Let_def)

declare fill_fd_sets.simps [simp del]

text \<open>The \<open>timeval\<close>, in seconds and microseconds; \<open>None\<close> is NULL, to wait without a limit.\<close>

definition select_timeout :: "int \<Rightarrow> (int \<times> int) option" where
  "select_timeout timeout_in_ms =
     (if timeout_in_ms = - 1 then None
      else Some (timeout_in_ms sdiv 1000, (timeout_in_ms smod 1000) * 1000))"

type_synonym select_fn = "nat \<Rightarrow> int list \<Rightarrow> int list \<Rightarrow> int list \<Rightarrow> (int \<times> int) option \<Rightarrow>
  (nat \<times> int list \<times> int list \<times> int list) sysret"

definition check_poll_fds_win :: "select_fn \<Rightarrow> int \<Rightarrow> win_mbox \<Rightarrow> (int \<times> win_mbox) option" where
  "check_poll_fds_win sel timeout_in_ms w = do {
     w \<leftarrow> fill_fd_sets 0 (w\<lparr>win_fds := (win_fds w)\<lparr>read_fds := [], write_fds := [], except_fds := []\<rparr>\<rparr>);
     let f = win_fds w;
     let t = clock w;
     let w = w\<lparr>clock := t + 1\<rparr>;
     case sel t (read_fds f) (write_fds f) (except_fds f) (select_timeout timeout_in_ms) of
       Err e \<Rightarrow> Some (- 1, w\<lparr>last_errno := e\<rparr>)
     | Ok (n, r, wr, ex) \<Rightarrow>
         Some (int n, w\<lparr>win_fds := f\<lparr>read_fds := r, write_fds := wr, except_fds := ex\<rparr>\<rparr>)
   }"

definition poll_fds_mode_win :: "int \<Rightarrow> nat \<Rightarrow> win_mbox \<Rightarrow> u32" where
  "poll_fds_mode_win sock i w =
     (let poll_mode = 0;
          poll_mode = (if FD_ISSET sock (read_fds (win_fds w)) then poll_mode OR poll_mode_read else poll_mode);
          poll_mode = (if FD_ISSET sock (write_fds (win_fds w)) then poll_mode OR poll_mode_write else poll_mode);
          poll_mode = (if FD_ISSET sock (except_fds (win_fds w)) then poll_mode OR poll_mode_err else poll_mode)
      in poll_mode)"

text \<open>The name of the failing call, or NULL; \<open>ioctl\<close> is \<open>ioctlsocket\<close> with FIONBIO.\<close>

definition make_non_blocking_win ::
  "(nat \<Rightarrow> int \<Rightarrow> unit sysret) \<Rightarrow> int \<Rightarrow> win_mbox \<Rightarrow> string option \<times> win_mbox" where
  "make_non_blocking_win ioctl sock w =
     (let t = clock w; w = w\<lparr>clock := t + 1\<rparr> in
      case ioctl t sock of Ok _ \<Rightarrow> (None, w) | Err e \<Rightarrow> (Some ''ioctlsocket'', w\<lparr>last_errno := e\<rparr>))"

definition avoid_sigpipe_win :: "int \<Rightarrow> int" where
  "avoid_sigpipe_win sock = 0"

section \<open>The contract of a polling backend\<close>

text \<open>
  Abstractly a backend is the list of the modes in which the connections wait, beside the number
  of connections, which \<open>remove_last_polling_conn\<close> lowers as well.
\<close>

datatype poll_op = Poll_add int | Poll_set nat u32 | Poll_remove nat | Poll_remove_last

fun poll_spec :: "poll_op \<Rightarrow> nat \<times> u32 list \<Rightarrow> (nat \<times> u32 list) option" where
  "poll_spec (Poll_add sock) (n, ms) = Some (n, ms @ [poll_mode_read])"
| "poll_spec (Poll_set i m) (n, ms) =
     (if i < length ms \<and> m \<in> {poll_mode_read, poll_mode_write} then Some (n, ms[i := m]) else None)"
| "poll_spec (Poll_remove i) (n, ms) =
     (if i < length ms then Some (n, butlast (ms[i := last ms])) else None)"
| "poll_spec Poll_remove_last (n, ms) =
     (if 0 < n \<and> ms \<noteq> [] then Some (n - 1, butlast ms) else None)"

fun poll_specs :: "poll_op list \<Rightarrow> nat \<times> u32 list \<Rightarrow> (nat \<times> u32 list) option" where
  "poll_specs [] a = Some a"
| "poll_specs (c # cs) a = Option.bind (poll_spec c a) (poll_specs cs)"

text \<open>The same operations on the functions of a backend.\<close>

fun poll_step :: "(int \<Rightarrow> u32 \<Rightarrow> 's \<Rightarrow> 's) \<Rightarrow> (nat \<Rightarrow> u32 \<Rightarrow> 's \<Rightarrow> 's option) \<Rightarrow> (nat \<Rightarrow> 's \<Rightarrow> 's option) \<Rightarrow>
    ('s \<Rightarrow> 's option) \<Rightarrow> poll_op \<Rightarrow> 's \<Rightarrow> 's option" where
  "poll_step add change remove drop_last (Poll_add sock) s = Some (add sock poll_mode_read s)"
| "poll_step add change remove drop_last (Poll_set i m) s = change i m s"
| "poll_step add change remove drop_last (Poll_remove i) s = remove i s"
| "poll_step add change remove drop_last Poll_remove_last s = drop_last s"

fun poll_steps :: "(int \<Rightarrow> u32 \<Rightarrow> 's \<Rightarrow> 's) \<Rightarrow> (nat \<Rightarrow> u32 \<Rightarrow> 's \<Rightarrow> 's option) \<Rightarrow> (nat \<Rightarrow> 's \<Rightarrow> 's option) \<Rightarrow>
    ('s \<Rightarrow> 's option) \<Rightarrow> poll_op list \<Rightarrow> 's \<Rightarrow> 's option" where
  "poll_steps add change remove drop_last [] s = Some s"
| "poll_steps add change remove drop_last (c # cs) s =
     Option.bind (poll_step add change remove drop_last c s) (poll_steps add change remove drop_last cs)"

locale poll_backend =
  fixes ok :: "'s \<Rightarrow> bool"
    and conn_count :: "'s \<Rightarrow> nat"
    and modes :: "'s \<Rightarrow> u32 list"
    and add :: "int \<Rightarrow> u32 \<Rightarrow> 's \<Rightarrow> 's"
    and change :: "nat \<Rightarrow> u32 \<Rightarrow> 's \<Rightarrow> 's option"
    and remove :: "nat \<Rightarrow> 's \<Rightarrow> 's option"
    and drop_last :: "'s \<Rightarrow> 's option"
  assumes add_spec: "ok s \<Longrightarrow> ok (add sock poll_mode_read s) \<and>
      modes (add sock poll_mode_read s) = modes s @ [poll_mode_read] \<and>
      conn_count (add sock poll_mode_read s) = conn_count s"
    and change_spec: "ok s \<Longrightarrow> i < length (modes s) \<Longrightarrow> m \<in> {poll_mode_read, poll_mode_write} \<Longrightarrow>
      \<exists>t. change i m s = Some t \<and> ok t \<and> modes t = (modes s)[i := m] \<and> conn_count t = conn_count s"
    and remove_spec: "ok s \<Longrightarrow> i < length (modes s) \<Longrightarrow>
      \<exists>t. remove i s = Some t \<and> ok t \<and> modes t = butlast ((modes s)[i := last (modes s)]) \<and>
        conn_count t = conn_count s"
    and drop_last_spec: "ok s \<Longrightarrow> 0 < conn_count s \<Longrightarrow> modes s \<noteq> [] \<Longrightarrow>
      \<exists>t. drop_last s = Some t \<and> ok t \<and> modes t = butlast (modes s) \<and> conn_count t = conn_count s - 1"
begin

lemma step_spec:
  assumes "ok s" "poll_spec c (conn_count s, modes s) = Some (n, ms)"
  shows "\<exists>t. poll_step add change remove drop_last c s = Some t \<and> ok t \<and> conn_count t = n \<and> modes t = ms"
  using assms add_spec change_spec remove_spec drop_last_spec
  by (cases c) (fastforce split: if_splits)+

lemma steps_spec:
  "ok s \<Longrightarrow> poll_specs cs (conn_count s, modes s) = Some (n, ms) \<Longrightarrow>
    \<exists>t. poll_steps add change remove drop_last cs s = Some t \<and> ok t \<and> conn_count t = n \<and> modes t = ms"
proof (induction cs arbitrary: s)
  case (Cons c cs)
  from Cons.prems(2) obtain n1 ms1 where
    one: "poll_spec c (conn_count s, modes s) = Some (n1, ms1)" and rest: "poll_specs cs (n1, ms1) = Some (n, ms)"
    by auto
  from step_spec [OF Cons.prems(1) one] obtain t where
    t: "poll_step add change remove drop_last c s = Some t" "ok t" "conn_count t = n1" "modes t = ms1" by blast
  from Cons.IH [OF t(2)] rest t(3,4) have
    "\<exists>u. poll_steps add change remove drop_last cs t = Some u \<and> ok u \<and> conn_count u = n \<and> modes u = ms" by simp
  with t(1) show ?case by simp
qed simp

end

section \<open>Both versions provide it\<close>

definition mode_of_events :: "pollfd \<Rightarrow> u32" where
  "mode_of_events p = (if events p = POLLIN then poll_mode_read else poll_mode_write)"

definition poll_modes_of :: "mbox \<Rightarrow> u32 list" where
  "poll_modes_of s = map mode_of_events (pollfd_list s)"

definition select_modes_of :: "win_mbox \<Rightarrow> u32 list" where
  "select_modes_of w = array_list (poll_modes (win_fds w))"

definition poll_ok :: "mbox \<Rightarrow> bool" where
  "poll_ok s \<longleftrightarrow> array_inv (conns s) \<and> array_inv (poll_fds s)"

definition select_ok :: "win_mbox \<Rightarrow> bool" where
  "select_ok w \<longleftrightarrow> array_inv (conns w) \<and> array_inv (poll_modes (win_fds w))"

lemma mode_bits [simp]:
  "poll_mode_read \<noteq> poll_mode_write" "poll_mode_write \<noteq> poll_mode_read" "POLLIN \<noteq> POLLOUT" "POLLOUT \<noteq> POLLIN"
  "has_mode poll_mode_read poll_mode_read" "\<not> has_mode poll_mode_write poll_mode_read"
  by (simp_all add: poll_mode_read_def poll_mode_write_def POLLIN_def POLLOUT_def has_mode_def)

lemma poll_modes_length: "poll_ok s \<Longrightarrow> length (poll_modes_of s) = a_count (poll_fds s)"
  by (simp add: poll_modes_of_def pollfd_list_def poll_ok_def length_array_list)

lemma select_modes_length: "select_ok w \<Longrightarrow> length (select_modes_of w) = a_count (poll_modes (win_fds w))"
  by (simp add: select_modes_of_def select_ok_def length_array_list)

lemma poll_backend_poll:
  assumes "poll_ok s"
  shows "i < length (poll_modes_of s) \<Longrightarrow> m \<in> {poll_mode_read, poll_mode_write} \<Longrightarrow>
      \<exists>t. set_conn_to_poll_mode i m s = Some t \<and> poll_ok t \<and> poll_modes_of t = (poll_modes_of s)[i := m] \<and>
        a_count (conns t) = a_count (conns s)"
    and "i < length (poll_modes_of s) \<Longrightarrow>
      \<exists>t. remove_from_poll_fds i s = Some t \<and> poll_ok t \<and>
        poll_modes_of t = butlast ((poll_modes_of s)[i := last (poll_modes_of s)]) \<and>
        a_count (conns t) = a_count (conns s)"
    and "0 < a_count (conns s) \<Longrightarrow> poll_modes_of s \<noteq> [] \<Longrightarrow>
      \<exists>t. remove_last_polling_conn s = Some t \<and> poll_ok t \<and> poll_modes_of t = butlast (poll_modes_of s) \<and>
        a_count (conns t) = a_count (conns s) - 1"
proof -
  have inv: "array_inv (conns s)" "array_inv (poll_fds s)" using assms by (simp_all add: poll_ok_def)
  note len = poll_modes_length [OF assms]
  show "\<exists>t. set_conn_to_poll_mode i m s = Some t \<and> poll_ok t \<and> poll_modes_of t = (poll_modes_of s)[i := m] \<and>
        a_count (conns t) = a_count (conns s)"
    if i: "i < length (poll_modes_of s)" and m: "m \<in> {poll_mode_read, poll_mode_write}"
  proof -
    let ?p = "array_list (poll_fds s) ! i"
    let ?q = "?p\<lparr>events := (if has_mode m poll_mode_read then POLLIN else POLLOUT)\<rparr>"
    have ic: "i < a_count (poll_fds s)" using i len by simp
    from array_set_facts [OF inv(2) ic, of ?q] obtain b where
      b: "array__item_set (poll_fds s) i ?q = Some b" "array_inv b" "array_list b = (array_list (poll_fds s))[i := ?q]"
      by blast
    have "mode_of_events ?q = m" using m by (auto simp: mode_of_events_def)
    with b inv show ?thesis
      by (simp add: set_conn_to_poll_mode_def array_item_val [OF inv(2) ic] poll_ok_def poll_modes_of_def
          pollfd_list_def map_update)
  qed
  show "\<exists>t. remove_from_poll_fds i s = Some t \<and> poll_ok t \<and>
        poll_modes_of t = butlast ((poll_modes_of s)[i := last (poll_modes_of s)]) \<and>
        a_count (conns t) = a_count (conns s)" if i: "i < length (poll_modes_of s)"
  proof -
    have ic: "i < a_count (poll_fds s)" using i len by simp
    then have ne: "array_list (poll_fds s) \<noteq> []" using length_array_list [OF inv(2)] by auto
    from array_remove_and_fill_facts [OF inv(2) ic] inv show ?thesis
      by (auto simp: remove_from_poll_fds_def poll_ok_def poll_modes_of_def pollfd_list_def map_butlast
          map_update last_map [OF ne])
  qed
  show "\<exists>t. remove_last_polling_conn s = Some t \<and> poll_ok t \<and> poll_modes_of t = butlast (poll_modes_of s) \<and>
        a_count (conns t) = a_count (conns s) - 1"
    if c: "0 < a_count (conns s)" and ne: "poll_modes_of s \<noteq> []"
  proof -
    have "0 < a_count (poll_fds s)" using ne len by (metis length_greater_0_conv)
    from array_remove_last_facts [OF inv(1) c] array_remove_last_facts [OF inv(2) this] show ?thesis
      by (auto simp: remove_last_polling_conn_def poll_ok_def poll_modes_of_def pollfd_list_def map_butlast)
  qed
qed

interpretation poll: poll_backend poll_ok "\<lambda>s. a_count (conns s)" poll_modes_of
    add_to_poll_fds set_conn_to_poll_mode remove_from_poll_fds remove_last_polling_conn
  by unfold_locales (erule (2) poll_backend_poll | erule (1) poll_backend_poll | simp add: add_to_poll_fds_def poll_ok_def poll_modes_of_def
      pollfd_list_def mode_of_events_def array_simps array_invs)+

lemma select_backend:
  assumes "select_ok w"
  shows "i < length (select_modes_of w) \<Longrightarrow>
      \<exists>t. set_conn_to_poll_mode_win i m w = Some t \<and> select_ok t \<and>
        select_modes_of t = (select_modes_of w)[i := m] \<and> a_count (conns t) = a_count (conns w)"
    and "i < length (select_modes_of w) \<Longrightarrow>
      \<exists>t. remove_from_poll_fds_win i w = Some t \<and> select_ok t \<and>
        select_modes_of t = butlast ((select_modes_of w)[i := last (select_modes_of w)]) \<and>
        a_count (conns t) = a_count (conns w)"
    and "0 < a_count (conns w) \<Longrightarrow> select_modes_of w \<noteq> [] \<Longrightarrow>
      \<exists>t. remove_last_polling_conn_win w = Some t \<and> select_ok t \<and>
        select_modes_of t = butlast (select_modes_of w) \<and> a_count (conns t) = a_count (conns w) - 1"
proof -
  have inv: "array_inv (conns w)" "array_inv (poll_modes (win_fds w))" using assms by (simp_all add: select_ok_def)
  note len = select_modes_length [OF assms]
  show "\<exists>t. set_conn_to_poll_mode_win i m w = Some t \<and> select_ok t \<and>
        select_modes_of t = (select_modes_of w)[i := m] \<and> a_count (conns t) = a_count (conns w)"
    if "i < length (select_modes_of w)"
    using array_set_facts [OF inv(2), of i m] that len inv
    by (auto simp: set_conn_to_poll_mode_win_def select_ok_def select_modes_of_def)
  show "\<exists>t. remove_from_poll_fds_win i w = Some t \<and> select_ok t \<and>
        select_modes_of t = butlast ((select_modes_of w)[i := last (select_modes_of w)]) \<and>
        a_count (conns t) = a_count (conns w)" if "i < length (select_modes_of w)"
    using array_remove_and_fill_facts [OF inv(2), of i] that len inv
    by (auto simp: remove_from_poll_fds_win_def select_ok_def select_modes_of_def)
  show "\<exists>t. remove_last_polling_conn_win w = Some t \<and> select_ok t \<and>
        select_modes_of t = butlast (select_modes_of w) \<and> a_count (conns t) = a_count (conns w) - 1"
    if c: "0 < a_count (conns w)" and ne: "select_modes_of w \<noteq> []"
  proof -
    have "0 < a_count (poll_modes (win_fds w))" using ne len by (metis length_greater_0_conv)
    from array_remove_last_facts [OF inv(1) c] array_remove_last_facts [OF inv(2) this] show ?thesis
      by (auto simp: remove_last_polling_conn_win_def select_ok_def select_modes_of_def)
  qed
qed

interpretation select: poll_backend select_ok "\<lambda>w. a_count (conns w)" select_modes_of
    add_to_poll_fds_win set_conn_to_poll_mode_win remove_from_poll_fds_win remove_last_polling_conn_win
  by unfold_locales (erule (1) select_backend | simp add: add_to_poll_fds_win_def select_ok_def
      select_modes_of_def array_simps array_invs)+

section \<open>Filling the sets\<close>

definition set_of_sockets :: "int list \<Rightarrow> int list" where
  "set_of_sockets socks = foldl (\<lambda>fds x. FD_SET x fds) [] socks"

text \<open>The sockets in the order of the connections, each with its mode.\<close>

definition waiting_sockets :: "win_mbox \<Rightarrow> (int \<times> u32) list" where
  "waiting_sockets w = zip (map (\<lambda>p. socket (the (conn_heap w p))) (array_list (conns w))) (select_modes_of w)"

definition readers :: "(int \<times> u32) list \<Rightarrow> int list" where
  "readers ws = map fst (filter (\<lambda>(x, m). m = poll_mode_read) ws)"

definition writers :: "(int \<times> u32) list \<Rightarrow> int list" where
  "writers ws = map fst (filter (\<lambda>(x, m). m \<noteq> poll_mode_read) ws)"

lemma set_of_sockets_distinct: "distinct socks \<Longrightarrow> set_of_sockets socks = take FD_SETSIZE socks"
proof (induction socks rule: rev_induct)
  case (snoc x xs)
  then show ?case
    by (auto simp: set_of_sockets_def FD_SET_def dest: in_set_takeD)
qed (simp add: set_of_sockets_def)

lemma distinct_sub_sockets:
  assumes "distinct (map fst ws)"
  shows "distinct (readers ws)" "distinct (writers ws)"
  using assms by (simp_all add: readers_def writers_def distinct_map inj_on_def)

lemma fill_fd_sets_run:
  assumes "select_ok w" "a_count (conns w) = a_count (poll_modes (win_fds w))"
    "\<forall>p \<in> set (array_list (conns w)). conn_heap w p \<noteq> None"
    "i \<le> a_count (conns w)" "seen = take i (waiting_sockets w)"
    "read_fds (win_fds w) = set_of_sockets (readers seen)"
    "write_fds (win_fds w) = set_of_sockets (writers seen)"
    "except_fds (win_fds w) = set_of_sockets (map fst seen)"
  shows "fill_fd_sets i w = Some (w\<lparr>win_fds := (win_fds w)
      \<lparr>read_fds := set_of_sockets (readers (waiting_sockets w)),
       write_fds := set_of_sockets (writers (waiting_sockets w)),
       except_fds := set_of_sockets (map fst (waiting_sockets w))\<rparr>\<rparr>)"
  using assms
proof (induction "a_count (conns w) - i" arbitrary: i w seen)
  case 0
  then have "i = a_count (conns w)" by simp
  moreover have "length (waiting_sockets w) = a_count (conns w)"
    using "0.prems"(1,2) by (simp add: waiting_sockets_def select_modes_length) (simp add: select_ok_def length_array_list)
  ultimately show ?case using "0.prems" by (subst fill_fd_sets.simps) simp
next
  case (Suc n)
  have inv: "array_inv (conns w)" "array_inv (poll_modes (win_fds w))" using Suc.prems(1) by (simp_all add: select_ok_def)
  have i: "i < a_count (conns w)" "i < a_count (poll_modes (win_fds w))" using Suc.hyps(2) Suc.prems(2) by simp_all
  let ?ws = "waiting_sockets w"
  have len: "length ?ws = a_count (conns w)"
    using Suc.prems(1,2) by (simp add: waiting_sockets_def select_modes_length) (simp add: length_array_list inv)
  let ?p = "array_list (conns w) ! i" and ?m = "array_list (poll_modes (win_fds w)) ! i"
  have "?p \<in> set (array_list (conns w))" using i(1) length_array_list [OF inv(1)] by simp
  then obtain c where c: "conn_heap w ?p = Some c" using Suc.prems(3) by blast
  have ith: "?ws ! i = (socket c, ?m)"
    using i c length_array_list [OF inv(1)] length_array_list [OF inv(2)]
    by (simp add: waiting_sockets_def select_modes_of_def)
  let ?f = "(win_fds w)\<lparr>except_fds := FD_SET (socket c) (except_fds (win_fds w))\<rparr>"
  let ?g = "if ?m = poll_mode_read then ?f\<lparr>read_fds := FD_SET (socket c) (read_fds ?f)\<rparr>
    else ?f\<lparr>write_fds := FD_SET (socket c) (write_fds ?f)\<rparr>"
  let ?v = "w\<lparr>win_fds := ?g\<rparr>"
  have step: "fill_fd_sets i w = fill_fd_sets (Suc i) ?v"
    using i c by (subst fill_fd_sets.simps)
      (simp add: array_item_val [OF inv(1)] array_item_val [OF inv(2)] Let_def)
  have modes: "poll_modes ?g = poll_modes (win_fds w)" by simp
  have ws: "waiting_sockets ?v = ?ws" by (simp add: waiting_sockets_def select_modes_of_def)
  have take: "take (Suc i) ?ws = seen @ [(socket c, ?m)]"
    using ith i len Suc.prems(5) by (simp add: take_Suc_conv_app_nth)
  have "fill_fd_sets (Suc i) ?v = Some (?v\<lparr>win_fds := (win_fds ?v)
      \<lparr>read_fds := set_of_sockets (readers (waiting_sockets ?v)),
       write_fds := set_of_sockets (writers (waiting_sockets ?v)),
       except_fds := set_of_sockets (map fst (waiting_sockets ?v))\<rparr>\<rparr>)"
  proof (rule Suc.hyps(1) [OF _ _ _ _ _ refl])
    show "n = a_count (conns ?v) - Suc i" using Suc.hyps(2) by simp
    show "select_ok ?v" using inv by (simp add: select_ok_def)
  qed (use Suc.prems i take ws in \<open>simp_all add: set_of_sockets_def readers_def writers_def\<close>)
  then show ?case unfolding step ws by simp
qed

text \<open>A state whose connections are live and index-matched with the modes.\<close>

definition select_matched :: "win_mbox \<Rightarrow> bool" where
  "select_matched w \<longleftrightarrow> select_ok w \<and> a_count (conns w) = a_count (poll_modes (win_fds w)) \<and>
     (\<forall>p \<in> set (array_list (conns w)). conn_heap w p \<noteq> None)"

lemma check_select:
  assumes "select_matched w"
    "sel (clock w) (set_of_sockets (readers (waiting_sockets w))) (set_of_sockets (writers (waiting_sockets w)))
      (set_of_sockets (map fst (waiting_sockets w))) (select_timeout ms) = Ok (n, r, wr, ex)"
  shows "check_poll_fds_win sel ms w = Some (int n, w\<lparr>clock := clock w + 1,
    win_fds := (win_fds w)\<lparr>read_fds := r, write_fds := wr, except_fds := ex\<rparr>\<rparr>)"
proof -
  let ?v = "w\<lparr>win_fds := (win_fds w)\<lparr>read_fds := [], write_fds := [], except_fds := []\<rparr>\<rparr>"
  have ws: "waiting_sockets ?v = waiting_sockets w" by (simp add: waiting_sockets_def select_modes_of_def)
  have "fill_fd_sets 0 ?v = Some (?v\<lparr>win_fds := (win_fds ?v)
      \<lparr>read_fds := set_of_sockets (readers (waiting_sockets ?v)),
       write_fds := set_of_sockets (writers (waiting_sockets ?v)),
       except_fds := set_of_sockets (map fst (waiting_sockets ?v))\<rparr>\<rparr>)"
    by (rule fill_fd_sets_run [where seen = "[]"])
      (use assms(1) in \<open>auto simp: select_matched_def select_ok_def set_of_sockets_def readers_def writers_def\<close>)
  then show ?thesis unfolding ws using assms(2) by (simp add: check_poll_fds_win_def)
qed

section \<open>What the two versions report\<close>

text \<open>
  The state of the sockets as the system sees it: which can be read, which can be written, which
  have an error; and the documented answers of \<open>poll\<close> and \<open>select\<close> to it.
\<close>

record readiness =
  can_read :: "int \<Rightarrow> bool"
  can_write :: "int \<Rightarrow> bool"
  has_error :: "int \<Rightarrow> bool"

definition revents_of :: "readiness \<Rightarrow> pollfd \<Rightarrow> u16" where
  "revents_of rd p =
     (if events p = POLLIN \<and> can_read rd (fd p) then POLLIN else 0) OR
     (if events p = POLLOUT \<and> can_write rd (fd p) then POLLOUT else 0) OR
     (if has_error rd (fd p) then POLLERR else 0)"

definition poll_answers :: "readiness \<Rightarrow> os \<Rightarrow> bool" where
  "poll_answers rd os \<longleftrightarrow> (\<forall>t fds ms. os_poll os t fds ms =
     Ok (length (filter (\<lambda>p. revents_of rd p \<noteq> 0) fds), map (revents_of rd) fds))"

definition select_answers :: "readiness \<Rightarrow> select_fn \<Rightarrow> bool" where
  "select_answers rd sel \<longleftrightarrow> (\<forall>t r w e tv. sel t r w e tv =
     (let r = filter (can_read rd) r; w = filter (can_write rd) w; e = filter (has_error rd) e
      in Ok (length r + length w + length e, r, w, e)))"

text \<open>The mode that either version reports for a connection.\<close>

definition mode_of_ready :: "readiness \<Rightarrow> int \<Rightarrow> u32 \<Rightarrow> u32" where
  "mode_of_ready rd sock m =
     (if m = poll_mode_read \<and> can_read rd sock then poll_mode_read else 0) OR
     (if m \<noteq> poll_mode_read \<and> can_write rd sock then poll_mode_write else 0) OR
     (if has_error rd sock then poll_mode_err else 0)"

lemma poll_bits [simp]:
  "POLLIN AND POLLIN = POLLIN" "POLLOUT AND POLLOUT = POLLOUT" "POLLIN AND POLLOUT = 0" "POLLOUT AND POLLIN = 0"
  "POLLIN OR POLLERR \<noteq> 0" "POLLOUT OR POLLERR \<noteq> 0" "POLLERR AND POLLIN = 0" "POLLERR AND POLLOUT = 0" "POLLIN \<noteq> 0" "POLLOUT \<noteq> 0" "POLLERR \<noteq> 0"
  "POLLIN AND (POLLERR OR POLLNVAL OR POLLHUP) = 0" "POLLOUT AND (POLLERR OR POLLNVAL OR POLLHUP) = 0"
  "POLLERR AND (POLLERR OR POLLNVAL OR POLLHUP) = POLLERR"
  by (simp_all add: POLLIN_def POLLOUT_def POLLERR_def POLLHUP_def POLLNVAL_def)

lemma revents_bits:
  assumes "events p \<in> {POLLIN, POLLOUT}"
  shows "revents_of rd p AND POLLIN \<noteq> 0 \<longleftrightarrow> events p = POLLIN \<and> can_read rd (fd p)"
    "revents_of rd p AND POLLOUT \<noteq> 0 \<longleftrightarrow> events p = POLLOUT \<and> can_write rd (fd p)"
    "revents_of rd p AND (POLLERR OR POLLNVAL OR POLLHUP) \<noteq> 0 \<longleftrightarrow> has_error rd (fd p)"
  using assms by (auto simp: revents_of_def bit.conj_disj_distrib2)

lemma set_revents_map: "set_revents (map f ps) ps = map (\<lambda>p. p\<lparr>revents := f p\<rparr>) ps"
  by (induction ps) simp_all

lemma check_poll:
  assumes "poll_ok s" "poll_answers rd os"
    "\<forall>p \<in> set (pollfd_list s). events p \<in> {POLLIN, POLLOUT}"
  obtains s' where "check_poll_fds os ms s =
      (int (length (filter (\<lambda>p. revents_of rd p \<noteq> 0) (pollfd_list s))), s')"
    "\<And>i. i < length (pollfd_list s) \<Longrightarrow>
      poll_fds_mode i s' = Some (mode_of_ready rd (fd (pollfd_list s ! i)) (poll_modes_of s ! i))"
proof -
  have inv: "array_inv (poll_fds s)" using assms(1) by (simp add: poll_ok_def)
  let ?P = "pollfd_list s"
  let ?a = "(poll_fds s)\<lparr>items := map Some (map (\<lambda>p. p\<lparr>revents := revents_of rd p\<rparr>) ?P) @
    drop (length ?P) (items (poll_fds s))\<rparr>"
  let ?t = "s\<lparr>clock := clock s + 1, trace := trace s @ [Sys_poll ?P ms], poll_fds := ?a\<rparr>"
  have len: "length ?P = a_count (poll_fds s)" by (simp add: pollfd_list_def length_array_list inv)
  have run: "check_poll_fds os ms s = (int (length (filter (\<lambda>p. revents_of rd p \<noteq> 0) ?P)), ?t)"
    using assms(2) by (simp add: check_poll_fds_def pollfd_list_def poll_answers_def syscall_def Let_def set_revents_map)
  have mode: "poll_fds_mode i ?t = Some (mode_of_ready rd (fd (?P ! i)) (poll_modes_of s ! i))" if i: "i < length ?P" for i
  proof -
    have ev: "events (?P ! i) \<in> {POLLIN, POLLOUT}" using assms(3) i by simp
    have item: "array__item_val ?a i = Some ((?P ! i)\<lparr>revents := revents_of rd (?P ! i)\<rparr>)"
      using i array_invD(1) [OF inv] by (simp add: array__item_val_def nth_append len)
    have read_iff: "poll_modes_of s ! i = poll_mode_read \<longleftrightarrow> events (?P ! i) = POLLIN"
      using i by (simp add: poll_modes_of_def mode_of_events_def)
    show ?thesis
      using ev item by (auto simp: poll_fds_mode_def Let_def revents_bits [OF ev] mode_of_ready_def read_iff)
  qed
  from run mode show thesis by (rule that)
qed

lemma in_readers: "x \<in> set (readers ws) \<longleftrightarrow> (x, poll_mode_read) \<in> set ws"
  by (force simp: readers_def)

lemma in_writers: "x \<in> set (writers ws) \<longleftrightarrow> (\<exists>m. m \<noteq> poll_mode_read \<and> (x, m) \<in> set ws)"
  by (force simp: writers_def)

lemma distinct_fst_entry:
  assumes "distinct (map fst ws)" "i < length ws"
  shows "(fst (ws ! i), m) \<in> set ws \<longleftrightarrow> m = snd (ws ! i)"
  using assms by (metis eq_key_imp_eq_value nth_mem prod.collapse)

lemma mode_of_sets:
  assumes "distinct (map fst ws)" "i < length ws"
    "read_fds (win_fds w) = filter (can_read rd) (readers ws)"
    "write_fds (win_fds w) = filter (can_write rd) (writers ws)"
    "except_fds (win_fds w) = filter (has_error rd) (map fst ws)"
  shows "poll_fds_mode_win (fst (ws ! i)) j w = mode_of_ready rd (fst (ws ! i)) (snd (ws ! i))"
proof -
  note d = distinct_fst_entry [OF assms(1,2)]
  have sets: "FD_ISSET (fst (ws ! i)) (read_fds (win_fds w)) \<longleftrightarrow> can_read rd (fst (ws ! i)) \<and> snd (ws ! i) = poll_mode_read"
    "FD_ISSET (fst (ws ! i)) (write_fds (win_fds w)) \<longleftrightarrow> can_write rd (fst (ws ! i)) \<and> snd (ws ! i) \<noteq> poll_mode_read"
    "FD_ISSET (fst (ws ! i)) (except_fds (win_fds w)) \<longleftrightarrow> has_error rd (fst (ws ! i))"
    using assms(2) by (auto simp: FD_ISSET_def assms(3-5) in_readers in_writers d)
  show ?thesis unfolding poll_fds_mode_win_def sets by (auto simp: mode_of_ready_def Let_def)
qed

lemma ready_iff:
  assumes "\<forall>p \<in> set ps. events p \<in> {POLLIN, POLLOUT}" "ws = map (\<lambda>p. (fd p, mode_of_events p)) ps"
  shows "filter (\<lambda>p. revents_of rd p \<noteq> 0) ps \<noteq> [] \<longleftrightarrow>
    filter (can_read rd) (readers ws) \<noteq> [] \<or> filter (can_write rd) (writers ws) \<noteq> [] \<or>
    filter (has_error rd) (map fst ws) \<noteq> []"
proof -
  let ?busy = "\<lambda>p. mode_of_events p = poll_mode_read \<and> can_read rd (fd p) \<or>
      mode_of_events p \<noteq> poll_mode_read \<and> can_write rd (fd p) \<or> has_error rd (fd p)"
  have busy: "revents_of rd p \<noteq> 0 \<longleftrightarrow> ?busy p" if "p \<in> set ps" for p
    using assms(1) that by (auto simp: revents_of_def mode_of_events_def)
  have parts: "readers ws = map fd (filter (\<lambda>p. mode_of_events p = poll_mode_read) ps)"
    "writers ws = map fd (filter (\<lambda>p. mode_of_events p \<noteq> poll_mode_read) ps)" "map fst ws = map fd ps"
    by (simp_all add: assms(2) readers_def writers_def filter_map comp_def)
  have "filter (\<lambda>p. revents_of rd p \<noteq> 0) ps \<noteq> [] \<longleftrightarrow> (\<exists>p \<in> set ps. ?busy p)"
    unfolding filter_empty_conv using busy by blast
  also have "\<dots> \<longleftrightarrow> filter (can_read rd) (readers ws) \<noteq> [] \<or> filter (can_write rd) (writers ws) \<noteq> [] \<or>
    filter (has_error rd) (map fst ws) \<noteq> []"
    unfolding filter_empty_conv parts by auto
  finally show ?thesis .
qed

lemma sets_of_few:
  assumes "distinct (map fst ws)" "length ws \<le> FD_SETSIZE"
  shows "set_of_sockets (readers ws) = readers ws" "set_of_sockets (writers ws) = writers ws"
    "set_of_sockets (map fst ws) = map fst ws"
  using distinct_sub_sockets [OF assms(1)] assms order.trans [OF length_filter_le assms(2)]
  by (simp_all add: set_of_sockets_distinct) (simp_all add: readers_def writers_def)

text \<open>The two versions over the same connections.\<close>

lemma same_connections:
  assumes "conns_ok s" "select_ok w" "conns w = conns s" "conn_heap w = conn_heap s"
    "select_modes_of w = poll_modes_of s"
  shows "waiting_sockets w = map (\<lambda>p. (fd p, mode_of_events p)) (pollfd_list s)" "select_matched w"
proof -
  note ok = conns_okD [OF assms(1)]
  have m: "matched (conn_heap s) (conn_list s) (pollfd_list s)" using assms(1) by (simp add: conns_ok_def)
  have "map (\<lambda>p. socket (the (conn_heap s p))) (conn_list s) = map fd (pollfd_list s)"
    using m ok by (intro nth_equalityI) (auto elim: matched_nth)
  then show "waiting_sockets w = map (\<lambda>p. (fd p, mode_of_events p)) (pollfd_list s)"
    by (simp add: waiting_sockets_def assms(3-5) conn_list_def poll_modes_of_def zip_map_map zip_same_conv_map)
  have "\<forall>p \<in> set (array_list (conns w)). conn_heap w p \<noteq> None"
    using m unfolding assms(3,4) conn_list_def matched_def by (metis in_set_conv_nth option.distinct(1))
  moreover have "a_count (conns w) = a_count (poll_modes (win_fds w))"
    using select_modes_length [OF assms(2)] assms(3,5) ok by (simp add: poll_modes_of_def)
  ultimately show "select_matched w" using assms(2) by (simp add: select_matched_def)
qed

section \<open>Examples\<close>

text \<open>\<open>n\<close> connections that wait to be read, with the sockets 0, 1, ..., in both versions.\<close>

definition crowd_conn :: "nat \<Rightarrow> msg_Conn" where
  "crowd_conn p = \<lparr>conn_context = null, reply_context = null, callback = 0, remote_ip = 0,
     remote_port = 80, protocol_type = msg_tcp, socket = int p, for_listening = False, reply_id = 0, index = p\<rparr>"

definition crowd :: "nat \<Rightarrow> mbox" where
  "crowd n = (init_if_needed initial_mbox)
     \<lparr>conns := foldl array__add_item_ptr (array__new 8) [0..<n],
      conn_heap := (\<lambda>p. if p < n then Some (crowd_conn p) else None),
      poll_fds := foldl array__add_item_ptr (array__new 8)
        (map (\<lambda>p. \<lparr>fd = int p, events = POLLIN, revents = 0\<rparr>) [0..<n])\<rparr>"

definition crowd_win :: "nat \<Rightarrow> win_mbox" where
  "crowd_win n = mbox.extend (crowd n) \<lparr>win_fds = \<lparr>poll_modes =
     foldl array__add_item_ptr (array__new 16) (replicate n poll_mode_read),
     read_fds = [], write_fds = [], except_fds = []\<rparr>\<rparr>"

lemma crowd_win_simps [simp]:
  "conns (crowd_win n) = conns (crowd n)" "conn_heap (crowd_win n) = conn_heap (crowd n)"
  "win_fds (crowd_win n) = \<lparr>poll_modes = foldl array__add_item_ptr (array__new 16) (replicate n poll_mode_read),
     read_fds = [], write_fds = [], except_fds = []\<rparr>"
  by (simp_all add: crowd_win_def mbox.defs)

lemma crowd_lists [simp]:
  "array_list (conns (crowd n)) = [0..<n]" "array_inv (conns (crowd n))" "array_inv (poll_fds (crowd n))"
  "pollfd_list (crowd n) = map (\<lambda>p. \<lparr>fd = int p, events = POLLIN, revents = 0\<rparr>) [0..<n]"
  "select_modes_of (crowd_win n) = replicate n poll_mode_read"
  "array_inv (poll_modes (win_fds (crowd_win n)))" "conn_heap (crowd n) = (\<lambda>p. if p < n then Some (crowd_conn p) else None)"
  by (simp_all add: crowd_def pollfd_list_def select_modes_of_def carray.push_all_new)

lemma crowd_ok: "poll_ok (crowd n)" "select_ok (crowd_win n)" "conns_ok (crowd n)"
  "poll_modes_of (crowd n) = replicate n poll_mode_read" "a_count (conns (crowd n)) = n"
  using length_array_list [of "conns (crowd n)"] crowd_lists(6) [of n]
  by (auto simp: poll_ok_def select_ok_def conns_ok_def matched_def conn_list_def crowd_conn_def
      poll_modes_of_def mode_of_events_def map_replicate_trivial intro: nth_equalityI)

lemma crowd_waiting: "waiting_sockets (crowd_win n) = map (\<lambda>p. (int p, poll_mode_read)) [0..<n]"
  by (auto simp: waiting_sockets_def crowd_conn_def intro!: nth_equalityI)

lemma crowd_matched: "select_matched (crowd_win n)"
  using crowd_ok(2) [of n] crowd_ok(5) [of n] select_modes_length [OF crowd_ok(2), of n]
  by (simp add: select_matched_def)





text \<open>
  C36. The two polling backends are interchangeable as the connections come and go: the same sequence
  of additions, mode changes and removals succeeds on both, and leaves them waiting in the same modes
  and with the same number of connections.
\<close>

theorem backends_agree:
  assumes "poll_ok s" "select_ok w" "poll_modes_of s = select_modes_of w" "a_count (conns s) = a_count (conns w)"
    "poll_specs cs (a_count (conns s), poll_modes_of s) = Some (n, ms)"
  shows "\<exists>s' w'. poll_steps add_to_poll_fds set_conn_to_poll_mode remove_from_poll_fds
      remove_last_polling_conn cs s = Some s' \<and>
    poll_steps add_to_poll_fds_win set_conn_to_poll_mode_win remove_from_poll_fds_win
      remove_last_polling_conn_win cs w = Some w' \<and>
    poll_modes_of s' = ms \<and> select_modes_of w' = ms \<and> a_count (conns s') = n \<and> a_count (conns w') = n"
proof -
  have w: "poll_specs cs (a_count (conns w), select_modes_of w) = Some (n, ms)" using assms(3-5) by simp
  from poll.steps_spec [OF assms(1,5)] select.steps_spec [OF assms(2) w] show ?thesis by blast
qed

theorem backends_agree_witness:
  "\<exists>s' w'. poll_steps add_to_poll_fds set_conn_to_poll_mode remove_from_poll_fds remove_last_polling_conn
      [Poll_add 3, Poll_set 2 poll_mode_write, Poll_remove 0, Poll_remove_last] (crowd 2) = Some s' \<and>
    poll_steps add_to_poll_fds_win set_conn_to_poll_mode_win remove_from_poll_fds_win remove_last_polling_conn_win
      [Poll_add 3, Poll_set 2 poll_mode_write, Poll_remove 0, Poll_remove_last] (crowd_win 2) = Some w' \<and>
    poll_modes_of s' = [poll_mode_write] \<and> select_modes_of w' = [poll_mode_write]"
proof -
  have "poll_specs [Poll_add 3, Poll_set 2 poll_mode_write, Poll_remove 0, Poll_remove_last]
      (a_count (conns (crowd 2)), poll_modes_of (crowd 2)) = Some (1, [poll_mode_write])"
    by (simp add: crowd_ok(4,5) numeral_2_eq_2)
  from backends_agree [OF crowd_ok(1,2) _ _ this] show ?thesis by (auto simp: crowd_ok(4))
qed

end
