(* ===== verification/WinUtil.thy ===== *)
theory WinUtil
  imports Reading
begin

text \<open>
  The windows wrappers: the error texts of msgbox.c and the string functions of winutil.h that
  windows lacks.

  Strings of winutil.h lie in one block of memory, and a \<open>char *\<close> is a position in it, so that
  strings may overlap; reading or writing outside the block has no result. \<open>strpbrk\<close> and \<open>strlen\<close>
  are those of the C standard. The functions of the Microsoft runtime (\<open>strncat_s\<close>,
  \<open>_vscprintf\<close>) are arguments.
\<close>

section \<open>Error texts\<close>

definition err_strs :: "string list" where
  "err_strs =
    [''WSAEWOULDBLOCK'', ''WSAEINPROGRESS'', ''WSAEALREADY'',
     ''WSAENOTSOCK'', ''WSAEDESTADDRREQ'', ''WSAEMSGSIZE'',
     ''WSAEPROTOTYPE'', ''WSAENOPROTOOPT'', ''WSAEPROTONOSUPPORT'',
     ''WSAESOCKTNOSUPPORT'', ''WSAEOPNOTSUPP'', ''WSAEPFNOSUPPORT'',
     ''WSAEAFNOSUPPORT'', ''WSAEADDRINUSE'', ''WSAEADDRNOTAVAIL'',
     ''WSAENETDOWN'', ''WSAENETUNREACH'', ''WSAENETRESET'',
     ''WSAECONNABORTED'', ''WSAECONNRESET'', ''WSAENOBUFS'',
     ''WSAEISCONN'', ''WSAENOTCONN'', ''WSAESHUTDOWN'',
     ''WSAETOOMANYREFS'', ''WSAETIMEDOUT'', ''WSAECONNREFUSED'',
     ''WSAELOOP'', ''WSAENAMETOOLONG'', ''WSAEHOSTDOWN'',
     ''WSAEHOSTUNREACH'', ''WSAENOTEMPTY'', ''WSAEPROCLIM'',
     ''WSAEUSERS'', ''WSAEDQUOT'', ''WSAESTALE'',
     ''WSAEREMOTE'']"

definition unique_errs :: "(int \<times> string) list" where
  "unique_errs = [(10004, ''WSAEINTR''), (10009, ''WSAEBADF''), (10013, ''WSAEACCES''),
     (10014, ''WSAEFAULT''), (10022, ''WSAEINVAL''), (10024, ''WSAEMFILE'')]"

text \<open>\<open>%d\<close>\<close>

definition dec_int :: "int \<Rightarrow> string" where
  "dec_int i = (if i < 0 then CHR ''-'' # dec_string (nat (- i)) else dec_string (nat i))"

text \<open>\<open>last_err\<close> is the value of \<open>WSAGetLastError\<close>; the table is indexed as an array.\<close>

definition err_str_win :: "int \<Rightarrow> string option" where
  "err_str_win last_err =
     (case map_of unique_errs last_err of
        Some name \<Rightarrow> Some name
      | None \<Rightarrow>
          if 10035 \<le> last_err \<and> last_err \<le> 10071
          then (let i = nat (last_err - 10035) in
                if i < length err_strs then Some (err_strs ! i) else None)
          else Some (snprintf 64 (''Unknown error code: '' @ dec_int last_err)))"

lemma err_strs_length [simp]: "length err_strs = 37"
  by (simp add: err_strs_def)

text \<open>Every \<open>int\<close> has a text: the table is long enough for the range of its guard.\<close>

lemma err_str_win_total: "err_str_win e \<noteq> None"
  by (auto simp: err_str_win_def Let_def split: option.splits)

section \<open>Strings in memory\<close>

definition mem_get :: "bytes \<Rightarrow> nat \<Rightarrow> u8 option" where
  "mem_get m p = (if p < length m then Some (m ! p) else None)"

definition mem_put :: "bytes \<Rightarrow> nat \<Rightarrow> u8 \<Rightarrow> bytes option" where
  "mem_put m p c = (if p < length m then Some (m[p := c]) else None)"

text \<open>The string at \<open>p\<close>, if it ends inside the block.\<close>

definition c_str :: "bytes \<Rightarrow> nat \<Rightarrow> bytes option" where
  "c_str m p = (let r = drop p m in if 0 \<in> set r then Some (takeWhile (\<lambda>c. c \<noteq> 0) r) else None)"

lemma c_str_at: "0 \<notin> set s \<Longrightarrow> c_str (pre @ s @ 0 # post) (length pre) = Some s"
  by (auto simp: c_str_def takeWhile_append)

lemma c_strE:
  assumes "c_str m p = Some s"
  obtains pre post where "m = pre @ s @ 0 # post" "length pre = p" "0 \<notin> set s"
proof -
  let ?r = "drop p m"
  from assms have z: "0 \<in> set ?r" and s: "s = takeWhile (\<lambda>c. c \<noteq> 0) ?r"
    by (auto simp: c_str_def Let_def split: if_splits)
  have "dropWhile (\<lambda>c. c \<noteq> 0) ?r \<noteq> []" using z by auto
  then obtain x post where post: "dropWhile (\<lambda>c. c \<noteq> 0) ?r = x # post" by (cases "dropWhile (\<lambda>c. c \<noteq> 0) ?r") auto
  then have "x = 0" using hd_dropWhile [of "\<lambda>c. c \<noteq> 0" ?r] by simp
  with post s have "?r = s @ 0 # post" by (metis takeWhile_dropWhile_id)
  then have "m = take p m @ s @ 0 # post" by (metis append_take_drop_id)
  moreover have "length (take p m) = p" using \<open>?r = s @ 0 # post\<close> by (cases "p \<le> length m") auto
  moreover have "0 \<notin> set s" unfolding s by (auto dest: set_takeWhileD)
  ultimately show thesis by (rule that)
qed

subsection \<open>strsep\<close>

definition strpbrk :: "bytes \<Rightarrow> nat \<Rightarrow> nat \<Rightarrow> nat option option" where
  "strpbrk m p delim = do {
     s \<leftarrow> c_str m p;
     ds \<leftarrow> c_str m delim;
     let n = length (takeWhile (\<lambda>c. c \<notin> set ds) s);
     Some (if n < length s then Some (p + n) else None)
   }"

text \<open>The token, the new value of \<open>*stringp\<close> and the memory; \<open>None\<close> as a pointer is NULL.\<close>

definition strsep :: "bytes \<Rightarrow> nat option \<Rightarrow> nat \<Rightarrow> (nat option \<times> nat option \<times> bytes) option" where
  "strsep m stringp delim =
     (case stringp of
        None \<Rightarrow> Some (None, None, m)
      | Some token_start \<Rightarrow> do {
          q \<leftarrow> strpbrk m token_start delim;
          case q of
            None \<Rightarrow> Some (Some token_start, None, m)
          | Some p \<Rightarrow> do { m \<leftarrow> mem_put m p 0; Some (Some token_start, Some (p + 1), m) }
        })"

text \<open>The loop \<open>while ((token = strsep(&s, delim)))\<close> that it is made for.\<close>

partial_function (option) strsep_all :: "bytes \<Rightarrow> nat option \<Rightarrow> nat \<Rightarrow> (nat list \<times> bytes) option" where
  "strsep_all m stringp delim =
     Option.bind (strsep m stringp delim) (\<lambda>(token, stringp, m).
       case token of
         None \<Rightarrow> Some ([], m)
       | Some t \<Rightarrow>
           Option.bind (strsep_all m stringp delim) (\<lambda>(ts, m). Some (t # ts, m)))"

declare strsep_all.simps [code]

text \<open>The pieces of a string between delimiters, the empty ones included.\<close>

function split_at :: "u8 set \<Rightarrow> bytes \<Rightarrow> bytes list" where
  "split_at ds s = (case dropWhile (\<lambda>c. c \<notin> ds) s of
     [] \<Rightarrow> [s]
   | c # rest \<Rightarrow> takeWhile (\<lambda>c. c \<notin> ds) s # split_at ds rest)"
  by pat_completeness auto
termination
proof (relation "measure (length \<circ> snd)")
  fix ds s c rest assume "dropWhile (\<lambda>c. c \<notin> ds) s = c # (rest :: bytes)"
  then show "((ds, rest), ds, s) \<in> measure (length \<circ> snd)"
    using length_dropWhile_le [of "\<lambda>c. c \<notin> ds" s] by simp
qed simp

declare split_at.simps [simp del]

text \<open>\<open>strsep\<close> overwrites each delimiter by the end of the string.\<close>

definition cut_at :: "u8 set \<Rightarrow> bytes \<Rightarrow> bytes" where
  "cut_at ds s = map (\<lambda>c. if c \<in> ds then 0 else c) s"

lemma cut_at_takeWhile: "cut_at ds (takeWhile (\<lambda>c. c \<notin> ds) s) = takeWhile (\<lambda>c. c \<notin> ds) s"
  unfolding cut_at_def by (rule map_idI) (auto dest: set_takeWhileD)

lemma strpbrk_run:
  assumes "m = pre @ s @ 0 # post" "0 \<notin> set s" "c_str m delim = Some ds"
  shows "strpbrk m (length pre) delim =
    Some (case dropWhile (\<lambda>c. c \<notin> set ds) s of [] \<Rightarrow> None
          | _ # _ \<Rightarrow> Some (length pre + length (takeWhile (\<lambda>c. c \<notin> set ds) s)))"
proof -
  have "c_str m (length pre) = Some s" unfolding assms(1) by (rule c_str_at [OF assms(2)])
  moreover have "length (takeWhile (\<lambda>c. c \<notin> set ds) s) < length s \<longleftrightarrow> dropWhile (\<lambda>c. c \<notin> set ds) s \<noteq> []"
    using arg_cong [OF takeWhile_dropWhile_id [of "\<lambda>c. c \<notin> set ds" s], of length]
    unfolding length_append by (metis length_greater_0_conv less_add_same_cancel1)
  ultimately show ?thesis
    using assms(3) by (cases "dropWhile (\<lambda>c. c \<notin> set ds) s") (simp_all add: strpbrk_def Let_def del: dropWhile_eq_Nil_conv)
qed

lemma strsep_all_run:
  assumes "0 \<notin> set s" "\<And>mid. length mid = length s \<Longrightarrow> c_str (pre @ mid @ 0 # post) delim = Some ds"
  shows "\<exists>ts. strsep_all (pre @ s @ 0 # post) (Some (length pre)) delim =
      Some (ts, pre @ cut_at (set ds) s @ 0 # post) \<and>
    map (c_str (pre @ cut_at (set ds) s @ 0 # post)) ts = map Some (split_at (set ds) s)"
  using assms
proof (induction "length s" arbitrary: s pre rule: less_induct)
  case less
  let ?D = "set ds" and ?m = "pre @ s @ 0 # post"
  let ?tok = "takeWhile (\<lambda>c. c \<notin> set ds) s"
  note brk = strpbrk_run [OF refl less.prems(1) less.prems(2) [OF refl]]
  have tok0: "0 \<notin> set ?tok" using less.prems(1) by (auto dest: set_takeWhileD)
  show ?case
  proof (cases "dropWhile (\<lambda>c. c \<notin> ?D) s")
    case Nil
    then have s: "?tok = s" using takeWhile_dropWhile_id [of "\<lambda>c. c \<notin> ?D" s] by simp
    have "cut_at ?D s = s" using cut_at_takeWhile [of ?D s] unfolding s .
    moreover have "strsep_all ?m (Some (length pre)) delim = Some ([length pre], ?m)"
      by (subst strsep_all.simps, subst strsep_all.simps) (simp add: strsep_def brk Nil)
    moreover have "split_at ?D s = [s]" by (subst split_at.simps) (simp add: Nil)
    ultimately show ?thesis using c_str_at [OF less.prems(1)] by simp
  next
    case (Cons c rest)
    have s: "s = ?tok @ c # rest" using takeWhile_dropWhile_id [of "\<lambda>c. c \<notin> ?D" s] Cons by simp
    have c: "c \<in> ?D" using hd_dropWhile [of "\<lambda>c. c \<notin> ?D" s] Cons by simp
    let ?pre = "pre @ ?tok @ [0]"
    have shorter: "length rest < length s" using arg_cong [OF s, of length] by simp
    have put: "?m[length pre + length ?tok := 0] = ?pre @ rest @ 0 # post"
      by (subst s) (simp add: list_update_append)
    have len: "length pre + length ?tok < length ?m" using arg_cong [OF s, of length] by simp
    have rest0: "0 \<notin> set rest" using less.prems(1) arg_cong [OF s, of set] by auto
    have delim: "c_str (?pre @ mid @ 0 # post) delim = Some ds" if "length mid = length rest" for mid
      using less.prems(2) [of "?tok @ 0 # mid"] that arg_cong [OF s, of length] by simp
    from less.hyps [OF shorter rest0 delim] obtain ts where
      ts: "strsep_all (?pre @ rest @ 0 # post) (Some (length ?pre)) delim =
          Some (ts, ?pre @ cut_at ?D rest @ 0 # post)"
        "map (c_str (?pre @ cut_at ?D rest @ 0 # post)) ts = map Some (split_at ?D rest)" by blast
    have cut: "cut_at ?D s = ?tok @ 0 # cut_at ?D rest"
      by (subst s) (simp add: cut_at_def c, metis cut_at_takeWhile cut_at_def)
    have "strsep_all ?m (Some (length pre)) delim = Some (length pre # ts, ?pre @ cut_at ?D rest @ 0 # post)"
      using ts(1) len put by (subst strsep_all.simps) (simp add: strsep_def brk Cons mem_put_def)
    moreover have "split_at ?D s = ?tok # split_at ?D rest" by (subst split_at.simps) (simp add: Cons)
    moreover have "c_str (pre @ ?tok @ 0 # cut_at ?D rest @ 0 # post) (length pre) = Some ?tok"
      by (rule c_str_at [OF tok0])
    ultimately show ?thesis using ts(2) cut by simp
  qed
qed

text \<open>A string depends on its own bytes only.\<close>

lemma c_str_frame:
  assumes "c_str m d = Some ds" "take (Suc (length ds)) (drop d m') = take (Suc (length ds)) (drop d m)"
  shows "c_str m' d = Some ds"
proof -
  from assms(1) obtain pre post where m: "m = pre @ ds @ 0 # post" "length pre = d" "0 \<notin> set ds" by (rule c_strE)
  then have t: "take (Suc (length ds)) (drop d m') = ds @ [0]" using assms(2) by simp
  have "drop d m' = (ds @ [0]) @ drop (Suc (length ds)) (drop d m')"
    using t by (metis append_take_drop_id)
  then show ?thesis using m(3) by (auto simp: c_str_def takeWhile_append)
qed

text \<open>
  C39. Called in a loop, \<open>strsep\<close> ends and cuts a string at its delimiters: the tokens that it returns
  are, in order, the pieces between delimiters, empty ones included, and the memory changes at the
  delimiters only. The string of the delimiters may lie anywhere else in the same memory.
\<close>

theorem strsep_splits:
  assumes "c_str m p = Some s" "c_str m delim = Some ds" "delim + length ds < p \<or> p + length s < delim"
  shows "\<exists>ts m'. strsep_all m (Some p) delim = Some (ts, m') \<and>
    map (c_str m') ts = map Some (split_at (set ds) s) \<and>
    m' = take p m @ cut_at (set ds) s @ drop (p + length s) m"
proof -
  from assms(1) obtain pre post where m: "m = pre @ s @ 0 # post" "length pre = p" "0 \<notin> set s" by (rule c_strE)
  have "c_str (pre @ mid @ 0 # post) delim = Some ds" if "length mid = length s" for mid
    by (rule c_str_frame [OF assms(2)])
      (use assms(3) that m in \<open>auto simp: drop_Cons' not_less intro!: nth_equalityI simp: nth_append\<close>)
  from strsep_all_run [OF m(3) this] m show ?thesis by auto
qed

theorem strsep_splits_witness:
  "\<exists>ts m'. strsep_all [97, 44, 44, 98, 0, 44, 0] (Some 0) 5 = Some (ts, m') \<and>
    map (c_str m') ts = [Some [97], Some [], Some [98]] \<and> m' = [97, 0, 0, 98, 0, 44, 0]"
proof -
  have "c_str [97, 44, 44, 98, 0, 44, 0] 0 = Some [97, 44, 44, 98]" "c_str [97, 44, 44, 98, 0, 44, 0] 5 = Some [44]"
    by (simp_all add: c_str_def)
  from strsep_splits [OF this] show ?thesis by (simp add: split_at.simps cut_at_def)
qed

subsection \<open>Copying\<close>

text \<open>The pointer to the end of the copy and the memory. Overlapping strings are not excluded.\<close>

partial_function (option) stpcpy :: "bytes \<Rightarrow> nat \<Rightarrow> nat \<Rightarrow> (nat \<times> bytes) option" where
  "stpcpy m dst src =
     Option.bind (mem_get m src) (\<lambda>c.
     Option.bind (mem_put m dst c) (\<lambda>m.
       if c \<noteq> 0 then stpcpy m (dst + 1) (src + 1) else Some (dst, m)))"

declare stpcpy.simps [code]

function stpncpy_copy :: "bytes \<Rightarrow> nat \<Rightarrow> nat \<Rightarrow> nat \<Rightarrow> (nat \<times> bytes) option" where
  "stpncpy_copy m dst src dst_end =
     (if dst < dst_end then do {
        c \<leftarrow> mem_get m src;
        m \<leftarrow> mem_put m dst c;
        if c \<noteq> 0 then stpncpy_copy m (dst + 1) (src + 1) dst_end else Some (dst, m)
      } else Some (dst, m))"
  by pat_completeness auto
termination
  by (relation "measure (\<lambda>(m, dst, src, dst_end). dst_end - dst)") auto

function stpncpy_fill :: "bytes \<Rightarrow> nat \<Rightarrow> nat \<Rightarrow> bytes option" where
  "stpncpy_fill m dst dst_end =
     (if dst < dst_end then do {
        m \<leftarrow> mem_put m dst 0;
        stpncpy_fill m (dst + 1) dst_end
      } else Some m)"
  by pat_completeness auto
termination
  by (relation "measure (\<lambda>(m, dst, dst_end). dst_end - dst)") auto

declare stpncpy_copy.simps [simp del] stpncpy_fill.simps [simp del]

definition stpncpy :: "bytes \<Rightarrow> nat \<Rightarrow> nat \<Rightarrow> nat \<Rightarrow> (nat \<times> bytes) option" where
  "stpncpy m dst src n = do {
     (next_dst, m) \<leftarrow> stpncpy_copy m dst src (dst + n);
     m \<leftarrow> stpncpy_fill m next_dst (dst + n);
     Some (next_dst, m)
   }"

text \<open>\<open>cat\<close> is \<open>strncat_s\<close> with \<open>_TRUNCATE\<close>; the length that was wanted and the memory.\<close>

definition strlcat :: "(bytes \<Rightarrow> nat \<Rightarrow> nat \<Rightarrow> nat \<Rightarrow> bytes option) \<Rightarrow>
    bytes \<Rightarrow> nat \<Rightarrow> nat \<Rightarrow> nat \<Rightarrow> (nat \<times> bytes) option" where
  "strlcat cat m dst src room = do {
     d \<leftarrow> c_str m dst;
     s \<leftarrow> c_str m src;
     let ideal_size = length d + length s;
     m \<leftarrow> cat m dst room src;
     Some (ideal_size, m)
   }"

text \<open>
  \<open>formatted\<close> is what the format and its arguments give, \<open>None\<close> when \<open>_vscprintf\<close> fails; \<open>mem_left\<close>
  says whether \<open>malloc\<close> succeeds. The result is the return value and \<open>*ret\<close>, \<open>None\<close> for NULL.
\<close>

definition vasprintf :: "bytes option \<Rightarrow> bool \<Rightarrow> int \<times> bytes option" where
  "vasprintf formatted mem_left =
     (case formatted of
        None \<Rightarrow> (- 1, None)
      | Some s \<Rightarrow> if mem_left then (int (length s), Some (s @ [0])) else (- 1, None))"

definition asprintf :: "bytes option \<Rightarrow> bool \<Rightarrow> int \<times> bytes option" where
  "asprintf formatted mem_left = (let (count, ret) = vasprintf formatted mem_left in (count, ret))"

text \<open>A copy to a place that the source does not reach.\<close>

lemma stpncpy_copy_run:
  assumes "m = pre @ old @ post" "c_str m src = Some s" "src + length s < length pre \<or> length pre + length old \<le> src"
    "dst = length pre" "n = length old"
  shows "stpncpy_copy m dst src (dst + n) =
    Some (dst + min n (length s), pre @ take n (s @ [0]) @ drop (Suc (length s)) old @ post)"
  using assms
proof (induction old arbitrary: m pre s src dst n)
  case Nil
  then show ?case by (subst stpncpy_copy.simps) simp
next
  case (Cons x old)
  from Cons.prems(2) obtain p q where m: "m = p @ s @ 0 # q" "length p = src" "0 \<notin> set s" by (rule c_strE)
  let ?c = "hd (s @ [0])"
  have get: "mem_get m src = Some ?c" using m by (cases s) (auto simp: mem_get_def nth_append)
  have put: "mem_put m dst ?c = Some ((pre @ [?c]) @ old @ post)"
    using Cons.prems(1,4) by (simp add: mem_put_def)
  show ?case
  proof (cases s)
    case Nil
    then show ?thesis using get put Cons.prems(5) by (subst stpncpy_copy.simps) simp
  next
    case (Cons y t)
    have "c_str ((pre @ [y]) @ old @ post) (Suc src) = Some t"
    proof (rule c_str_frame)
      show "c_str m (Suc src) = Some t" using m Cons c_str_at [of t "p @ [y]" q] by simp
      show "take (Suc (length t)) (drop (Suc src) ((pre @ [y]) @ old @ post)) = take (Suc (length t)) (drop (Suc src) m)"
        using Cons.prems(1,3) Cons by (auto intro!: nth_equalityI simp: nth_append)
    qed
    moreover have "Suc src + length t < length (pre @ [y]) \<or> length (pre @ [y]) + length old \<le> Suc src"
      using Cons.prems(3) Cons by auto
    ultimately have "stpncpy_copy ((pre @ [y]) @ old @ post) (length (pre @ [y])) (Suc src) (length (pre @ [y]) + length old) =
        Some (length (pre @ [y]) + min (length old) (length t), (pre @ [y]) @ take (length old) (t @ [0]) @ drop (Suc (length t)) old @ post)"
      by (rule Cons.IH [OF refl _ _ refl refl])
    then have
      "stpncpy_copy ((pre @ [y]) @ old @ post) (Suc (length pre)) (Suc src) (Suc (length pre) + length old) =
        Some (Suc (length pre) + min (length old) (length t), (pre @ [y]) @ take (length old) (t @ [0]) @ drop (Suc (length t)) old @ post)"
      by simp
    then show ?thesis
      using get put Cons.prems(4,5) Cons m(3) by (subst stpncpy_copy.simps) simp
  qed
qed

lemma stpncpy_fill_run:
  "stpncpy_fill (pre @ old @ post) (length pre) (length pre + length old) =
    Some (pre @ replicate (length old) 0 @ post)"
proof (induction old arbitrary: pre)
  case Nil
  then show ?case by (subst stpncpy_fill.simps) simp
next
  case (Cons x old)
  from Cons [of "pre @ [0]"] show ?case
    by (subst stpncpy_fill.simps) (simp add: mem_put_def)
qed

text \<open>\<open>stpncpy\<close> writes exactly \<open>n\<close> bytes: the string, cut or padded with nulls.\<close>

lemma stpncpy_disjoint:
  assumes "c_str m src = Some s" "dst + n \<le> length m" "src + length s < dst \<or> dst + n \<le> src"
  shows "stpncpy m dst src n =
    Some (dst + min n (length s), take dst m @ take n (s @ replicate n 0) @ drop (dst + n) m)"
proof -
  let ?pre = "take dst m" and ?old = "take n (drop dst m)" and ?post = "drop (dst + n) m"
  have m: "m = ?pre @ ?old @ ?post" by (metis add.commute append_take_drop_id drop_drop)
  have len: "length ?pre = dst" "length ?old = n" using assms(2) by simp_all
  let ?new = "take n (s @ [0]) @ drop (Suc (length s)) ?old"
  have copy: "stpncpy_copy m dst src (dst + n) = Some (dst + min n (length s), ?pre @ ?new @ ?post)"
    using stpncpy_copy_run [OF m assms(1) _ len(1) [symmetric] len(2) [symmetric]] assms(3) len by auto
  let ?k = "min n (length s)"
  let ?A = "?pre @ take ?k s" and ?B = "drop ?k ?new"
  have mem: "?pre @ ?new @ ?post = ?A @ ?B @ ?post"
    by (cases "n \<le> length s") simp_all
  have "length ?A = dst + ?k" "length ?B = n - ?k" "length ?A + length ?B = dst + n" using len by auto
  with stpncpy_fill_run [of ?A ?B ?post] have
    "stpncpy_fill (?pre @ ?new @ ?post) (dst + ?k) (dst + n) = Some (?A @ replicate (n - ?k) 0 @ ?post)"
    unfolding mem by (simp only:)
  moreover have "take n (s @ replicate n 0) = take ?k s @ replicate (n - ?k) 0"
    by (cases "n \<le> length s") (simp_all add: min_def)
  ultimately show ?thesis using copy by (simp add: stpncpy_def)
qed

text \<open>
  Copying a string to a place inside itself never ends well: the null at its end is overwritten before
  it is read, and the copy runs on to the end of the memory.
\<close>

lemma stpcpy_runs_away:
  "src < dst \<Longrightarrow> \<forall>i. src \<le> i \<and> i < dst \<longrightarrow> i < length m \<and> m ! i \<noteq> 0 \<Longrightarrow> stpcpy m dst src = None"
proof (induction "length m - dst" arbitrary: m dst src rule: less_induct)
  case less
  then have src: "src < length m" "m ! src \<noteq> 0" by auto
  show ?case
  proof (cases "dst < length m")
    case True
    have "stpcpy (m[dst := m ! src]) (dst + 1) (src + 1) = None"
      by (rule less.hyps) (use less.prems True src in \<open>auto simp: nth_list_update\<close>)
    then show ?thesis using src True by (subst stpcpy.simps) (simp add: mem_get_def mem_put_def)
  next
    case False
    then show ?thesis using src by (subst stpcpy.simps) (simp add: mem_get_def mem_put_def)
  qed
qed

lemma stpcpy_overlap:
  assumes "c_str m src = Some s" "src < dst" "dst \<le> src + length s"
  shows "stpcpy m dst src = None"
proof (rule stpcpy_runs_away [OF assms(2)])
  from assms(1) obtain pre post where m: "m = pre @ s @ 0 # post" "length pre = src" "0 \<notin> set s" by (rule c_strE)
  show "\<forall>i. src \<le> i \<and> i < dst \<longrightarrow> i < length m \<and> m ! i \<noteq> 0"
  proof (intro allI impI)
    fix i assume i: "src \<le> i \<and> i < dst"
    then have "i - src < length s" using assms(3) by arith
    then have "s ! (i - src) \<noteq> 0" using m(3) by (metis nth_mem)
    then show "i < length m \<and> m ! i \<noteq> 0" using i m \<open>i - src < length s\<close> by (simp add: nth_append)
  qed
qed

lemma stpcpy_disjoint:
  assumes "m = pre @ old @ x # post" "c_str m src = Some s" "length old = length s"
    "src + length s < length pre \<or> length pre + length s < src" "dst = length pre"
  shows "stpcpy m dst src = Some (dst + length s, pre @ s @ 0 # post)"
  using assms
proof (induction s arbitrary: m pre old src dst)
  case Nil
  from Nil.prems(2) obtain p q where m: "m = p @ [] @ 0 # q" "length p = src" by (rule c_strE)
  then have "mem_get m src = Some 0" by (auto simp: mem_get_def nth_append)
  with Nil.prems show ?case by (subst stpcpy.simps) (simp add: mem_put_def)
next
  case (Cons y t)
  from Cons.prems(2) obtain p q where m: "m = p @ (y # t) @ 0 # q" "length p = src" "0 \<notin> set (y # t)" by (rule c_strE)
  from Cons.prems(3) obtain z old' where old: "old = z # old'" "length old' = length t" by (cases old) auto
  have "c_str ((pre @ [y]) @ old' @ x # post) (Suc src) = Some t"
  proof (rule c_str_frame)
    show "c_str m (Suc src) = Some t" using m c_str_at [of t "p @ [y]" q] by simp
    show "take (Suc (length t)) (drop (Suc src) ((pre @ [y]) @ old' @ x # post)) =
        take (Suc (length t)) (drop (Suc src) m)"
      using Cons.prems(1,4) old by (auto intro!: nth_equalityI simp: nth_append)
  qed
  moreover have "Suc src + length t < length (pre @ [y]) \<or> length (pre @ [y]) + length t < Suc src"
    using Cons.prems(4) by auto
  ultimately have "stpcpy ((pre @ [y]) @ old' @ x # post) (length (pre @ [y])) (Suc src) =
      Some (length (pre @ [y]) + length t, (pre @ [y]) @ t @ 0 # post)"
    by (rule Cons.IH [OF refl _ old(2) _ refl])
  then have "stpcpy ((pre @ [y]) @ old' @ x # post) (Suc (length pre)) (Suc src) =
      Some (Suc (length pre) + length t, (pre @ [y]) @ t @ 0 # post)" by simp
  moreover have "mem_get m src = Some y" using m by (auto simp: mem_get_def nth_append)
  moreover have "mem_put m dst y = Some (pre @ y # old' @ x # post)"
    using Cons.prems(1,5) old by (simp add: mem_put_def)
  ultimately show ?case using Cons.prems(5) m(3) by (subst stpcpy.simps) simp
qed

end
