(* ===== verification/MemProfile.thy ===== *)
theory MemProfile
  imports MsgState
begin

text \<open>
  The memory profiler of cstructs/memprofile.c and memprofile.h, which the debug build puts in the
  place of \<open>malloc\<close>, \<open>realloc\<close> and \<open>free\<close>.

  The system's allocator is an argument. The model keeps, beside the static tables of the profiler,
  the blocks that are allocated, each with its usable size (\<open>malloc_size\<close>); a pointer is a number,
  NULL is 0. The counters are 32-bit words, as the sums of \<open>int\<close> and \<open>size_t\<close> are cut to \<open>int\<close>.
\<close>

section \<open>State\<close>

definition tableSize :: nat where "tableSize = 500"

record memprofile =
  byteDelta :: "u32 list"
  rowFile :: "string list"
  rowLine :: "int list"
  isZeroed :: bool
  blocks :: "nat \<Rightarrow> nat option"
  mem_clock :: nat

definition initial_memprofile :: memprofile where
  "initial_memprofile = \<lparr>byteDelta = replicate tableSize 0, rowFile = replicate tableSize [],
     rowLine = replicate tableSize 0, isZeroed = False, blocks = (\<lambda>_. None), mem_clock = 0\<rparr>"

text \<open>
  \<open>realloc\<close> moves the block (or leaves it where it is, with a new size), or fails and leaves it, or
  frees it, as some systems do for size 0.
\<close>

datatype realloc_result = Moved nat nat | Failed | Freed

record allocator =
  al_malloc :: "nat \<Rightarrow> (nat \<Rightarrow> nat option) \<Rightarrow> nat \<Rightarrow> (nat \<times> nat) option"
  al_realloc :: "nat \<Rightarrow> (nat \<Rightarrow> nat option) \<Rightarrow> nat \<Rightarrow> nat \<Rightarrow> realloc_result"

definition malloc_size :: "(nat \<Rightarrow> nat option) \<Rightarrow> nat \<Rightarrow> nat option" where
  "malloc_size b ptr = (if ptr = 0 then Some 0 else b ptr)"

section \<open>Operations\<close>

text \<open>The loop of \<open>rowNum\<close>: it adds the character after the one that it tests.\<close>

fun row_loop :: "string \<Rightarrow> u32 \<Rightarrow> u32" where
  "row_loop [] val = val"
| "row_loop (c # cs) val =
     row_loop cs (val * 123 + (case cs of [] \<Rightarrow> 0 | d # _ \<Rightarrow> scast (char_byte d)))"

definition rowNum :: "string \<Rightarrow> int \<Rightarrow> nat" where
  "rowNum file line = unat (row_loop file 0 * 93 + of_int line) mod tableSize"

definition add_delta :: "nat \<Rightarrow> u32 \<Rightarrow> memprofile \<Rightarrow> memprofile" where
  "add_delta row d st = st\<lparr>byteDelta := (byteDelta st)[row := byteDelta st ! row + d]\<rparr>"

text \<open>An \<open>int\<close> as the \<open>size_t\<close> that \<open>malloc\<close> and \<open>realloc\<close> take.\<close>

definition size_of_int :: "int \<Rightarrow> nat" where
  "size_of_int n = nat (n mod 2 ^ 64)"

text \<open>The first half of \<open>memop\<close>: the tables are cleared at the first call, and the row gets the place.\<close>

definition set_row :: "string \<Rightarrow> int \<Rightarrow> memprofile \<Rightarrow> memprofile" where
  "set_row file line st =
     (let st = (if isZeroed st then st else st\<lparr>byteDelta := replicate tableSize 0, isZeroed := True\<rparr>);
          row = rowNum file line
      in st\<lparr>rowFile := (rowFile st)[row := take 511 file], rowLine := (rowLine st)[row := line],
            mem_clock := mem_clock st + 1\<rparr>)"

definition memop :: "allocator \<Rightarrow> string \<Rightarrow> int \<Rightarrow> nat \<Rightarrow> int \<Rightarrow> bool \<Rightarrow> memprofile \<Rightarrow> (nat \<times> memprofile) option" where
  "memop al file line ptr numBytes isRealloc st = do {
     let row = rowNum file line;
     let st = set_row file line st;
     if isRealloc then do {
       prevSize \<leftarrow> malloc_size (blocks st) ptr;
       let (vp, b) = (case al_realloc al (mem_clock st) (blocks st) ptr (size_of_int numBytes) of
            Moved p n \<Rightarrow> (p, (blocks st)(ptr := None, p \<mapsto> n))
          | Failed \<Rightarrow> (0, blocks st)
          | Freed \<Rightarrow> (0, (blocks st)(ptr := None)));
       newSize \<leftarrow> malloc_size b vp;
       Some (vp, add_delta row (of_nat newSize - of_nat prevSize) (st\<lparr>blocks := b\<rparr>))
     } else if 0 \<le> numBytes then do {
       let (vp, b) = (case al_malloc al (mem_clock st) (blocks st) (size_of_int numBytes) of
            Some (p, n) \<Rightarrow> (p, (blocks st)(p \<mapsto> n))
          | None \<Rightarrow> (0, blocks st));
       newSize \<leftarrow> malloc_size b vp;
       Some (vp, add_delta row (of_nat newSize) (st\<lparr>blocks := b\<rparr>))
     } else do {
       prevSize \<leftarrow> malloc_size (blocks st) ptr;
       Some (0, add_delta row (- of_nat prevSize) (st\<lparr>blocks := (blocks st)(ptr := None)\<rparr>))
     }
   }"

text \<open>The macros that replace the allocation functions, at a line of a file.\<close>

datatype mem_call = Malloc string int nat | Realloc string int nat nat | Free string int nat

definition int_of_size :: "nat \<Rightarrow> int" where
  "int_of_size n = sint (of_nat n :: u32)"

fun mem_step :: "allocator \<Rightarrow> mem_call \<Rightarrow> memprofile \<Rightarrow> (nat \<times> memprofile) option" where
  "mem_step al (Malloc file line n) st = memop al file line 0 (int_of_size n) False st"
| "mem_step al (Realloc file line p n) st = memop al file line p (int_of_size n) True st"
| "mem_step al (Free file line p) st = memop al file line p (- 1) False st"

fun mem_steps :: "allocator \<Rightarrow> mem_call list \<Rightarrow> memprofile \<Rightarrow> memprofile option" where
  "mem_steps al [] st = Some st"
| "mem_steps al (c # cs) st = Option.bind (mem_step al c st) (\<lambda>(p, st). mem_steps al cs st)"

subsection \<open>printmeminfo\<close>

text \<open>A printed line; \<open>malloc_stats\<close> is left out.\<close>

datatype mem_line = Row_line string int u32 | Total_line u32 | File_line string u32

text \<open>\<open>files\<close> and \<open>fileNet\<close> have 128 entries; there is no 129th.\<close>

definition max_files :: nat where "max_files = 128"

fun file_index :: "string \<Rightarrow> (string \<times> u32) list \<Rightarrow> nat \<Rightarrow> nat option" where
  "file_index f [] j = None"
| "file_index f ((g, net) # nets) j = (if g = f then Some j else file_index f nets (Suc j))"

fun meminfo_loop :: "(string \<times> int \<times> u32) list \<Rightarrow> u32 \<Rightarrow> (string \<times> u32) list \<Rightarrow> mem_line list \<Rightarrow>
    (u32 \<times> (string \<times> u32) list \<times> mem_line list) option" where
  "meminfo_loop [] acc nets out = Some (acc, nets, out)"
| "meminfo_loop ((f, l, d) # rows) acc nets out =
     (if d \<noteq> 0 then
        (case file_index f nets 0 of
           Some j \<Rightarrow> meminfo_loop rows (acc + d) (nets[j := (fst (nets ! j), snd (nets ! j) + d)])
                       (out @ [Row_line f l d])
         | None \<Rightarrow>
             if length nets < max_files
             then meminfo_loop rows (acc + d) (nets @ [(take 511 f, 0 + d)]) (out @ [Row_line f l d])
             else None)
      else meminfo_loop rows acc nets out)"

definition mem_rows :: "memprofile \<Rightarrow> (string \<times> int \<times> u32) list" where
  "mem_rows st = zip (rowFile st) (zip (rowLine st) (byteDelta st))"

definition printmeminfo :: "memprofile \<Rightarrow> mem_line list option" where
  "printmeminfo st = do {
     (acc, nets, out) \<leftarrow> meminfo_loop (mem_rows st) 0 [] [];
     Some (out @ [Total_line acc] @ map (\<lambda>(f, net). File_line f net) nets)
   }"

section \<open>The counters follow the heap\<close>

definition mem_ok :: "memprofile \<Rightarrow> bool" where
  "mem_ok st \<longleftrightarrow> length (byteDelta st) = tableSize \<and> length (rowFile st) = tableSize \<and>
     length (rowLine st) = tableSize \<and> (\<forall>f \<in> set (rowFile st). length f \<le> 511) \<and>
     finite (dom (blocks st)) \<and> blocks st 0 = None \<and>
     (isZeroed st \<or> byteDelta st = replicate tableSize 0)"

definition live_bytes :: "memprofile \<Rightarrow> nat" where
  "live_bytes st = (\<Sum>p \<in> dom (blocks st). the (blocks st p))"

text \<open>
  What the C standard says of the allocator: a new block is not NULL and is no other block that is
  allocated. \<open>realloc_works\<close> excludes the failure of \<open>realloc\<close>.
\<close>

definition allocator_ok :: "allocator \<Rightarrow> bool" where
  "allocator_ok al \<longleftrightarrow>
     (\<forall>t b n p k. al_malloc al t b n = Some (p, k) \<longrightarrow> p \<noteq> 0 \<and> b p = None) \<and>
     (\<forall>t b q n p k. al_realloc al t b q n = Moved p k \<longrightarrow> p \<noteq> 0 \<and> (p = q \<or> b p = None))"

definition realloc_works :: "allocator \<Rightarrow> bool" where
  "realloc_works al \<longleftrightarrow> (\<forall>t b q n. al_realloc al t b q n \<noteq> Failed)"

lemma allocator_okD:
  assumes "allocator_ok al"
  shows "al_malloc al t b n = Some (p, k) \<Longrightarrow> p \<noteq> 0 \<and> b p = None"
    "al_realloc al t b q n = Moved p k \<Longrightarrow> p \<noteq> 0 \<and> (p = q \<or> b p = None)"
  using assms unfolding allocator_ok_def by metis+

lemma rowNum_less [simp]: "rowNum file line < tableSize"
  by (simp add: rowNum_def tableSize_def)

lemma sum_list_add_at:
  "i < length xs \<Longrightarrow> sum_list (xs[i := xs ! i + d]) = sum_list xs + (d :: u32)"
  by (induction xs arbitrary: i) (auto split: nat.splits simp: nth_Cons')

lemma live_bytes_add:
  assumes "finite (dom b)" "b p = None"
  shows "(\<Sum>q \<in> dom (b(p \<mapsto> n)). the ((b(p \<mapsto> n)) q)) = (\<Sum>q \<in> dom b. the (b q)) + (n :: nat)"
proof -
  have "p \<notin> dom b" using assms(2) by auto
  then have "(\<Sum>q \<in> dom b. the ((b(p \<mapsto> n)) q)) = (\<Sum>q \<in> dom b. the (b q))"
    by (intro sum.cong) auto
  then show ?thesis using assms by (simp add: domIff)
qed

lemma live_bytes_remove:
  assumes "finite (dom b)" "b p = Some n"
  shows "(\<Sum>q \<in> dom b. the (b q)) = (\<Sum>q \<in> dom (b(p := None)). the ((b(p := None)) q)) + (n :: nat)"
proof -
  have "(b(p := None))(p \<mapsto> n) = b" using assms(2) by auto
  then show ?thesis using live_bytes_add [of "b(p := None)" p n] assms(1) by simp
qed

lemma mem_sum_remove:
  assumes "finite (dom b)" "malloc_size b ptr = Some n" "b 0 = None"
  shows "(\<Sum>q \<in> dom b. the (b q)) = (\<Sum>q \<in> dom (b(ptr := None)). the ((b(ptr := None)) q)) + (n :: nat)"
proof (cases "ptr = 0")
  case True
  then have "b(ptr := None) = b" "n = 0" using assms by (auto simp: malloc_size_def)
  then show ?thesis by simp
next
  case False
  then show ?thesis using live_bytes_remove [OF assms(1)] assms(2) by (simp add: malloc_size_def)
qed

lemma memop_accounts:
  assumes "allocator_ok al" "realloc_works al" "mem_ok st" "memop al file line ptr n re st = Some (vp, st')"
    "sum_list (byteDelta st) = of_nat (live_bytes st)"
  shows "mem_ok st' \<and> sum_list (byteDelta st') = of_nat (live_bytes st')"
proof -
  define st1 where "st1 = set_row file line st"
  have st1: "mem_ok st1" "sum_list (byteDelta st1) = of_nat (live_bytes st1)" "isZeroed st1"
    using assms(3,5) by (auto simp: st1_def set_row_def Let_def mem_ok_def live_bytes_def
        dest!: set_update_subset_insert [THEN subsetD])
  note h = st1(1) [unfolded mem_ok_def]
  have fin: "finite (dom (blocks st1))" and null: "blocks st1 0 = None" using h by auto
  have new: "mem_ok t \<and> sum_list (byteDelta t) = of_nat (live_bytes t)"
    if t: "t = add_delta (rowNum file line) d (st1\<lparr>blocks := b\<rparr>)" and b: "finite (dom b)" "b 0 = None"
      and d: "d = of_nat (\<Sum>q \<in> dom b. the (b q)) - of_nat (live_bytes st1)" for t d b
    using h st1(2,3) b d unfolding t
    by (simp add: mem_ok_def add_delta_def live_bytes_def sum_list_add_at)
  note run = assms(4) [unfolded memop_def Let_def, folded st1_def]
  consider (re) "re" | (malloc) "\<not> re" "0 \<le> n" | (free) "\<not> re" "\<not> 0 \<le> n" by blast
  then show ?thesis
  proof cases
    case re
    with run obtain k where k: "malloc_size (blocks st1) ptr = Some k" by auto
    note rem = mem_sum_remove [OF fin k null]
    show ?thesis
    proof (cases "al_realloc al (mem_clock st1) (blocks st1) ptr (size_of_int n)")
      case (Moved p j)
      let ?b = "(blocks st1)(ptr := None)"
      have p: "p \<noteq> 0" "?b p = None" using allocator_okD(2) [OF assms(1) Moved] by auto
      with re Moved run k have "st' = add_delta (rowNum file line) (of_nat j - of_nat k) (st1\<lparr>blocks := ?b(p \<mapsto> j)\<rparr>)"
        by (auto simp: malloc_size_def)
      then show ?thesis
        by (rule new) (use fin null p rem live_bytes_add [of ?b p j] in \<open>simp_all add: live_bytes_def\<close>)
    next
      case Failed
      then show ?thesis using assms(2) by (simp add: realloc_works_def)
    next
      case Freed
      with re run k have "st' = add_delta (rowNum file line) (- of_nat k) (st1\<lparr>blocks := (blocks st1)(ptr := None)\<rparr>)"
        by (auto simp: malloc_size_def)
      then show ?thesis by (rule new) (use fin null rem in \<open>simp_all add: live_bytes_def\<close>)
    qed
  next
    case malloc
    show ?thesis
    proof (cases "al_malloc al (mem_clock st1) (blocks st1) (size_of_int n)")
      case None
      with malloc run have "st' = add_delta (rowNum file line) 0 (st1\<lparr>blocks := blocks st1\<rparr>)"
        by (auto simp: malloc_size_def)
      then show ?thesis by (rule new) (use fin null in \<open>simp_all add: live_bytes_def\<close>)
    next
      case (Some pj)
      then obtain p j where pj: "al_malloc al (mem_clock st1) (blocks st1) (size_of_int n) = Some (p, j)" by (cases pj) auto
      then have p: "p \<noteq> 0" "blocks st1 p = None" using allocator_okD(1) [OF assms(1)] by auto
      with malloc pj run have "st' = add_delta (rowNum file line) (of_nat j) (st1\<lparr>blocks := (blocks st1)(p \<mapsto> j)\<rparr>)"
        by (auto simp: malloc_size_def)
      then show ?thesis
        by (rule new) (use fin null p live_bytes_add [OF fin p(2), of j] in \<open>simp_all add: live_bytes_def\<close>)
    qed
  next
    case free
    with run obtain k where k: "malloc_size (blocks st1) ptr = Some k"
      "st' = add_delta (rowNum file line) (- of_nat k) (st1\<lparr>blocks := (blocks st1)(ptr := None)\<rparr>)" by auto
    from k(2) show ?thesis
      by (rule new) (use fin null mem_sum_remove [OF fin k(1) null] in \<open>simp_all add: live_bytes_def\<close>)
  qed
qed

section \<open>The report\<close>

text \<open>Rows with a non-zero counter are named after a call.\<close>

definition rows_named :: "string set \<Rightarrow> memprofile \<Rightarrow> bool" where
  "rows_named F st \<longleftrightarrow> (\<forall>i < tableSize. byteDelta st ! i \<noteq> 0 \<longrightarrow> rowFile st ! i \<in> F)"

definition call_file :: "mem_call \<Rightarrow> string" where
  "call_file c = (case c of Malloc f _ _ \<Rightarrow> f | Realloc f _ _ _ \<Rightarrow> f | Free f _ _ \<Rightarrow> f)"

lemma memop_frame:
  assumes "memop al file line ptr n re st = Some (vp, st')"
  obtains d b where "st' = add_delta (rowNum file line) d ((set_row file line st)\<lparr>blocks := b\<rparr>)"
  using assms by (auto simp: memop_def run_iffs split: if_splits)

lemma set_row_tables:
  assumes "mem_ok st"
  shows "byteDelta (set_row file line st) = byteDelta st"
    "rowFile (set_row file line st) = (rowFile st)[rowNum file line := take 511 file]"
  using assms by (auto simp: set_row_def Let_def mem_ok_def)

lemma memop_named:
  assumes "mem_ok st" "rows_named F st" "memop al file line ptr n re st = Some (vp, st')"
  shows "rows_named (insert (take 511 file) F) st'"
proof -
  obtain d b where st': "st' = add_delta (rowNum file line) d ((set_row file line st)\<lparr>blocks := b\<rparr>)"
    using memop_frame [OF assms(3)] .
  have len: "length (byteDelta st) = tableSize" "length (rowFile st) = tableSize"
    using assms(1) by (simp_all add: mem_ok_def)
  show ?thesis
    using assms(2) len by (auto simp: rows_named_def st' add_delta_def set_row_tables [OF assms(1)] nth_list_update)
qed

lemma mem_step_keeps:
  assumes "allocator_ok al" "realloc_works al" "mem_ok st" "sum_list (byteDelta st) = of_nat (live_bytes st)"
    "rows_named F st" "mem_step al c st = Some (p, st')"
  shows "mem_ok st' \<and> sum_list (byteDelta st') = of_nat (live_bytes st') \<and>
    rows_named (insert (take 511 (call_file c)) F) st'"
  using assms(6) memop_accounts [OF assms(1-3) _ assms(4)] memop_named [OF assms(3,5)]
  by (cases c) (simp_all add: call_file_def)

lemma mem_steps_keep:
  assumes "allocator_ok al" "realloc_works al"
  shows "mem_ok st \<Longrightarrow> sum_list (byteDelta st) = of_nat (live_bytes st) \<Longrightarrow> rows_named F st \<Longrightarrow>
    mem_steps al cs st = Some st' \<Longrightarrow>
    mem_ok st' \<and> sum_list (byteDelta st') = of_nat (live_bytes st') \<and>
    rows_named (F \<union> (\<lambda>c. take 511 (call_file c)) ` set cs) st'"
proof (induction cs arbitrary: st F)
  case (Cons c cs)
  from Cons.prems(4) obtain p st1 where st1: "mem_step al c st = Some (p, st1)" "mem_steps al cs st1 = Some st'"
    by auto
  from mem_step_keeps [OF assms Cons.prems(1-3) st1(1)] Cons.IH [OF _ _ _ st1(2)] show ?case by fastforce
qed simp

lemma mem_start:
  "mem_ok initial_memprofile" "sum_list (byteDelta initial_memprofile) = of_nat (live_bytes initial_memprofile)"
  "rows_named {} initial_memprofile"
  by (simp_all add: mem_ok_def initial_memprofile_def live_bytes_def rows_named_def sum_list_replicate)

lemma file_index_facts:
  "file_index f nets j = None \<longleftrightarrow> f \<notin> fst ` set nets"
  "file_index f nets j = Some k \<Longrightarrow> j \<le> k \<and> k - j < length nets \<and> fst (nets ! (k - j)) = f"
  by (induction f nets j rule: file_index.induct) (auto split: if_splits simp: nth_Cons')

lemma net_add:
  "k < length nets \<Longrightarrow> map fst (nets[k := (fst (nets ! k), snd (nets ! k) + (d :: u32))]) = map fst nets \<and>
    sum_list (map snd (nets[k := (fst (nets ! k), snd (nets ! k) + d)])) = sum_list (map snd nets) + d"
  using sum_list_add_at [of k "map snd nets" d] list_update_id [of "map fst nets" k] by (simp add: map_update)

definition busy_files :: "(string \<times> int \<times> u32) list \<Rightarrow> string set" where
  "busy_files rows = fst ` {r \<in> set rows. snd (snd r) \<noteq> 0}"

lemma busy_files_Cons: "busy_files ((f, l, d) # rows) = (if d = 0 then busy_files rows else insert f (busy_files rows))"
  by (force simp: busy_files_def)

lemma meminfo_loop_total:
  assumes "distinct (map fst nets)" "\<forall>r \<in> set rows. length (fst r) \<le> 511"
    "card (fst ` set nets \<union> busy_files rows) \<le> max_files"
  shows "\<exists>nets' out'. meminfo_loop rows acc nets out = Some (acc + sum_list (map (snd \<circ> snd) rows), nets', out') \<and>
    sum_list (map snd nets') = sum_list (map snd nets) + sum_list (map (snd \<circ> snd) rows) \<and> distinct (map fst nets')"
  using assms
proof (induction rows acc nets out rule: meminfo_loop.induct)
  case (2 f l d rows acc nets out)
  consider (zero) "d = 0" | (old) j where "d \<noteq> 0" "file_index f nets 0 = Some j" | (new) "d \<noteq> 0" "file_index f nets 0 = None"
    by (cases "d = 0"; cases "file_index f nets 0") auto
  then show ?case
  proof cases
    case zero
    then show ?thesis using "2.IH"(3) "2.prems" by (simp add: busy_files_Cons)
  next
    case old
    let ?nets = "nets[j := (fst (nets ! j), snd (nets ! j) + d)]"
    have j: "j < length nets" "fst (nets ! j) = f" using file_index_facts(2) [OF old(2)] by auto
    have "fst ` set ?nets = fst ` set nets" using net_add [OF j(1), of d] by (metis list.set_map)
    moreover have "f \<in> fst ` set nets" using j by (metis image_eqI nth_mem)
    ultimately have "card (fst ` set ?nets \<union> busy_files rows) \<le> max_files"
      using "2.prems"(3) old(1) by (simp add: busy_files_Cons insert_absorb)
    then show ?thesis
      using "2.IH"(2) [OF old] net_add [OF j(1), of d] "2.prems"(1,2) old by (simp add: add.assoc)
  next
    case new
    let ?nets = "nets @ [(f, 0 + d)]"
    have f: "f \<notin> fst ` set nets" using file_index_facts(1) new(2) by blast
    have fin: "finite (busy_files rows)" by (simp add: busy_files_def)
    have "card (insert f (fst ` set nets)) \<le> card (fst ` set nets \<union> busy_files ((f, l, d) # rows))"
      by (rule card_mono) (use fin new(1) in \<open>auto simp: busy_files_Cons\<close>)
    moreover have "card (fst ` set nets) = length nets"
      using distinct_card [OF "2.prems"(1)] by simp
    ultimately have "length nets < max_files" using "2.prems"(3) f by simp
    then show ?thesis
      using "2.IH"(1) [OF new] "2.prems" f new by (simp add: busy_files_Cons add.assoc insert_commute)
  qed
qed simp


definition sample_allocator :: allocator where
  "sample_allocator =
     \<lparr>al_malloc = (\<lambda>t b n. if t \<noteq> 0 \<and> b t = None then Some (t, n) else None),
      al_realloc = (\<lambda>t b q n. if q \<noteq> 0 then Moved q n else Freed)\<rparr>"


end
