(* ===== verification/Echo.thy ===== *)
theory Echo
  imports Samples
begin

text \<open>
  The example programs echo_server.c and echo_client.c on top of the library.

  What they print is left out; the memory that they print is read. Their static variables are set
  by their callbacks only, from the arguments, so that they are functions of the callbacks made so
  far, which the trace lists. \<open>server_update\<close> and \<open>client_update\<close> are the names of their callback
  functions.
\<close>

definition event_names :: "string list" where
  "event_names = [''msg_message'', ''msg_request'', ''msg_reply'', ''msg_listening'', ''msg_listening_ended'',
     ''msg_connection_ready'', ''msg_connection_closed'', ''msg_connection_lost'', ''msg_error'']"

definition event_name :: "msg_Event \<Rightarrow> string option" where
  "event_name ev = (if event_code ev < length event_names then Some (event_names ! event_code ev) else None)"

lemma event_name_total: "\<exists>name. event_name ev = Some name"
  by (cases ev) (simp_all add: event_name_def event_names_def)

lemma event_name_some [simp]: "Option.bind (event_name ev) (\<lambda>_. m) = m"
  using event_name_total [of ev] by auto

section \<open>The server\<close>

definition server_update :: callback_id where "server_update = 1"

fun closed_call :: "observed \<Rightarrow> bool" where
  "closed_call (Callback cb conn ev d) \<longleftrightarrow> ev = msg_connection_closed"
| "closed_call _ \<longleftrightarrow> False"

fun listening_call :: "observed \<Rightarrow> conn_ptr \<Rightarrow> conn_ptr" where
  "listening_call (Callback cb conn ev d) old = (if ev = msg_listening then conn else old)"
| "listening_call _ old = old"

definition server_done :: "mbox \<Rightarrow> bool" where
  "server_done s \<longleftrightarrow> list_ex closed_call (trace s)"

definition listening_conn :: "mbox \<Rightarrow> conn_ptr" where
  "listening_conn s = fold listening_call (trace s) 0"

text \<open>The bytes that \<open>sprintf(out_data.bytes, "echo:%s", msg)\<close> writes.\<close>

definition echo_bytes :: "bytes \<Rightarrow> bytes" where
  "echo_bytes msg = map char_byte ''echo:'' @ msg @ [0]"

definition server_callback :: "os \<Rightarrow> user_code" where
  "server_callback os cb conn ev d s = do {
     _ \<leftarrow> event_name ev;
     _ \<leftarrow> (if ev = msg_error then msg_as_str d s else Some []);
     if ev = msg_message \<or> ev = msg_request then do {
       msg \<leftarrow> msg_as_str d s;
       let (out_data, s) = msg_new_data_space os (num_bytes d + 5) s;
       b \<leftarrow> buffer_of out_data;
       s \<leftarrow> write_body b 0 (echo_bytes msg) s;
       s \<leftarrow> msg_send os conn out_data s;
       msg_delete_data out_data s
     } else Some s
   }"

text \<open>\<open>while (!done) msg_runloop(timeout_in_ms)\<close>, with the test of either program.\<close>

partial_function (option) run_until :: "os \<Rightarrow> user_code \<Rightarrow> (mbox \<Rightarrow> bool) \<Rightarrow> mbox \<Rightarrow> mbox option" where
  "run_until os user finished s =
     (if finished s then Some s
      else Option.bind (msg_runloop os user 10 s) (run_until os user finished))"

declare run_until.simps [code]

definition usage_ok :: "string list \<Rightarrow> bool" where
  "usage_ok argv \<longleftrightarrow> length argv = 2 \<and> (argv ! 1 = ''udp'' \<or> argv ! 1 = ''tcp'')"

definition example_port :: "string \<Rightarrow> nat" where
  "example_port protocol = (if hd protocol = CHR ''t'' then 2345 else 2468)"

definition server_main :: "os \<Rightarrow> string list \<Rightarrow> mbox \<Rightarrow> (int \<times> mbox) option" where
  "server_main os argv s =
     (if \<not> usage_ok argv then Some (2, s)
      else do {
        let protocol = argv ! 1;
        let address = snprintf 128 (protocol @ ''://*:'' @ dec_string (example_port protocol));
        s \<leftarrow> msg_listen os address server_update s;
        s \<leftarrow> run_until os (server_callback os) server_done s;
        s \<leftarrow> msg_unlisten os (listening_conn s) s;
        s \<leftarrow> msg_runloop os (server_callback os) 10 s;
        Some (0, s)
      })"

section \<open>The client\<close>

definition client_update :: callback_id where "client_update = 2"

fun reply_call :: "observed \<Rightarrow> bool" where
  "reply_call (Callback cb conn ev d) \<longleftrightarrow> ev = msg_reply"
| "reply_call _ \<longleftrightarrow> False"

definition client_done :: "mbox \<Rightarrow> bool" where
  "client_done s \<longleftrightarrow> list_ex reply_call (trace s)"

text \<open>\<open>ctx\<close> is the address of the string literal that is the reply context.\<close>

definition client_callback :: "os \<Rightarrow> vptr \<Rightarrow> user_code" where
  "client_callback os ctx cb conn ev d s = do {
     _ \<leftarrow> event_name ev;
     _ \<leftarrow> (if ev = msg_error then msg_as_str d s else Some []);
     if ev = msg_connection_ready then do {
       (out, s) \<leftarrow> msg_new_data os ''one-way message'' s;
       s \<leftarrow> msg_send os conn out s;
       msg_delete_data out s
     } else if ev = msg_message then do {
       _ \<leftarrow> msg_as_str d s;
       (out, s) \<leftarrow> msg_new_data os ''request-reply message'' s;
       s \<leftarrow> msg_get os conn out ctx s;
       msg_delete_data out s
     } else if ev = msg_reply then do {
       _ \<leftarrow> msg_as_str d s;
       msg_disconnect os conn s
     } else Some s
   }"

definition client_main :: "os \<Rightarrow> vptr \<Rightarrow> string list \<Rightarrow> mbox \<Rightarrow> (int \<times> mbox) option" where
  "client_main os ctx argv s =
     (if \<not> usage_ok argv then Some (2, s)
      else do {
        let protocol = argv ! 1;
        let address = snprintf 128 (protocol @ ''://127.0.0.1:'' @ dec_string (example_port protocol));
        s \<leftarrow> msg_connect os address client_update msg_no_context s;
        s \<leftarrow> run_until os (client_callback os ctx) client_done s;
        Some (0, s)
      })"

section \<open>The programs keep the invariant of the library\<close>

lemma server_callback_keeps: "user_keeps (server_callback os)"
  by (auto simp: user_keeps_def server_callback_def run_iffs split: if_splits dest!: keeps)

lemma client_callback_keeps: "user_keeps (client_callback os ctx)"
  by (auto simp: user_keeps_def client_callback_def run_iffs split: if_splits dest!: keeps)

lemma run_until_keeps:
  assumes "run_until os user finished s = Some t" "user_keeps user" "lib_ok s"
  shows "lib_ok t \<and> finished t"
proof -
  have "user_keeps user \<longrightarrow> lib_ok s \<longrightarrow> lib_ok t \<and> finished t"
  proof (rule run_until.raw_induct [where
        P = "\<lambda>os user finished s t. user_keeps user \<longrightarrow> lib_ok s \<longrightarrow> lib_ok t \<and> finished t", OF _ assms(1)])
    fix f os user finished s t
    assume IH: "\<And>os user finished s t. f os user finished s = Some t \<Longrightarrow>
        user_keeps user \<longrightarrow> lib_ok s \<longrightarrow> lib_ok t \<and> finished t"
      and run: "(if finished s then Some s else Option.bind (msg_runloop os user 10 s) (f os user finished)) = Some t"
    show "user_keeps user \<longrightarrow> lib_ok s \<longrightarrow> lib_ok t \<and> finished t"
      using run IH msg_runloop_keeps by (fastforce split: if_splits)
  qed
  with assms show ?thesis by blast
qed

section \<open>The echo\<close>

text \<open>
  What the server has ready to send when it calls \<open>msg_send\<close>: a buffer of its own with the echo of the
  message, which is a string that fills its buffer.
\<close>

definition echo_buffer :: "os \<Rightarrow> bytes \<Rightarrow> mbox \<Rightarrow> buffer" where
  "echo_buffer os msg s = \<lparr>b_meta = os_malloc_meta os (clock s), b_body = echo_bytes msg\<rparr>"

definition echo_state :: "os \<Rightarrow> bytes \<Rightarrow> mbox \<Rightarrow> mbox" where
  "echo_state os msg s =
     s\<lparr>next_id := next_id s + 1, clock := clock s + 1, trace := trace s @ [Sys_malloc (length msg + 6)],
       buf_heap := (buf_heap s)(next_id s := Some (echo_buffer os msg s))\<rparr>"

definition echo_data :: "bytes \<Rightarrow> mbox \<Rightarrow> msg_Data" where
  "echo_data msg s = \<lparr>num_bytes = length msg + 6, data_bytes = Some (next_id s, 0)\<rparr>"

lemma length_echo_bytes [simp]: "length (echo_bytes msg) = length msg + 6"
  by (simp add: echo_bytes_def)

lemma echo_sendable: "sendable (echo_data msg s) (next_id s) (echo_buffer os msg s) (echo_state os msg s)"
  by (simp add: sendable_def echo_data_def echo_state_def echo_buffer_def)

lemma server_callback_message:
  assumes "ev = msg_message \<or> ev = msg_request" "msg_as_str d s = Some msg" "num_bytes d = length msg + 1"
  shows "server_callback os cb conn ev d s =
    Option.bind (msg_send os conn (echo_data msg s) (echo_state os msg s)) (msg_delete_data (echo_data msg s))"
proof -
  have "ev \<noteq> msg_error" using assms(1) by auto
  then show ?thesis
    using assms by (auto simp: server_callback_def msg_new_data_space_def Let_def buffer_of_def write_body_def
        update_buffer_def overwrite_def echo_data_def echo_state_def echo_buffer_def add.commute)
qed

lemma msg_delete_frame:
  assumes "msg_delete_data d s = Some s'" "data_bytes d = Some (b, 0)"
  shows "trace s' = trace s" "pending s' = pending s" "buf_heap s' b = None"
  using assms by (auto simp: msg_delete_data_def buffer_of_def free_ptr_def pending_def)

lemma echo_state_frame [simp]:
  "conn_heap (echo_state os msg s) = conn_heap s" "pending (echo_state os msg s) = pending s"
  "immediate_callbacks (echo_state os msg s) = immediate_callbacks s"
  "sent_on sock (trace (echo_state os msg s)) = sent_on sock (trace s)"
  by (simp_all add: echo_state_def pending_def)

text \<open>
  C19. The echo comes back: when the callback of the echo server handles a one-way message over tcp that
  is a string, and nothing fails, then the peer that reads what the server has written, cut into any
  pieces, gets exactly one message, \<open>echo:\<close> followed by that string; the server's buffer is freed.
\<close>

theorem echo_comes_back:
  assumes "msg_as_str d s = Some msg" "num_bytes d = length msg + 1" "length msg + 6 < 2 ^ 32"
    "conn_heap s conn = Some c" "protocol_type c = msg_tcp" "reply_id c = 0" "array_inv (immediate_callbacks s)"
    "server_callback os cb conn msg_message d s = Some s'" "pending s' = pending s"
    "sent_on (socket c) (trace s') = sent_on (socket c) (trace s) @ stream"
    "tcp_peer rconn rc p r" "status_heap r p = Some st" "num_bytes (waiting_buffer st) = 0"
    "header_waits ros (socket rc) (clock r) (header_of_bytes (take header_len stream))"
    "delivers ros (socket rc) (clock r + 3) (length (drop header_len stream)) (as @ [Ok bs])"
    "payload as @ bs = drop header_len stream"
  shows "buf_heap s' (next_id s) = None \<and>
    (\<exists>rb r1 r' rbuf. read_partial ros (socket rc) rconn (length as) r = Some r1 \<and> pending r1 = pending r \<and>
      read_from_socket ros (socket rc) rconn r1 = Some (True, r') \<and>
      pending r' = pending r @ [\<lparr>pc_conn = rconn, pc_event = msg_message,
        pc_data = \<lparr>num_bytes = length msg + 6, data_bytes = Some (rb, 0)\<rparr>, to_free = None\<rparr>] \<and>
      buf_heap r' rb = Some rbuf \<and> b_body rbuf = map char_byte ''echo:'' @ msg @ [0])"
proof -
  let ?d = "echo_data msg s" and ?t = "echo_state os msg s"
  from assms(8) obtain s1 where s1: "msg_send os conn ?d ?t = Some s1" "msg_delete_data ?d s1 = Some s'"
    using server_callback_message [OF disjI1 [OF refl] assms(1,2)] by auto
  have data: "data_bytes ?d = Some (next_id s, 0)" "num_bytes ?d = length msg + 6" by (simp_all add: echo_data_def)
  note del = msg_delete_frame [OF s1(2) data(1)]
  have t: "conn_heap ?t conn = Some c" "array_inv (immediate_callbacks ?t)" "pending s1 = pending ?t"
    "sent_on (socket c) (trace s1) = sent_on (socket c) (trace ?t) @ stream" "0 < num_bytes ?d" "num_bytes ?d < 2 ^ 32"
    using assms(3,4,7,9,10) del data by simp_all
  from tcp_transfer [OF echo_sendable t(1) assms(5,6) t(2) s1(1) t(3,5,6,4) assms(11-16)] del(3) show ?thesis
    by (simp add: data echo_buffer_def echo_bytes_def)
qed

section \<open>An exchange\<close>

text \<open>The server has the message "hi" from its only connection.\<close>

definition hi_server :: mbox where
  "hi_server = sample_sender\<lparr>next_id := 6\<rparr>"

definition hi_stream :: bytes where
  "hi_stream = [0, 0, 0, 0, 0, 0, 0, 8, 101, 99, 104, 111, 58, 104, 105, 0]"

definition hi_pieces :: "nat \<Rightarrow> bytes sysret" where
  "hi_pieces t = (if t = 1 \<or> t = 2 then Ok (take 8 hi_stream) else if t = 4 then Ok [101, 99, 104]
     else if t = 6 then Ok [111, 58, 104, 105, 0] else Err EWOULDBLOCK)"

definition hi_client_os :: os where
  "hi_client_os = sample_os\<lparr>os_recv := \<lambda>t _ _ _. hi_pieces t\<rparr>"

lemma hi_client_recv [simp]: "os_recv hi_client_os t sock n peek = hi_pieces t"
  by (simp add: hi_client_os_def)

lemma hi_client:
  "header_waits hi_client_os 3 1 (header_of_bytes (take header_len hi_stream))"
  "delivers hi_client_os 3 4 8 ([Ok [101, 99, 104], Err EWOULDBLOCK] @ [Ok [111, 58, 104, 105, 0]])"
  "payload [Ok [101, 99, 104], Err EWOULDBLOCK] @ [111, 58, 104, 105, 0] = drop header_len hi_stream"
proof -
  have len: "length (take header_len hi_stream) = header_len" by (simp add: hi_stream_def header_len_def)
  show "header_waits hi_client_os 3 1 (header_of_bytes (take header_len hi_stream))"
    by (simp add: header_waits_def header_bytes_of_bytes [OF len] hi_pieces_def) (simp add: header_len_def)
qed (simp_all add: hi_pieces_def hi_stream_def header_len_def)

lemma hi_packet: "wire_packet msg_type_one_way 0 (echo_data [104, 105] s) (echo_buffer os [104, 105] s) = hi_stream"
  by (simp add: wire_packet_def echo_data_def echo_buffer_def echo_bytes_def hi_stream_def network_header_def
      header_bytes_def htons_def htonl_def le16_def le32_def msg_type_one_way_def char_byte_def of_char_def)

lemma hi_server_simps [simp]:
  "conn_heap hi_server = [1 \<mapsto> sample_conn]" "buf_heap hi_server = [5 \<mapsto> sample_buffer]" "next_id hi_server = 6"
  "pending hi_server = []" "array_inv (immediate_callbacks hi_server)"
  using lib_okD(1) [OF sample_open_ok] sample_open_views(2)
  by (simp_all add: hi_server_def sample_sender_def pending_def)

lemma hi_echo:
  "\<exists>s'. server_callback sample_os server_update 1 msg_message sample_data hi_server = Some s' \<and>
    pending s' = pending hi_server \<and> sent_on 3 (trace s') = sent_on 3 (trace hi_server) @ hi_stream"
proof -
  let ?d = "echo_data [104, 105] hi_server" and ?t = "echo_state sample_os [104, 105] hi_server"
  have msg: "msg_as_str sample_data hi_server = Some [104, 105]"
    by (simp add: msg_as_str_def buffer_of_def sample_buffer_def)
  note hdr = set_header_eq [OF echo_sendable [of "[104, 105]" hi_server sample_os], of msg_type_one_way 0]
  let ?s1 = "?t\<lparr>buf_heap := (buf_heap ?t)(6 := Some (with_header msg_type_one_way 0 ?d (echo_buffer sample_os [104, 105] hi_server)))\<rparr>"
  have "packet ?d ?s1 = Some hi_stream" using packet_with_header [OF hdr(2)] by (simp add: hi_packet)
  moreover have "hi_stream \<noteq> []" by (simp add: hi_stream_def)
  ultimately have "msg_send sample_os 1 ?d ?t =
      Some (?s1\<lparr>clock := clock ?s1 + 1, trace := trace ?s1 @ [Sys_send 3 hi_stream]\<rparr>)"
    using hdr(1) by (simp add: msg_send_def send_data_def send_all_def sample_send_loop)
  then have "server_callback sample_os server_update 1 msg_message sample_data hi_server =
      msg_delete_data ?d (?s1\<lparr>clock := clock ?s1 + 1, trace := trace ?s1 @ [Sys_send 3 hi_stream]\<rparr>)"
    using server_callback_message [OF disjI1 [OF refl] msg] by simp
  then show ?thesis
    by (simp add: msg_delete_data_def buffer_of_def free_ptr_def pending_def)
      (simp add: echo_data_def echo_state_def sent_on_def)
qed

theorem echo_comes_back_witness:
  "\<exists>r rb r1 r' rbuf. read_partial hi_client_os 3 1 2 r = Some r1 \<and> pending r1 = pending r \<and>
    read_from_socket hi_client_os 3 1 r1 = Some (True, r') \<and>
    pending r' = pending r @ [\<lparr>pc_conn = 1, pc_event = msg_message,
      pc_data = \<lparr>num_bytes = 8, data_bytes = Some (rb, 0)\<rparr>, to_free = None\<rparr>] \<and>
    buf_heap r' rb = Some rbuf \<and> b_body rbuf = map char_byte ''echo:hi'' @ [0]"
proof -
  obtain m where peer: "tcp_peer 1 sample_conn 2 (seen_state sample_os 1 sample_conn m sample_open)"
    by (rule sample_peer)
  let ?r = "seen_state sample_os 1 sample_conn m sample_open"
  obtain s' where s': "server_callback sample_os server_update 1 msg_message sample_data hi_server = Some s'"
    "pending s' = pending hi_server" "sent_on 3 (trace s') = sent_on 3 (trace hi_server) @ hi_stream"
    using hi_echo by blast
  have msg: "msg_as_str sample_data hi_server = Some [104, 105]"
    by (simp add: msg_as_str_def buffer_of_def sample_buffer_def)
  have c: "conn_heap hi_server 1 = Some sample_conn" by simp
  have sent: "sent_on (socket sample_conn) (trace s') = sent_on (socket sample_conn) (trace hi_server) @ hi_stream"
    using s'(3) by simp
  have st: "status_heap ?r 2 = Some (fresh_status sample_conn)" "num_bytes (waiting_buffer (fresh_status sample_conn)) = 0"
    by (simp_all add: fresh_status_def msg_no_data_def)
  have waits: "header_waits hi_client_os (socket sample_conn) (clock ?r) (header_of_bytes (take header_len hi_stream))"
    using hi_client(1) by simp
  have dl: "delivers hi_client_os (socket sample_conn) (clock ?r + 3) (length (drop header_len hi_stream))
      ([Ok [101, 99, 104], Err EWOULDBLOCK] @ [Ok [111, 58, 104, 105, 0]])"
    using hi_client(2) by (simp add: hi_stream_def header_len_def)
  have hi: "map char_byte ''echo:hi'' @ [0] = map char_byte ''echo:'' @ [104, 105] @ [0]"
    by (simp add: char_byte_def of_char_def)
  have two: "length [Ok [101, 99, 104], Err EWOULDBLOCK :: bytes sysret] = 2" by simp
  from echo_comes_back [OF msg _ _ c _ _ hi_server_simps(5) s'(1,2) sent peer st waits dl hi_client(3)]
  show ?thesis unfolding two hi sample_conn_simps by (intro exI [of _ ?r]) simp
qed

end
