(* ===== verification/Messages.thy ===== *)
theory Messages
  imports Samples
begin

text \<open>
  A whole tcp stream: any number of messages one after the other on the same connection, each cut
  into any pieces and delayed by any pauses, are announced once each, in the order of the stream,
  and each keeps its bytes while the later ones are read.
\<close>

section \<open>A stream of messages\<close>

text \<open>
  One message on the wire, as the network hands it out: the type and the reply id of its header, and
  the answers of \<open>recv\<close> that carry its body, of which the last one has bytes.
\<close>

record wire_msg =
  wm_type :: "16 word"
  wm_id :: "16 word"
  wm_pieces :: "bytes sysret list"
  wm_last :: bytes

definition wm_body :: "wire_msg \<Rightarrow> bytes" where
  "wm_body m = payload (wm_pieces m) @ wm_last m"

text \<open>Each answer of \<open>recv\<close> to a body takes one call of \<open>read_from_socket\<close>.\<close>

definition wm_reads :: "wire_msg \<Rightarrow> nat" where
  "wm_reads m = length (wm_pieces m) + 1"

definition wm_ok :: "wire_msg \<Rightarrow> bool" where
  "wm_ok m \<longleftrightarrow> 0 < length (wm_body m) \<and> length (wm_body m) < 2 ^ 32 \<and>
     event_of_type (wm_type m) \<noteq> None \<and> wm_type m \<noteq> msg_type_reply"

text \<open>The reply id that a message leaves in the connection: the one that \<open>msg_send\<close> answers with.\<close>

definition wm_answer :: "wire_msg \<Rightarrow> u16" where
  "wm_answer m = (if wm_type m = msg_type_one_way then 0 else wm_id m)"

text \<open>
  \<open>stream_waits os sock t ms\<close>: from call \<open>t\<close> on, the socket hands out the messages \<open>ms\<close>. A message
  takes a peek at its header, the read of its header, a call for its memory and its reads.
\<close>

fun stream_waits :: "os \<Rightarrow> int \<Rightarrow> nat \<Rightarrow> wire_msg list \<Rightarrow> bool" where
  "stream_waits os sock t [] = True"
| "stream_waits os sock t (m # ms) \<longleftrightarrow> wm_ok m \<and>
     header_waits os sock t (network_header (wm_type m) (wm_id m) (of_nat (length (wm_body m)))) \<and>
     delivers os sock (t + 3) (length (wm_body m)) (wm_pieces m @ [Ok (wm_last m)]) \<and>
     stream_waits os sock (t + 3 + wm_reads m) ms"

text \<open>Any number of calls of \<open>read_from_socket\<close>, whatever each of them reports.\<close>

fun read_times :: "os \<Rightarrow> int \<Rightarrow> conn_ptr \<Rightarrow> nat \<Rightarrow> mbox \<Rightarrow> mbox option" where
  "read_times os sock conn 0 s = Some s"
| "read_times os sock conn (Suc n) s = do {
     (again, s) \<leftarrow> read_from_socket os sock conn s;
     read_times os sock conn n s
   }"

text \<open>The calls that announce the messages, with their buffers named from \<open>b\<close> on.\<close>

fun announcements :: "conn_ptr \<Rightarrow> buf_id \<Rightarrow> wire_msg list \<Rightarrow> PendingCall list" where
  "announcements conn b [] = []"
| "announcements conn b (m # ms) =
     \<lparr>pc_conn = conn, pc_event = the (event_of_type (wm_type m)),
      pc_data = \<lparr>num_bytes = length (wm_body m), data_bytes = Some (b, 0)\<rparr>, to_free = None\<rparr> #
     announcements conn (Suc b) ms"

lemma read_times_add:
  "read_times os sock conn (m + n) s = Option.bind (read_times os sock conn m s) (read_times os sock conn n)"
  by (induction m arbitrary: s) (auto split: Option.bind_split)

lemma read_times_last:
  assumes "read_times os sock conn n s = Some s1" "read_from_socket os sock conn s1 = Some (again, s')"
  shows "read_times os sock conn (n + 1) s = Some s'"
  unfolding read_times_add using assms by (simp add: numeral_eq_Suc)

lemma read_times_partial: "read_partial os sock conn n s = Some s' \<Longrightarrow> read_times os sock conn n s = Some s'"
  by (induction n arbitrary: s) (auto split: Option.bind_splits if_splits simp: req_def)

section \<open>Reading a stream\<close>

text \<open>A connection between two messages.\<close>

definition idle_peer :: "conn_ptr \<Rightarrow> int \<Rightarrow> status_ptr \<Rightarrow> mbox \<Rightarrow> bool" where
  "idle_peer conn sock p s \<longleftrightarrow> (\<exists>c st. tcp_peer conn c p s \<and> socket c = sock \<and>
     status_heap s p = Some st \<and> num_bytes (waiting_buffer st) = 0)"

lemma idle_peerE:
  assumes "idle_peer conn sock p s"
  obtains c st where "tcp_peer conn c p s" "socket c = sock" "status_heap s p = Some st"
    "num_bytes (waiting_buffer st) = 0"
  using assms by (auto simp: idle_peer_def)

lemma read_one_message:
  assumes "idle_peer conn sock p s" "stream_waits os sock (clock s) (m # ms)"
  shows "\<exists>s' buf. read_times os sock conn (wm_reads m) s = Some s' \<and>
    pending s' = pending s @ announcements conn (next_id s) [m] \<and>
    buf_heap s' = (buf_heap s)(next_id s := Some buf) \<and> b_body buf = wm_body m \<and>
    next_id s' = Suc (next_id s) \<and> clock s' = clock s + 3 + wm_reads m \<and> idle_peer conn sock p s' \<and>
    only_reads s s' \<and> (wm_pieces m = [] \<longrightarrow> read_from_socket os sock conn s = Some (True, s')) \<and>
    map_option reply_id (conn_heap s' conn) = Some (wm_answer m)"
proof -
  obtain c st where c: "tcp_peer conn c p s" "socket c = sock" "status_heap s p = Some st"
    "num_bytes (waiting_buffer st) = 0"
    using assms(1) by (rule idle_peerE)
  obtain ev where ev: "event_of_type (wm_type m) = Some ev" using assms(2) by (auto simp: wm_ok_def)
  have h: "header_waits os (socket c) (clock s) (network_header (wm_type m) (wm_id m) (of_nat (length (wm_body m))))"
    "0 < length (wm_body m)" "length (wm_body m) < 2 ^ 32" "wm_type m \<noteq> msg_type_reply"
    "delivers os (socket c) (clock s + 3) (length (wm_body m)) (wm_pieces m @ [Ok (wm_last m)])"
    using assms(2) c(2) by (auto simp: wm_ok_def)
  have body: "payload (wm_pieces m) @ wm_last m = wm_body m" by (simp add: wm_body_def)
  from tcp_message_facts [OF c(1,3,4) h(1-3) ev h(4,5) body] c(2) obtain s1 s' buf st' c' where
    r: "read_partial os sock conn (length (wm_pieces m)) s = Some s1" "pending s1 = pending s"
      "read_from_socket os sock conn s1 = Some (True, s')"
      "pending s' = pending s @ [\<lparr>pc_conn = conn, pc_event = ev,
        pc_data = \<lparr>num_bytes = length (wm_body m), data_bytes = Some (next_id s, 0)\<rparr>, to_free = None\<rparr>]"
      "buf_heap s' (next_id s) = Some buf" "b_body buf = wm_body m" "next_id s' = Suc (next_id s)"
      "\<forall>q. q \<noteq> next_id s \<longrightarrow> buf_heap s' q = buf_heap s q"
      "clock s' = clock s + length (wm_pieces m) + 4" "tcp_peer conn c' p s'" "socket c' = sock"
      "status_heap s' p = Some st'" "num_bytes (waiting_buffer st') = 0" "only_reads s s'"
      "reply_id c' = wm_answer m"
    by (auto simp: wm_answer_def)
  have "read_times os sock conn (wm_reads m) s = Some s'"
    unfolding wm_reads_def by (rule read_times_last [OF read_times_partial [OF r(1)] r(3)])
  moreover have "buf_heap s' = (buf_heap s)(next_id s := Some buf)" using r(5,8) by auto
  moreover have "idle_peer conn sock p s'" using r(10-13) by (auto simp: idle_peer_def)
  moreover have "read_from_socket os sock conn s = Some (True, s')" if "wm_pieces m = []"
    using r(1,3) that by simp
  moreover have "map_option reply_id (conn_heap s' conn) = Some (wm_answer m)"
    using r(10,15) by (simp add: tcp_peer_def)
  ultimately show ?thesis using r(4,6,7,9,14) ev by (auto simp: wm_reads_def)
qed

lemma read_stream:
  assumes "idle_peer conn sock p s" "stream_waits os sock (clock s) ms"
  shows "\<exists>s'. read_times os sock conn (sum_list (map wm_reads ms)) s = Some s' \<and>
    pending s' = pending s @ announcements conn (next_id s) ms \<and> idle_peer conn sock p s' \<and>
    (\<forall>i < length ms. \<exists>buf. buf_heap s' (next_id s + i) = Some buf \<and> b_body buf = wm_body (ms ! i)) \<and>
    (\<forall>q < next_id s. buf_heap s' q = buf_heap s q)"
  using assms
proof (induction ms arbitrary: s)
  case (Cons m ms)
  from read_one_message [OF Cons.prems] obtain s1 buf where
    s1: "read_times os sock conn (wm_reads m) s = Some s1"
      "pending s1 = pending s @ announcements conn (next_id s) [m]"
      "buf_heap s1 = (buf_heap s)(next_id s := Some buf)" "b_body buf = wm_body m"
      "next_id s1 = Suc (next_id s)" "clock s1 = clock s + 3 + wm_reads m" "idle_peer conn sock p s1"
    by blast
  have "stream_waits os sock (clock s1) ms" using Cons.prems(2) s1(6) by simp
  from Cons.IH [OF s1(7) this] obtain s' where
    s': "read_times os sock conn (sum_list (map wm_reads ms)) s1 = Some s'"
      "pending s' = pending s1 @ announcements conn (Suc (next_id s)) ms" "idle_peer conn sock p s'"
      "\<forall>i < length ms. \<exists>b. buf_heap s' (Suc (next_id s) + i) = Some b \<and> b_body b = wm_body (ms ! i)"
      "\<forall>q < Suc (next_id s). buf_heap s' q = buf_heap s1 q"
    unfolding s1(5) by blast
  have "\<exists>b. buf_heap s' (next_id s + i) = Some b \<and> b_body b = wm_body ((m # ms) ! i)"
    if "i < length (m # ms)" for i
    using that s'(4,5) s1(3,4) by (cases i) auto
  moreover have "buf_heap s' q = buf_heap s q" if "q < next_id s" for q
    using that s'(5) s1(3) by simp
  moreover have "read_times os sock conn (sum_list (map wm_reads (m # ms))) s = Some s'"
    using s1(1) s'(1) by (simp add: read_times_add)
  ultimately show ?case using s1(2) s'(2,3) by auto
qed simp

section \<open>Sending a stream\<close>

text \<open>Several messages, none of which meets an error.\<close>

fun send_each :: "os \<Rightarrow> conn_ptr \<Rightarrow> msg_Data list \<Rightarrow> mbox \<Rightarrow> mbox option" where
  "send_each os conn [] s = Some s"
| "send_each os conn (d # ds) s = do {
     s' \<leftarrow> msg_send os conn d s;
     req (pending s' = pending s);
     send_each os conn ds s'
   }"

text \<open>The bytes of a message that the user has ready.\<close>

definition ready_body :: "mbox \<Rightarrow> msg_Data \<Rightarrow> bytes option" where
  "ready_body s d = (case data_bytes d of
     Some (b, 0) \<Rightarrow> (case buf_heap s b of
       Some buf \<Rightarrow> if num_bytes d \<le> length (b_body buf) then Some (take (num_bytes d) (b_body buf)) else None
     | None \<Rightarrow> None)
   | _ \<Rightarrow> None)"

lemma ready_body_iff:
  "ready_body s d = Some body \<longleftrightarrow> (\<exists>b buf. sendable d b buf s \<and> body = take (num_bytes d) (b_body buf))"
  by (auto simp: ready_body_def sendable_def split: option.splits prod.splits nat.splits)

lemma ready_body_length: "ready_body s d = Some body \<Longrightarrow> length body = num_bytes d"
  by (auto simp: ready_body_iff sendable_def)

lemma ready_body_header [simp]:
  "sendable d b buf s \<Longrightarrow>
     ready_body (s\<lparr>buf_heap := (buf_heap s)(b := Some (with_header t r d buf))\<rparr>) = ready_body s"
  by (auto simp: fun_eq_iff ready_body_def sendable_def with_header_def split: option.splits prod.splits nat.splits)

lemma ready_body_only_io:
  assumes "only_io s s'"
  shows "ready_body s' = ready_body s"
  unfolding ready_body_def [abs_def] only_io_fields(10) [OF assms] ..

text \<open>A message on the wire: the header in network order, then the body.\<close>

definition packet_of :: "u16 \<Rightarrow> u16 \<Rightarrow> bytes \<Rightarrow> bytes" where
  "packet_of t r body = header_bytes (network_header t r (of_nat (length body))) @ body"

abbreviation one_way_packet :: "bytes \<Rightarrow> bytes" where
  "one_way_packet \<equiv> packet_of msg_type_one_way 0"

lemma wire_packet_of:
  "sendable d b buf s \<Longrightarrow> wire_packet t r d buf = packet_of t r (take (num_bytes d) (b_body buf))"
  by (simp add: wire_packet_def packet_of_def sendable_def min_absorb2)

lemma send_each_stream:
  assumes "send_each os conn ds s = Some s'" "conn_heap s conn = Some c" "protocol_type c = msg_tcp" "reply_id c = 0"
    "array_inv (immediate_callbacks s)" "map (ready_body s) ds = map Some bodies"
  shows "sent_on (socket c) (trace s') = sent_on (socket c) (trace s) @ concat (map one_way_packet bodies)"
  using assms(1,2,5,6)
proof (induction ds arbitrary: s bodies)
  case (Cons d ds)
  from Cons.prems(4) obtain body rest where bodies: "bodies = body # rest" "ready_body s d = Some body"
    "map (ready_body s) ds = map Some rest" by (cases bodies) auto
  from bodies(2) obtain b buf where buf: "sendable d b buf s" "body = take (num_bytes d) (b_body buf)"
    by (auto simp: ready_body_iff)
  from Cons.prems(1) obtain s1 where s1: "msg_send os conn d s = Some s1" "pending s1 = pending s"
    "send_each os conn ds s1 = Some s'" by (auto simp: run_iffs)
  note clean = msg_send_clean [OF buf(1) Cons.prems(2) assms(3) Cons.prems(3) s1(1,2)]
  have "wire_packet (send_type c) (reply_id c) d buf = one_way_packet body"
    using assms(4) ready_body_length [OF bodies(2)] buf(2)
    by (simp add: wire_packet_def packet_of_def send_type_def)
  moreover have "map (ready_body s1) ds = map Some rest"
    using bodies(3) ready_body_only_io [OF clean(2)] buf(1) by simp
  moreover have "conn_heap s1 conn = Some c" "array_inv (immediate_callbacks s1)"
    using Cons.prems(2,3) only_io_fields [OF clean(2)] by simp_all
  ultimately show ?case using Cons.IH [OF s1(3)] clean(1) bodies(1) by simp
qed simp

section \<open>From one side to the other\<close>

definition wire_bytes :: "wire_msg \<Rightarrow> bytes" where
  "wire_bytes m = packet_of (wm_type m) (wm_id m) (wm_body m)"

lemma network_header_inject:
  assumes "network_header t r n = network_header t' r' n'"
  shows "t = t'" "r = r'" "n = n'"
proof -
  have "host_header (network_header t r n) = host_header (network_header t' r' n')" using assms by simp
  then show "t = t'" "r = r'" "n = n'" using host_header_of_network by simp_all
qed

lemma of_nat_inject32:
  assumes "(of_nat m :: 32 word) = of_nat n" "m < 2 ^ 32" "n < 2 ^ 32"
  shows "m = n"
proof -
  have "unat (of_nat k :: 32 word) = k" if "k < 2 ^ 32" for k
    using that by (simp add: unsigned_of_nat take_bit_nat_eq_self)
  then show ?thesis using assms by metis
qed

text \<open>The bytes of a stream leave no doubt about the messages it is made of.\<close>

lemma packet_parse:
  assumes "wire_bytes m @ rest = packet_of t r body @ rest'" "length (wm_body m) < 2 ^ 32" "length body < 2 ^ 32"
  shows "wm_type m = t" "wm_id m = r" "wm_body m = body" "rest = rest'"
proof -
  let ?n = "of_nat (length (wm_body m)) :: 32 word" and ?n' = "of_nat (length body) :: 32 word"
  have eq: "header_bytes (network_header (wm_type m) (wm_id m) ?n) = header_bytes (network_header t r ?n')"
    "wm_body m @ rest = body @ rest'"
    using assms(1) by (simp_all add: wire_bytes_def packet_of_def append_eq_append_conv)
  from eq(1) have hdr: "network_header (wm_type m) (wm_id m) ?n = network_header t r ?n'"
    by (metis header_of_bytes_bytes)
  from network_header_inject [OF this] show "wm_type m = t" "wm_id m = r" by simp_all
  from hdr have "?n = ?n'" by (rule network_header_inject)
  then have "length (wm_body m) = length body"
    by (rule of_nat_inject32) (use assms(2,3) in simp_all)
  with eq(2) show "wm_body m = body" "rest = rest'" by simp_all
qed

lemma stream_parse:
  assumes "concat (map wire_bytes ms) = concat (map one_way_packet bodies)"
    "list_all wm_ok ms" "list_all (\<lambda>b. length b < 2 ^ 32) bodies"
  shows "map wm_body ms = bodies \<and> list_all (\<lambda>m. wm_type m = msg_type_one_way) ms"
  using assms
proof (induction ms arbitrary: bodies)
  case Nil
  then show ?case by (cases bodies) (simp_all add: packet_of_def)
next
  case (Cons m ms)
  from Cons.prems(1) obtain body rest where bodies: "bodies = body # rest"
    by (cases bodies) (simp_all add: wire_bytes_def packet_of_def)
  with Cons.prems have "wire_bytes m @ concat (map wire_bytes ms) = one_way_packet body @ concat (map one_way_packet rest)"
    "length (wm_body m) < 2 ^ 32" "length body < 2 ^ 32" by (simp_all add: wm_ok_def)
  from packet_parse [OF this] Cons.IH [of rest] Cons.prems(2,3) show ?case by (simp add: bodies)
qed

text \<open>The announcements of one-way messages.\<close>

fun message_calls :: "conn_ptr \<Rightarrow> buf_id \<Rightarrow> bytes list \<Rightarrow> PendingCall list" where
  "message_calls conn b [] = []"
| "message_calls conn b (body # rest) =
     \<lparr>pc_conn = conn, pc_event = msg_message,
      pc_data = \<lparr>num_bytes = length body, data_bytes = Some (b, 0)\<rparr>, to_free = None\<rparr> #
     message_calls conn (Suc b) rest"

lemma announcements_one_way:
  "list_all (\<lambda>m. wm_type m = msg_type_one_way) ms \<Longrightarrow>
     announcements conn b ms = message_calls conn b (map wm_body ms)"
  by (induction ms arbitrary: b) (auto simp: event_of_type_def msg_type_defs)

lemma stream_waits_ok: "stream_waits os sock t ms \<Longrightarrow> list_all wm_ok ms"
  by (induction ms arbitrary: t) auto

lemma stream_transfer:
  assumes "send_each os conn ds s = Some s'" "conn_heap s conn = Some c" "protocol_type c = msg_tcp" "reply_id c = 0"
    "array_inv (immediate_callbacks s)" "map (ready_body s) ds = map Some bodies"
    "list_all (\<lambda>b. length b < 2 ^ 32) bodies"
    "idle_peer rconn rsock p r" "stream_waits ros rsock (clock r) ms"
    "sent_on (socket c) (trace s') = sent_on (socket c) (trace s) @ concat (map wire_bytes ms)"
  shows "\<exists>r'. read_times ros rsock rconn (sum_list (map wm_reads ms)) r = Some r' \<and>
    pending r' = pending r @ message_calls rconn (next_id r) bodies \<and> idle_peer rconn rsock p r' \<and>
    (\<forall>i < length bodies. \<exists>buf. buf_heap r' (next_id r + i) = Some buf \<and> b_body buf = bodies ! i) \<and>
    (\<forall>q < next_id r. buf_heap r' q = buf_heap r q)"
proof -
  from send_each_stream [OF assms(1-6)] assms(10)
  have "concat (map wire_bytes ms) = concat (map one_way_packet bodies)" by simp
  from stream_parse [OF this stream_waits_ok [OF assms(9)] assms(7)]
  have ms: "map wm_body ms = bodies" "announcements rconn (next_id r) ms = message_calls rconn (next_id r) bodies"
    by (auto simp: announcements_one_way)
  then have "length bodies = length ms" "\<forall>i < length ms. wm_body (ms ! i) = bodies ! i" by auto
  with read_stream [OF assms(8,9)] ms(2) show ?thesis by auto
qed

section \<open>The stream theorem\<close>


text \<open>The witness: the same three bytes sent twice, and received in two pieces and in one.\<close>

lemma sample_send_again:
  assumes "sendable sample_data 5 buf s" "conn_heap s 1 = Some sample_conn"
  shows "\<exists>s' buf'. msg_send sample_os 1 sample_data s = Some s' \<and> pending s' = pending s \<and>
    sendable sample_data 5 buf' s' \<and> conn_heap s' 1 = Some sample_conn"
proof -
  let ?buf = "with_header msg_type_one_way 0 sample_data buf"
  note hdr = set_header_eq [OF assms(1), of msg_type_one_way 0]
  let ?s1 = "s\<lparr>buf_heap := (buf_heap s)(5 := Some ?buf)\<rparr>"
  let ?out = "wire_packet msg_type_one_way 0 sample_data buf"
  have "packet sample_data ?s1 = Some ?out" "?out \<noteq> []"
    using packet_with_header [OF hdr(2)] by (simp_all add: wire_packet_def)
  then have "msg_send sample_os 1 sample_data s =
      Some (?s1\<lparr>clock := clock ?s1 + 1, trace := trace ?s1 @ [Sys_send 3 ?out]\<rparr>)"
    using hdr(1) assms(2) by (simp add: msg_send_def send_data_def send_all_def sample_send_loop)
  moreover have "sendable sample_data 5 ?buf (?s1\<lparr>clock := clock ?s1 + 1, trace := trace ?s1 @ [Sys_send 3 ?out]\<rparr>)"
    using hdr(2) by (simp add: sendable_def)
  ultimately show ?thesis using assms(2) by (auto simp: pending_def)
qed

definition sample_wire :: "wire_msg list" where
  "sample_wire =
     [\<lparr>wm_type = msg_type_one_way, wm_id = 0, wm_pieces = [Ok [104], Err EWOULDBLOCK], wm_last = [105, 0]\<rparr>,
      \<lparr>wm_type = msg_type_one_way, wm_id = 0, wm_pieces = [], wm_last = [104, 105, 0]\<rparr>]"

definition sample_stream_os :: os where
  "sample_stream_os = sample_os\<lparr>os_recv := \<lambda>t _ _ _.
     if t \<in> {1, 2, 7, 8} then Ok (header_bytes (network_header msg_type_one_way 0 3))
     else if t = 4 then Ok [104] else if t = 6 then Ok [105, 0] else if t = 10 then Ok [104, 105, 0]
     else Err EWOULDBLOCK\<rparr>"

lemma sample_wire_bytes: "concat (map wire_bytes sample_wire) = concat (map one_way_packet [[104, 105, 0], [104, 105, 0]])"
  by (simp add: sample_wire_def wire_bytes_def packet_of_def wm_body_def)

lemma sample_stream_waits: "stream_waits sample_stream_os 3 1 sample_wire"
  by (simp add: sample_wire_def sample_stream_os_def header_waits_def wm_ok_def wm_body_def wm_reads_def
      event_of_type_def msg_type_defs)


end
