(* ===== verification/Turn.thy ===== *)
theory Turn
  imports Messages Queueing
begin

text \<open>
  A turn of the run loop, from the network to the user: what \<open>poll\<close> finds is read, and what was read
  is handed to the callback, in the same call of \<open>msg_runloop\<close>.
\<close>

section \<open>Reading until nothing is left\<close>

text \<open>A connection with nothing to read is left as it is.\<close>

lemma read_blocked:
  assumes "idle_peer conn sock p s" "os_recv os (clock s) sock header_len True = Err EWOULDBLOCK"
  shows "\<exists>s'. read_from_socket os sock conn s = Some (False, s') \<and> only_io s s' \<and> only_reads s s' \<and>
    clock s' = Suc (clock s)"
proof -
  obtain c st where c: "tcp_peer conn c p s" "socket c = sock" "status_heap s p = Some st"
    "num_bytes (waiting_buffer st) = 0"
    using assms(1) by (rule idle_peerE)
  have seen: "remote_address_seen os conn s = Some (p, s)"
    using c(1) by (intro remote_address_known) (auto simp: tcp_peer_def lib_okD)
  let ?s = "s\<lparr>clock := Suc (clock s), trace := trace s @ [Sys_recv sock header_len True], last_errno := EWOULDBLOCK\<rparr>"
  have "read_header os sock conn s = Some (None, ?s)"
    using assms(2) by (simp add: read_header_def sys_recv_def syscall_def get_errno_def Let_def)
  then have "read_tcp os sock conn s = Some (None, ?s)"
    by (simp add: read_tcp_def seen c(3,4))
  then have "read_from_socket os sock conn s = Some (False, ?s)"
    using c(1) by (simp add: read_from_socket_def tcp_peer_def)
  moreover have "only_io s ?s" "only_reads s ?s" by (simp_all add: only_io_iff only_reads_def)
  ultimately show ?thesis by auto
qed

lemma read_loop_step:
  assumes "idle_peer conn sock p s" "read_from_socket os sock conn s = Some (again, s')"
  shows "read_loop os conn s = (if again then read_loop os conn s' else Some s')"
  using assms by (auto simp: idle_peer_def tcp_peer_def read_loop.simps [of os conn s])

lemma idle_peer_only_io: "only_io s s' \<Longrightarrow> idle_peer conn sock p s \<Longrightarrow> idle_peer conn sock p s'"
  using lib_ok_only_io only_io_fields by (simp add: idle_peer_def tcp_peer_def)

text \<open>
  The loop reads all messages that are there in whole, and ends when the socket has no more.
\<close>

lemma read_loop_stream:
  assumes "idle_peer conn sock p s" "stream_waits os sock (clock s) ms" "list_all (\<lambda>m. wm_pieces m = []) ms"
    "os_recv os (clock s + 4 * length ms) sock header_len True = Err EWOULDBLOCK"
  shows "\<exists>s'. read_loop os conn s = Some s' \<and>
    pending s' = pending s @ announcements conn (next_id s) ms \<and> idle_peer conn sock p s' \<and>
    (\<forall>i < length ms. \<exists>buf. buf_heap s' (next_id s + i) = Some buf \<and> b_body buf = wm_body (ms ! i)) \<and>
    (\<forall>q < next_id s. buf_heap s' q = buf_heap s q) \<and>
    only_reads s s' \<and> clock s' = clock s + 4 * length ms + 1 \<and>
    map_option reply_id (conn_heap s' conn) =
      (if ms = [] then map_option reply_id (conn_heap s conn) else Some (wm_answer (last ms)))"
  using assms
proof (induction ms arbitrary: s)
  case Nil
  with read_blocked [OF Nil(1), of os] obtain s' where
    s': "read_from_socket os sock conn s = Some (False, s')" "only_io s s'" "only_reads s s'"
      "clock s' = Suc (clock s)" by auto
  then show ?case
    using read_loop_step [OF Nil(1) s'(1)] idle_peer_only_io [OF s'(2) Nil(1)] only_io_views(3) [OF s'(2)]
      only_io_fields(8,10) [OF s'(2)] by simp
next
  case (Cons m ms)
  from read_one_message [OF Cons.prems(1,2)] Cons.prems(3) obtain s1 buf where
    s1: "read_from_socket os sock conn s = Some (True, s1)" "only_reads s s1"
      "pending s1 = pending s @ announcements conn (next_id s) [m]"
      "buf_heap s1 = (buf_heap s)(next_id s := Some buf)" "b_body buf = wm_body m"
      "next_id s1 = Suc (next_id s)" "clock s1 = clock s + 4" "idle_peer conn sock p s1"
      "map_option reply_id (conn_heap s1 conn) = Some (wm_answer m)"
    by (auto simp: wm_reads_def)
  have prems: "stream_waits os sock (clock s1) ms" "list_all (\<lambda>m. wm_pieces m = []) ms"
    "os_recv os (clock s1 + 4 * length ms) sock header_len True = Err EWOULDBLOCK"
    using Cons.prems(2-4) s1(7) by (simp_all add: wm_reads_def add_ac)
  from Cons.IH [OF s1(8) prems] obtain s' where
    s': "read_loop os conn s1 = Some s'" "pending s' = pending s1 @ announcements conn (Suc (next_id s)) ms"
      "idle_peer conn sock p s'" "only_reads s1 s'" "clock s' = clock s1 + 4 * length ms + 1"
      "\<forall>i < length ms. \<exists>b. buf_heap s' (Suc (next_id s) + i) = Some b \<and> b_body b = wm_body (ms ! i)"
      "\<forall>q < Suc (next_id s). buf_heap s' q = buf_heap s1 q"
      "map_option reply_id (conn_heap s' conn) =
        (if ms = [] then map_option reply_id (conn_heap s1 conn) else Some (wm_answer (last ms)))"
    unfolding s1(6) by blast
  have "map_option reply_id (conn_heap s' conn) = Some (wm_answer (last (m # ms)))"
    using s'(8) s1(9) by simp
  moreover have "\<exists>b. buf_heap s' (next_id s + i) = Some b \<and> b_body b = wm_body ((m # ms) ! i)"
    if "i < length (m # ms)" for i
    using that s'(6,7) s1(4,5) by (cases i) auto
  moreover have "buf_heap s' q = buf_heap s q" if "q < next_id s" for q
    using that s'(7) s1(4) by simp
  moreover have "only_reads s s'" using s1(2) s'(4) by (rule only_reads_trans)
  moreover have "read_loop os conn s = Some s'"
    using read_loop_step [OF Cons.prems(1) s1(1)] s'(1) by simp
  ultimately show ?case using s1(3,7) s'(2,3,5) by auto
qed

section \<open>Polling one readable connection\<close>

text \<open>\<open>poll\<close> finds exactly the connection at index \<open>i\<close>, with something to read.\<close>

definition one_readable :: "os \<Rightarrow> nat \<Rightarrow> int \<Rightarrow> mbox \<Rightarrow> bool" where
  "one_readable os i wait s \<longleftrightarrow> os_poll os (clock s) (pollfd_list s) wait =
     Ok (1, map (\<lambda>j. if j = i then POLLIN else 0) [0..<length (pollfd_list s)])"

lemma set_revents_upto:
  "set_revents (map f [n..<n + length ps]) ps = map (\<lambda>(j, p). p\<lparr>revents := f j\<rparr>) (enumerate n ps)"
  by (induction ps arbitrary: n) (simp_all add: upt_conv_Cons del: upt_Suc flip: add_Suc)

lemma check_one_readable:
  assumes "one_readable os i wait s" "lib_ok s"
  obtains s' where "check_poll_fds os wait s = (1, s')"
    "\<forall>j < a_count (conns s). poll_fds_mode j s' = Some (if j = i then poll_mode_read else 0)"
    "s' = s\<lparr>clock := Suc (clock s), trace := trace s @ [Sys_poll (pollfd_list s) wait], poll_fds := poll_fds s'\<rparr>"
proof -
  let ?P = "pollfd_list s" and ?f = "\<lambda>j. if j = i then POLLIN else (0 :: u16)"
  let ?L = "map (\<lambda>(j, p). p\<lparr>revents := ?f j\<rparr>) (enumerate 0 ?P)"
  let ?a = "(poll_fds s)\<lparr>items := map Some ?L @ drop (length ?P) (items (poll_fds s))\<rparr>"
  let ?t = "s\<lparr>clock := Suc (clock s), trace := trace s @ [Sys_poll ?P wait], poll_fds := ?a\<rparr>"
  have len: "length ?P = a_count (conns s)"
    using lib_okD(4,6) [OF assms(2)] by (simp add: pollfd_list_def length_array_list)
  have run: "check_poll_fds os wait s = (1, ?t)"
    using assms(1) set_revents_upto [of ?f 0 ?P]
    by (simp add: check_poll_fds_def pollfd_list_def one_readable_def syscall_def Let_def)
  have "poll_fds_mode j ?t = Some (if j = i then poll_mode_read else 0)" if "j < a_count (conns s)" for j
  proof -
    have "array__item_val ?a j = Some ((?P ! j)\<lparr>revents := ?f j\<rparr>)"
      using that len by (simp add: array__item_val_def nth_append nth_enumerate_eq)
    then show ?thesis
      by (simp add: poll_fds_mode_def POLLIN_def POLLOUT_def POLLERR_def POLLNVAL_def POLLHUP_def poll_mode_read_def)
  qed
  with run show thesis by (intro that [of ?t]) simp_all
qed

text \<open>Connections about which \<open>poll\<close> says nothing are passed over.\<close>

definition silent_at :: "nat \<Rightarrow> mbox \<Rightarrow> bool" where
  "silent_at j s \<longleftrightarrow> poll_fds_mode j s = Some 0 \<and>
     (\<exists>conn c. array__item_val (conns s) j = Some conn \<and> conn_heap s conn = Some c)"

lemma poll_one_silent: "silent_at j s \<Longrightarrow> poll_one os j s = Some s"
  by (auto simp: silent_at_def poll_one_def has_mode_def Let_def)

lemma poll_silent:
  assumes "\<And>j. i \<le> j \<Longrightarrow> j < k \<Longrightarrow> silent_at j s" "i \<le> k" "k \<le> a_count (conns s)"
  shows "poll_conns_from os i s = poll_conns_from os k s"
  using assms
proof (induction "k - i" arbitrary: i)
  case (Suc n)
  then have "silent_at i s" "i < a_count (conns s)" by simp_all
  then have "poll_conns_from os i s = poll_conns_from os (Suc i) s"
    using poll_one_silent [of i s os] by (subst poll_conns_from.simps) simp
  also have "\<dots> = poll_conns_from os k s"
    using Suc.hyps(2) Suc.prems by (intro Suc.hyps(1)) auto
  finally show ?case .
qed simp

lemma poll_one_readable:
  assumes "\<And>j. j < a_count (conns s) \<Longrightarrow> poll_fds_mode j s = Some (if j = i then poll_mode_read else 0)"
    "lib_ok s" "\<And>j. j < a_count (conns s) \<Longrightarrow> \<exists>c. conn_heap s (conn_list s ! j) = Some c"
    "i < a_count (conns s)" "conn_list s ! i = conn" "read_loop os conn s = Some s'" "only_reads s s'"
  shows "poll_conns_from os 0 s = Some s'"
proof -
  have item: "array__item_val (conns s) j = Some (conn_list s ! j)" if "j < a_count (conns s)" for j
    using array_item_val [OF lib_okD(2) [OF assms(2)] that] by (simp add: conn_list_def)
  note alive = assms(3)
  have kept: "conns s' = conns s" "poll_fds s' = poll_fds s" "dom (conn_heap s) \<subseteq> dom (conn_heap s')"
    using assms(7) by (simp_all add: only_reads_def)
  have "silent_at j s" if "j < i" for j
    using that assms(1) [of j] assms(4) item [of j] alive [of j] by (simp add: silent_at_def)
  then have "poll_conns_from os 0 s = poll_conns_from os i s"
    by (intro poll_silent) (use assms(4) in auto)
  also have "\<dots> = poll_conns_from os (Suc i) s'"
  proof -
    obtain c where "conn_heap s conn = Some c" using alive [OF assms(4)] assms(5) by auto
    then have "poll_one os i s = Some s'"
      using item [OF assms(4)] assms(1) [OF assms(4)] assms(5,6)
      by (simp add: poll_one_def has_mode_def poll_mode_read_def poll_mode_write_def poll_mode_err_def)
    then show ?thesis using assms(4) by (subst poll_conns_from.simps) simp
  qed
  also have "\<dots> = poll_conns_from os (a_count (conns s')) s'"
  proof (rule poll_silent)
    fix j assume j: "Suc i \<le> j" "j < a_count (conns s')"
    then have "poll_fds_mode j s' = Some 0"
      using assms(1) [of j] kept(1,2) by (simp add: poll_fds_mode_def)
    moreover have "conn_heap s' (conn_list s ! j) \<noteq> None"
      using alive [of j] j(2) kept(1,3) by (auto simp: dom_def)
    ultimately show "silent_at j s'" using item [of j] j(2) kept(1) by (auto simp: silent_at_def)
  qed (use assms(4) kept(1) in auto)
  finally show ?thesis by (subst (asm) (2) poll_conns_from.simps) simp
qed

section \<open>The rest of the turn\<close>

lemma nothing_to_remove:
  assumes "a_count (removals s) = 0"
  shows "process_removals s = Some (s\<lparr>removals := array__clear (removals s)\<rparr>)"
  using assms by (simp add: process_removals_def remove_conns_from.simps)

lemma nothing_expires:
  assumes "array_inv (timeouts s)" "\<forall>x \<in> set (timeout_list s). time_now < t_at x"
  shows "expire_timeouts os time_now s = Some s"
proof (cases "0 < a_count (timeouts s)")
  case True
  then have "array__item_val (timeouts s) 0 = Some (timeout_list s ! 0)" "timeout_list s ! 0 \<in> set (timeout_list s)"
    using array_item_val [OF assms(1) True] assms(1) by (simp_all add: timeout_list_def length_array_list)
  with assms(2) True show ?thesis by (subst expire_timeouts.simps) simp
qed (subst expire_timeouts.simps, simp)

text \<open>The states before the reading: the removals are cleared, then \<open>poll\<close> has answered.\<close>

lemma turn_polled:
  assumes "lib_ok s" "conns_ok s" "removals s = array__clear (removals s)" "one_readable os i wait s"
    "i < a_count (conns s)" "conn_list s ! i = conn" "idle_peer conn sock p s"
    "stream_waits os sock (Suc (clock s)) ms" "list_all (\<lambda>m. wm_pieces m = []) ms"
    "os_recv os (clock s + 4 * length ms + 1) sock header_len True = Err EWOULDBLOCK"
  shows "\<exists>s'. poll_pass os wait s = Some s' \<and> lib_ok s' \<and>
    pending s' = pending s @ announcements conn (next_id s) ms \<and>
    (\<forall>k < length ms. \<exists>buf. buf_heap s' (next_id s + k) = Some buf \<and> b_body buf = wm_body (ms ! k)) \<and>
    (\<forall>q < next_id s. buf_heap s' q = buf_heap s q) \<and>
    timeouts s' = timeouts s \<and> clock s' = clock s + 4 * length ms + 2 \<and>
    idle_peer conn sock p s' \<and> (\<forall>k. sent_on k (trace s') = sent_on k (trace s)) \<and>
    (ms \<noteq> [] \<longrightarrow> map_option reply_id (conn_heap s' conn) = Some (wm_answer (last ms)))"
proof -
  obtain t where t: "check_poll_fds os wait s = (1, t)"
    "\<forall>j < a_count (conns s). poll_fds_mode j t = Some (if j = i then poll_mode_read else 0)"
    "t = s\<lparr>clock := Suc (clock s), trace := trace s @ [Sys_poll (pollfd_list s) wait], poll_fds := poll_fds t\<rparr>"
    by (rule check_one_readable [OF assms(4,1)])
  have same: "conns t = conns s" "conn_heap t = conn_heap s" "removals t = removals s" "next_id t = next_id s"
    "clock t = Suc (clock s)" "conn_status t = conn_status s" "status_heap t = status_heap s"
    "timeouts t = timeouts s" "buf_heap t = buf_heap s" "immediate_callbacks t = immediate_callbacks s"
    "trace t = trace s @ [Sys_poll (pollfd_list s) wait]"
    by (subst t(3), simp)+
  have ok: "lib_ok t" by (rule check_poll_fds_keeps [OF t(1) assms(1)])
  have idle: "idle_peer conn sock p t" using assms(7) ok by (simp add: idle_peer_def tcp_peer_def same)
  have "stream_waits os sock (clock t) ms"
    "os_recv os (clock t + 4 * length ms) sock header_len True = Err EWOULDBLOCK"
    using assms(8,10) by (simp_all add: same)
  from read_loop_stream [OF idle this(1) assms(9) this(2)] obtain u where
    u: "read_loop os conn t = Some u" "pending u = pending t @ announcements conn (next_id s) ms"
      "\<forall>k < length ms. \<exists>buf. buf_heap u (next_id s + k) = Some buf \<and> b_body buf = wm_body (ms ! k)"
      "\<forall>q < next_id s. buf_heap u q = buf_heap s q" "only_reads t u" "clock u = clock t + 4 * length ms + 1"
      "idle_peer conn sock p u" "ms \<noteq> [] \<longrightarrow> map_option reply_id (conn_heap u conn) = Some (wm_answer (last ms))"
    unfolding same by metis
  have alive: "\<exists>c. conn_heap t (conn_list t ! j) = Some c" if "j < a_count (conns t)" for j
    using conns_okD(3) [OF assms(2)] assms(2) that
    by (auto simp: conns_ok_def matched_def conn_list_def same)
  have "poll_conns_from os 0 t = Some u"
    by (rule poll_one_readable [OF _ ok alive _ _ u(1,5), of i])
      (use t(2) assms(5,6) in \<open>simp_all add: same conn_list_def\<close>)
  moreover have "a_count (removals u) = 0"
    using u(5) assms(3) array_clear_count [of "removals s"] by (simp add: only_reads_def same)
  ultimately have pass: "poll_pass os wait s = Some (u\<lparr>removals := array__clear (removals u)\<rparr>)"
    using assms(5) t(1) nothing_to_remove [of u] by (simp add: poll_pass_def)
  have "timeouts u = timeouts s" using u(5) by (simp add: only_reads_def same)
  moreover have "pending t = pending s" by (simp add: pending_def same)
  moreover have ok_u: "lib_ok (u\<lparr>removals := array__clear (removals u)\<rparr>)"
    by (rule poll_pass_keeps [OF pass assms(1)])
  moreover have "idle_peer conn sock p (u\<lparr>removals := array__clear (removals u)\<rparr>)"
    using u(7) ok_u by (simp add: idle_peer_def tcp_peer_def)
  moreover have "sent_on k (trace u) = sent_on k (trace s)" for k
    using u(5) by (simp add: only_reads_def same)
  ultimately show ?thesis using pass u(2-4,6,8) by (simp add: same pending_def)
qed

lemma turn_run:
  assumes "conns_ok s" "array_list (removals s) = []" "idle_peer conn sock p s"
    "i < length (conn_list s)" "conn_list s ! i = conn"
    "one_readable os i (if pending s = [] then ms else 0) s"
    "stream_waits os sock (Suc (clock s)) msgs" "list_all (\<lambda>m. wm_pieces m = []) msgs"
    "os_recv os (clock s + 4 * length msgs + 1) sock header_len True = Err EWOULDBLOCK"
    "\<forall>x \<in> set (timeout_list s). os_time os (clock s + 4 * length msgs + 2) < t_at x"
  shows "\<exists>t. (\<forall>user. msg_runloop os user ms s = run_pending user t) \<and> lib_ok t \<and> called t = called s \<and>
    pending t = pending s @ announcements conn (next_id s) msgs \<and>
    (\<forall>k < length msgs. \<exists>buf. buf_heap t (next_id s + k) = Some buf \<and> b_body buf = wm_body (msgs ! k)) \<and>
    (\<forall>q < next_id s. buf_heap t q = buf_heap s q) \<and>
    idle_peer conn sock p t \<and> (\<forall>k. sent_on k (trace t) = sent_on k (trace s)) \<and>
    (msgs \<noteq> [] \<longrightarrow> map_option reply_id (conn_heap t conn) = Some (wm_answer (last msgs)))"
proof -
  define wait where "wait = (if pending s = [] then ms else 0)"
  let ?s = "s\<lparr>removals := array__clear (removals s)\<rparr>"
  have ok: "lib_ok s" using assms(3) by (auto simp: idle_peer_def tcp_peer_def)
  note inv = lib_okD [OF ok]
  have init: "init_if_needed s = s" using inv(9) by (simp add: init_if_needed_def)
  have zero: "a_count (removals s) = 0" using length_array_list [OF inv(3)] assms(2) by simp
  have rem: "process_removals s = Some ?s" by (rule nothing_to_remove [OF zero])
  have ok': "lib_ok ?s" by (rule process_removals_keeps [OF rem ok])
  have W: "(if a_count (immediate_callbacks s) \<noteq> 0 then 0 else ms) = wait"
    using length_array_list [OF inv(1)] by (auto simp: pending_def wait_def)
  have idle: "idle_peer conn sock p ?s" using assms(3) ok' by (simp add: idle_peer_def tcp_peer_def)
  have views: "conn_list ?s = conn_list s" "pollfd_list ?s = pollfd_list s" "pending ?s = pending s"
    by (simp_all add: conn_list_def pollfd_list_def pending_def)
  have "conns_ok ?s" "one_readable os i wait ?s" "i < a_count (conns ?s)"
    using assms(1,4,6) conns_okD(3) [OF assms(1)] by (simp_all add: conns_ok_def one_readable_def views wait_def)
  moreover have "removals ?s = array__clear (removals ?s)" by (simp add: array__clear_def)
  ultimately obtain t where
    t: "poll_pass os wait ?s = Some t" "lib_ok t" "pending t = pending s @ announcements conn (next_id s) msgs"
      "\<forall>k < length msgs. \<exists>buf. buf_heap t (next_id s + k) = Some buf \<and> b_body buf = wm_body (msgs ! k)"
      "\<forall>q < next_id s. buf_heap t q = buf_heap s q" "timeouts t = timeouts s" "clock t = clock s + 4 * length msgs + 2"
      "idle_peer conn sock p t" "\<forall>k. sent_on k (trace t) = sent_on k (trace s)"
      "msgs \<noteq> [] \<longrightarrow> map_option reply_id (conn_heap t conn) = Some (wm_answer (last msgs))"
    using turn_polled [OF ok', of os i wait conn sock p msgs] idle assms(5,7-9) views by auto
  obtain w u where u: "now os t = (w, u)" by fastforce
  then have w: "w = os_time os (clock t)" "u = t\<lparr>clock := clock t + 1, trace := trace t @ [Sys_time]\<rparr>"
    by (simp_all add: now_def)
  have ok_u: "lib_ok u" by (rule now_keeps [OF u t(2)])
  have exp: "expire_timeouts os w u = Some u"
    using assms(10) t(6,7) lib_okD(5) [OF ok_u]
    by (intro nothing_expires) (simp_all add: w timeout_list_def)
  have "msg_runloop os user ms s = run_pending user u" for user
    unfolding msg_runloop_def init Let_def W by (simp add: rem t(1) u exp)
  moreover have "called u = called s"
    using poll_pass_grows [OF t(1) process_removals_grows [OF rem grown_refl]] by (simp add: w(2) grown_def called_def)
  moreover have "idle_peer conn sock p u"
    using t(8) ok_u by (simp add: w(2) idle_peer_def tcp_peer_def)
  ultimately show ?thesis using ok_u t(3-5,9,10) w(2) by (intro exI [of _ u]) (simp add: pending_def)
qed

section \<open>From the network to the callback\<close>

text \<open>
  C4. A turn of the run loop hands the user what the network has: when \<open>poll\<close> finds one tcp
  connection readable, any number of complete messages wait there and no request is overdue, then
  everything that \<open>msg_runloop\<close> does before the callbacks succeeds and reads exactly these messages,
  each into a buffer of its own; and if the user's code returns, it was called once for each callback
  that was pending before and then once for each message, in the order of the stream.
\<close>

theorem turn_delivers:
  assumes "conns_ok s" "array_list (removals s) = []" "idle_peer conn sock p s"
    "i < length (conn_list s)" "conn_list s ! i = conn"
    "one_readable os i (if pending s = [] then ms else 0) s"
    "stream_waits os sock (Suc (clock s)) msgs" "list_all (\<lambda>m. wm_pieces m = []) msgs"
    "os_recv os (clock s + 4 * length msgs + 1) sock header_len True = Err EWOULDBLOCK"
    "\<forall>x \<in> set (timeout_list s). os_time os (clock s + 4 * length msgs + 2) < t_at x"
  shows "\<exists>t. (\<forall>user. msg_runloop os user ms s = run_pending user t) \<and>
    (\<forall>k < length msgs. \<exists>buf. buf_heap t (next_id s + k) = Some buf \<and> b_body buf = wm_body (msgs ! k)) \<and>
    (\<forall>q < next_id s. buf_heap t q = buf_heap s q) \<and>
    pending t = pending s @ announcements conn (next_id s) msgs \<and>
    (\<forall>prog s'. msg_runloop os (user_of os prog) ms s = Some s' \<longrightarrow>
      called s' = called s @ map call_args (pending s @ announcements conn (next_id s) msgs))"
proof -
  from turn_run [OF assms] obtain t where t: "\<forall>user. msg_runloop os user ms s = run_pending user t" "lib_ok t"
    "called t = called s" "pending t = pending s @ announcements conn (next_id s) msgs"
    "\<forall>k < length msgs. \<exists>buf. buf_heap t (next_id s + k) = Some buf \<and> b_body buf = wm_body (msgs ! k)"
    "\<forall>q < next_id s. buf_heap t q = buf_heap s q" by blast
  have "called s' = called s @ map call_args (pending s @ announcements conn (next_id s) msgs)"
    if "msg_runloop os (user_of os prog) ms s = Some s'" for prog s'
    using run_pending_called [OF lib_okD(1) [OF t(2)]] that t(1,3,4) by metis
  with t show ?thesis by blast
qed

text \<open>The witness: two messages wait on the only connection, whose first callback is still pending.\<close>

definition burst_wire :: "wire_msg list" where
  "burst_wire = [\<lparr>wm_type = msg_type_one_way, wm_id = 0, wm_pieces = [], wm_last = [104, 105]\<rparr>,
     \<lparr>wm_type = msg_type_one_way, wm_id = 0, wm_pieces = [], wm_last = [104, 106]\<rparr>]"

definition burst_os :: os where
  "burst_os = sample_os\<lparr>os_poll := \<lambda>_ _ _. Ok (1, [POLLIN]), os_recv := \<lambda>t _ _ _.
     if t \<in> {2, 3, 6, 7} then Ok (header_bytes (network_header msg_type_one_way 0 2))
     else if t = 5 then Ok [104, 105] else if t = 9 then Ok [104, 106] else Err EWOULDBLOCK\<rparr>"

lemma burst_waits: "stream_waits burst_os 3 2 burst_wire"
  by (simp add: burst_wire_def burst_os_def header_waits_def wm_ok_def wm_body_def wm_reads_def
      event_of_type_def msg_type_defs)

lemma seen_state_arrays:
  "conns (seen_state os conn c m s) = conns s" "poll_fds (seen_state os conn c m s) = poll_fds s"
  "removals (seen_state os conn c m s) = removals s" "timeouts (seen_state os conn c m s) = timeouts s"
  "conn_heap (seen_state os conn c m s) = conn_heap s"
  by (simp_all add: seen_state_def)

lemma sample_idle:
  obtains r where "idle_peer 1 3 2 r" "conns_ok r" "conn_list r = [1]" "length (pollfd_list r) = 1"
    "timeout_list r = []" "array_list (removals r) = []" "clock r = 1" "next_id r = 4"
    "conn_heap r = [1 \<mapsto> sample_conn]" "map_lookup (conn_status r) (address_of_conn sample_conn) = Some 2"
    "status_heap r = [2 \<mapsto> fresh_status sample_conn]" "\<forall>x. reply_lookup r 2 x = None"
    "buf_heap r 3 \<noteq> None"
proof -
  obtain m where peer: "tcp_peer 1 sample_conn 2 (seen_state sample_os 1 sample_conn m sample_open)"
    by (rule sample_peer)
  let ?r = "seen_state sample_os 1 sample_conn m sample_open"
  have st: "status_heap ?r = [2 \<mapsto> fresh_status sample_conn]" by simp
  have "idle_peer 1 3 2 ?r"
    using peer by (auto simp: idle_peer_def fresh_status_def msg_no_data_def intro!: exI [of _ sample_conn])
  moreover have "conn_list ?r = [1]" "length (pollfd_list ?r) = 1" "timeout_list ?r = []"
    using sample_open_views sample_open_conns
    by (simp_all add: conn_list_def pollfd_list_def timeout_list_def seen_state_arrays conns_ok_def matched_def)
  moreover have "conns_ok ?r"
    using sample_open_conns unfolding conns_ok_def conn_list_def pollfd_list_def seen_state_arrays .
  moreover have "array_list (removals ?r) = []"
    by (simp add: seen_state_arrays sample_open_def sample_pre_def add_to_poll_fds_def array_simps)
  moreover have "next_id ?r = 4" "buf_heap ?r 3 \<noteq> None" "conn_heap ?r = [1 \<mapsto> sample_conn]"
    by (simp_all add: seen_state_def)
  moreover have "reply_lookup ?r 2 x = None" for x
    unfolding reply_lookup_def st by (simp add: fresh_status_def reply_map.new_lookup)
  moreover have "map_lookup (conn_status ?r) (address_of_conn sample_conn) = Some 2"
    using peer by (simp add: tcp_peer_def)
  ultimately show thesis using st by (intro that [of ?r]) simp_all
qed

theorem turn_delivers_witness:
  "\<exists>r t. (\<forall>user. msg_runloop burst_os user 10 r = run_pending user t) \<and>
    pending t = pending r @ announcements 1 (next_id r) burst_wire"
proof -
  obtain r where r: "idle_peer 1 3 2 r" "conns_ok r" "conn_list r = [1]" "length (pollfd_list r) = 1"
    "timeout_list r = []" "array_list (removals r) = []" "clock r = 1"
    by (rule sample_idle)
  have "0 < length (conn_list r)" "conn_list r ! 0 = 1" unfolding r(3) by simp_all
  moreover have "one_readable burst_os 0 (if pending r = [] then 10 else 0) r"
    unfolding one_readable_def r(4,7) by (simp add: burst_os_def)
  moreover have "stream_waits burst_os 3 (Suc (clock r)) burst_wire" "list_all (\<lambda>m. wm_pieces m = []) burst_wire"
    using burst_waits r(7) by (simp_all add: burst_wire_def numeral_2_eq_2)
  moreover have "os_recv burst_os (clock r + 4 * length burst_wire + 1) 3 header_len True = Err EWOULDBLOCK"
    unfolding r(7) by (simp add: burst_os_def burst_wire_def)
  moreover have "\<forall>x \<in> set (timeout_list r). os_time burst_os (clock r + 4 * length burst_wire + 2) < t_at x"
    unfolding r(5) by simp
  ultimately show ?thesis using turn_delivers [OF r(2,6,1)] by metis
qed

end
