(* ===== verification/Answers.thy ===== *)
theory Answers
  imports Turn
begin

text \<open>
  Answering requests: what \<open>msg_send\<close> writes when the user answers from the callback. The id of the
  request is a field of the connection, written when a message is read, while the callback runs after
  all messages of the turn were read.
\<close>

section \<open>A socket that takes everything\<close>

text \<open>It may write in pieces and make the sender wait, but not for ever, and it has no other errors.\<close>

definition sends_well :: "os \<Rightarrow> int \<Rightarrow> bool" where
  "sends_well os sock \<longleftrightarrow> send_accepts os sock \<and> send_progress os sock \<and>
     (\<forall>t out e. os_send os t sock out = Err e \<longrightarrow> e = EWOULDBLOCK)"

lemma send_loop_no_error:
  assumes "send_loop os sock out s = Some (r, s')" "\<forall>t out e. os_send os t sock out = Err e \<longrightarrow> e = EWOULDBLOCK"
  shows "r = 0"
proof -
  have "os' = os \<longrightarrow> sock' = sock \<longrightarrow> fst y = 0" if "send_loop os' sock' out s = Some y" for os' sock' out s y
  proof (rule send_loop.raw_induct [where P = "\<lambda>os' sock' out s y. os' = os \<longrightarrow> sock' = sock \<longrightarrow> fst y = 0", OF _ that])
    fix f os' sock' out s y
    assume IH: "\<And>os' sock' out s y. f os' sock' out s = Some y \<Longrightarrow> os' = os \<longrightarrow> sock' = sock \<longrightarrow> fst y = 0"
      and eq: "(if out = [] then Some (0, s)
        else case sys_send os' sock' out s of (just_sent, s) \<Rightarrow>
          (case just_sent of
             None \<Rightarrow> if get_errno s = EWOULDBLOCK then f os' sock' out s else Some (- 1, s)
           | Some n \<Rightarrow> if n \<le> length out then f os' sock' (drop n out) s else None)) = Some y"
    show "os' = os \<longrightarrow> sock' = sock \<longrightarrow> fst y = 0"
    proof (intro impI)
      assume [simp]: "os' = os" "sock' = sock"
      show "fst y = 0"
      proof (cases "out = []")
        case False
        then show ?thesis using eq assms(2)
          by (cases "os_send os (clock s) sock out")
            (auto simp: sys_send_def get_errno_def split: if_splits dest: IH)
      qed (use eq in auto)
    qed
  qed
  from this [OF assms(1)] show ?thesis by simp
qed

text \<open>Over such a socket \<open>msg_send\<close> returns, reports no error and writes the whole packet.\<close>

lemma msg_send_well:
  assumes "sendable d b buf s" "conn_heap s conn = Some c" "protocol_type c = msg_tcp"
    "array_inv (immediate_callbacks s)" "sends_well os (socket c)"
  shows "\<exists>s'. msg_send os conn d s = Some s' \<and> pending s' = pending s \<and>
    sent_on (socket c) (trace s') = sent_on (socket c) (trace s) @ wire_packet (send_type c) (reply_id c) d buf \<and>
    only_io (s\<lparr>buf_heap := (buf_heap s)(b := Some (with_header (send_type c) (reply_id c) d buf))\<rparr>) s'"
proof -
  note well = assms(5) [unfolded sends_well_def]
  note hdr = set_header_eq [OF assms(1), of "send_type c" "reply_id c"]
  let ?s1 = "s\<lparr>buf_heap := (buf_heap s)(b := Some (with_header (send_type c) (reply_id c) d buf))\<rparr>"
  let ?out = "wire_packet (send_type c) (reply_id c) d buf"
  have pk: "packet d ?s1 = Some ?out" by (rule packet_with_header [OF hdr(2)])
  obtain r s2 where s2: "send_loop os (socket c) ?out ?s1 = Some (r, s2)"
    using send_loop_returns well by blast
  have r: "r = 0" by (rule send_loop_no_error [OF s2]) (use well in blast)
  have run: "msg_send os conn d s = Some s2"
    using s2 r hdr(1) pk assms(2,3) by (simp add: msg_send_def send_data_def send_all_def send_type_def [symmetric])
  have "only_io ?s1 s2" using send_loop_prefix [OF s2] by (simp add: sends_prefix_def)
  then have pend: "pending s2 = pending s" using only_io_fields(2) by (simp add: pending_def)
  from msg_send_clean [OF assms(1-4) run this] run pend show ?thesis by blast
qed

section \<open>A user that answers\<close>

text \<open>A program that answers each request in its callback with the bytes of the request.\<close>

definition answering :: program where
  "answering cb conn ev d s = (if ev = msg_request then [Send conn d] else [])"

text \<open>The call for a request whose body is in buffer \<open>b\<close>.\<close>

definition request_call :: "conn_ptr \<Rightarrow> buf_id \<Rightarrow> bytes \<Rightarrow> PendingCall" where
  "request_call conn b body =
     \<lparr>pc_conn = conn, pc_event = msg_request, pc_data = \<lparr>num_bytes = length body, data_bytes = Some (b, 0)\<rparr>,
      to_free = None\<rparr>"

lemma answer_call:
  assumes "conn_heap s conn = Some c" "protocol_type c = msg_tcp" "reply_id c \<noteq> 0" "sends_well os (socket c)"
    "array_inv (immediate_callbacks s)" "buf_heap s b = Some buf" "b_body buf = body"
  shows "\<exists>s'. make_call (user_of os answering) (request_call conn b body) s = Some s' \<and>
    conn_heap s' = conn_heap s \<and> immediate_callbacks s' = immediate_callbacks s \<and>
    buf_heap s' = (buf_heap s)(b := None) \<and>
    sent_on (socket c) (trace s') = sent_on (socket c) (trace s) @ packet_of msg_type_reply (reply_id c) body"
proof -
  let ?d = "\<lparr>num_bytes = length body, data_bytes = Some (b, 0)\<rparr>"
  let ?t = "s\<lparr>trace := trace s @ [Callback (callback c) conn msg_request ?d]\<rparr>"
  have t: "sendable ?d b buf ?t" "conn_heap ?t conn = Some c" "array_inv (immediate_callbacks ?t)"
    using assms(1,5-7) by (simp_all add: sendable_def)
  from msg_send_well [OF t(1,2) assms(2) t(3) assms(4)] obtain u where
    u: "msg_send os conn ?d ?t = Some u"
      "sent_on (socket c) (trace u) = sent_on (socket c) (trace ?t) @ wire_packet (send_type c) (reply_id c) ?d buf"
      "only_io (?t\<lparr>buf_heap := (buf_heap ?t)(b := Some (with_header (send_type c) (reply_id c) ?d buf))\<rparr>) u"
    by blast
  have "wire_packet (send_type c) (reply_id c) ?d buf = packet_of msg_type_reply (reply_id c) body"
    using assms(3,7) by (simp add: wire_packet_def packet_of_def send_type_def)
  moreover note only_io_fields [OF u(3)]
  ultimately show ?thesis
    using u(1,2) assms(1,2)
    by (simp add: make_call_def request_call_def restore_udp_def save_udp_def user_of_def answering_def
        msg_delete_data_def buffer_of_def free_ptr_def)
qed

fun request_calls :: "conn_ptr \<Rightarrow> buf_id \<Rightarrow> bytes list \<Rightarrow> PendingCall list" where
  "request_calls conn b [] = []"
| "request_calls conn b (body # bodies) = request_call conn b body # request_calls conn (Suc b) bodies"

text \<open>All answers of a run carry the reply id that the connection has when the run begins.\<close>

lemma answer_calls:
  assumes "conn_heap s conn = Some c" "protocol_type c = msg_tcp" "reply_id c \<noteq> 0" "sends_well os (socket c)"
    "array_inv (immediate_callbacks s)"
    "\<forall>k < length bodies. \<exists>buf. buf_heap s (b + k) = Some buf \<and> b_body buf = bodies ! k"
  shows "\<exists>s'. run_calls (user_of os answering) (request_calls conn b bodies) s = Some s' \<and>
    sent_on (socket c) (trace s') = sent_on (socket c) (trace s) @ concat (map (packet_of msg_type_reply (reply_id c)) bodies)"
  using assms(1,5,6)
proof (induction bodies arbitrary: s b)
  case (Cons body bodies)
  from Cons.prems(3) obtain buf where buf: "buf_heap s b = Some buf" "b_body buf = body" by force
  from answer_call [OF Cons.prems(1) assms(2-4) Cons.prems(2) buf] obtain s1 where
    s1: "make_call (user_of os answering) (request_call conn b body) s = Some s1"
      "conn_heap s1 = conn_heap s" "immediate_callbacks s1 = immediate_callbacks s"
      "buf_heap s1 = (buf_heap s)(b := None)"
      "sent_on (socket c) (trace s1) = sent_on (socket c) (trace s) @ packet_of msg_type_reply (reply_id c) body" by blast
  have "\<exists>buf. buf_heap s1 (Suc b + k) = Some buf \<and> b_body buf = bodies ! k" if "k < length bodies" for k
    using that Cons.prems(3) [rule_format, of "Suc k"] s1(4) by simp
  with Cons.IH [of s1 "Suc b"] s1 Cons.prems(1,2) show ?case by auto
qed simp

lemma announce_requests:
  "list_all (\<lambda>m. wm_type m = msg_type_request) ms \<Longrightarrow>
     announcements conn b ms = request_calls conn b (map wm_body ms)"
  by (induction ms arbitrary: b) (auto simp: event_of_type_def msg_type_defs request_call_def)

section \<open>Requests that arrive together\<close>

lemma burst_answered:
  assumes "conns_ok s" "array_list (removals s) = []" "idle_peer conn sock p s" "pending s = []"
    "i < length (conn_list s)" "conn_list s ! i = conn" "one_readable os i ms s"
    "stream_waits os sock (Suc (clock s)) msgs" "list_all (\<lambda>m. wm_pieces m = [] \<and> wm_type m = msg_type_request) msgs"
    "os_recv os (clock s + 4 * length msgs + 1) sock header_len True = Err EWOULDBLOCK"
    "\<forall>x \<in> set (timeout_list s). os_time os (clock s + 4 * length msgs + 2) < t_at x"
    "sends_well os sock" "msgs \<noteq> []" "wm_id (last msgs) \<noteq> 0"
  shows "\<exists>s'. msg_runloop os (user_of os answering) ms s = Some s' \<and>
    sent_on sock (trace s') = sent_on sock (trace s) @
      concat (map (\<lambda>m. packet_of msg_type_reply (wm_id (last msgs)) (wm_body m)) msgs)"
proof -
  have h: "one_readable os i (if pending s = [] then ms else 0) s" "list_all (\<lambda>m. wm_pieces m = []) msgs"
    "list_all (\<lambda>m. wm_type m = msg_type_request) msgs"
    using assms(4,7,9) by (simp_all add: list_all_iff)
  from turn_run [OF assms(1-3,5,6) h(1) assms(8) h(2) assms(10,11)] assms(13) obtain t where
    t: "\<forall>user. msg_runloop os user ms s = run_pending user t" "lib_ok t"
      "pending t = pending s @ announcements conn (next_id s) msgs"
      "\<forall>k < length msgs. \<exists>buf. buf_heap t (next_id s + k) = Some buf \<and> b_body buf = wm_body (msgs ! k)"
      "idle_peer conn sock p t" "\<forall>k. sent_on k (trace t) = sent_on k (trace s)"
      "map_option reply_id (conn_heap t conn) = Some (wm_answer (last msgs))" by metis
  from t(5) obtain c where c: "tcp_peer conn c p t" "socket c = sock" by (rule idle_peerE)
  have "wm_type (last msgs) = msg_type_request"
    using h(3) assms(13) by (simp add: list_all_iff)
  then have rid: "reply_id c = wm_id (last msgs)"
    using t(7) c(1) by (simp add: wm_answer_def tcp_peer_def msg_type_defs)
  let ?t = "t\<lparr>immediate_callbacks := array__new 16\<rparr>"
  have "conn_heap ?t conn = Some c" "protocol_type c = msg_tcp" "reply_id c \<noteq> 0" "sends_well os (socket c)"
    "array_inv (immediate_callbacks ?t)"
    "\<forall>k < length (map wm_body msgs). \<exists>buf. buf_heap ?t (next_id s + k) = Some buf \<and> b_body buf = map wm_body msgs ! k"
    using c rid assms(12,14) t(4) by (simp_all add: tcp_peer_def array_invs)
  from answer_calls [OF this] obtain s' where
    "run_calls (user_of os answering) (request_calls conn (next_id s) (map wm_body msgs)) ?t = Some s'"
    "sent_on sock (trace s') = sent_on sock (trace t) @ concat (map (packet_of msg_type_reply (wm_id (last msgs))) (map wm_body msgs))"
    unfolding rid c(2) by auto
  moreover have "pending t = request_calls conn (next_id s) (map wm_body msgs)"
    using t(3) assms(4) announce_requests [OF h(3)] by simp
  ultimately show ?thesis
    using t(1,6) run_pending_eq [OF lib_okD(1) [OF t(2)]] by (simp add: comp_def)
qed

text \<open>
  C5. Requests that one turn of the run loop reads from a tcp connection are all answered with the id
  of the last of them: the turn returns, every callback runs and its \<open>msg_send\<close> writes a complete reply
  with the bytes given, but the id is the one that reading the last request left in the connection. A
  request that arrives alone is answered with its own id; of several, only the last gets a reply that
  its sender can match.
\<close>

theorem burst_answers:
  assumes "conns_ok s" "array_list (removals s) = []" "idle_peer conn sock p s" "pending s = []"
    "i < length (conn_list s)" "conn_list s ! i = conn" "one_readable os i ms s"
    "stream_waits os sock (Suc (clock s)) msgs" "list_all (\<lambda>m. wm_pieces m = [] \<and> wm_type m = msg_type_request) msgs"
    "os_recv os (clock s + 4 * length msgs + 1) sock header_len True = Err EWOULDBLOCK"
    "\<forall>x \<in> set (timeout_list s). os_time os (clock s + 4 * length msgs + 2) < t_at x"
    "sends_well os sock" "msgs \<noteq> []" "wm_id (last msgs) \<noteq> 0"
  shows "\<exists>s'. msg_runloop os (user_of os answering) ms s = Some s' \<and>
    sent_on sock (trace s') = sent_on sock (trace s) @
      concat (map (\<lambda>m. packet_of msg_type_reply (wm_id (last msgs)) (wm_body m)) msgs)"
  using assms by (rule burst_answered)

text \<open>The witness: requests 7 and 8 wait together, and both answers carry the id 8.\<close>

definition pair_wire :: "wire_msg list" where
  "pair_wire = [\<lparr>wm_type = msg_type_request, wm_id = 7, wm_pieces = [], wm_last = [104, 105]\<rparr>,
     \<lparr>wm_type = msg_type_request, wm_id = 8, wm_pieces = [], wm_last = [104, 106]\<rparr>]"

definition pair_os :: os where
  "pair_os = sample_os\<lparr>os_poll := \<lambda>_ _ _. Ok (1, [POLLIN]), os_recv := \<lambda>t _ _ _.
     if t \<in> {2, 3} then Ok (header_bytes (network_header msg_type_request 7 2))
     else if t \<in> {6, 7} then Ok (header_bytes (network_header msg_type_request 8 2))
     else if t = 5 then Ok [104, 105] else if t = 9 then Ok [104, 106] else Err EWOULDBLOCK\<rparr>"

lemma sample_sends_well: "sends_well sample_os sock" "sends_well pair_os sock"
  by (auto simp: sends_well_def send_accepts_def send_progress_def send_stalls_def pair_os_def)

lemma pair_waits: "stream_waits pair_os 3 2 pair_wire"
  by (simp add: pair_wire_def pair_os_def header_waits_def wm_ok_def wm_body_def wm_reads_def
      event_of_type_def msg_type_defs)

text \<open>The idle connection of the examples with no callback pending.\<close>

lemma sample_quiet:
  obtains r where "idle_peer 1 3 2 r" "conns_ok r" "conn_list r = [1]" "length (pollfd_list r) = 1"
    "timeout_list r = []" "array_list (removals r) = []" "clock r = 1" "next_id r = 4" "pending r = []"
    "conn_heap r = [1 \<mapsto> sample_conn]" "map_lookup (conn_status r) (address_of_conn sample_conn) = Some 2"
    "status_heap r = [2 \<mapsto> fresh_status sample_conn]" "\<forall>x. reply_lookup r 2 x = None"
    "buf_heap r 3 \<noteq> None"
proof -
  obtain r where r: "idle_peer 1 3 2 r" "conns_ok r" "conn_list r = [1]" "length (pollfd_list r) = 1"
    "timeout_list r = []" "array_list (removals r) = []" "clock r = 1" "next_id r = 4"
    "conn_heap r = [1 \<mapsto> sample_conn]" "map_lookup (conn_status r) (address_of_conn sample_conn) = Some 2"
    "status_heap r = [2 \<mapsto> fresh_status sample_conn]" "\<forall>x. reply_lookup r 2 x = None"
    "buf_heap r 3 \<noteq> None" by (rule sample_idle)
  let ?r = "r\<lparr>immediate_callbacks := array__new 16\<rparr>"
  have "idle_peer 1 3 2 ?r" using r(1) by (simp add: idle_peer_def tcp_peer_def array_invs)
  moreover have "conns_ok ?r" using r(2) by (simp add: conns_ok_def conn_list_def pollfd_list_def)
  moreover have "conn_list ?r = conn_list r" "pollfd_list ?r = pollfd_list r" "timeout_list ?r = timeout_list r"
    "pending ?r = []" "reply_lookup ?r 2 x = reply_lookup r 2 x" for x
    by (simp_all add: conn_list_def pollfd_list_def timeout_list_def pending_def reply_lookup_def array_simps)
  ultimately show thesis using r by (intro that [of ?r]) simp_all
qed

theorem burst_answers_witness:
  "\<exists>r r'. msg_runloop pair_os (user_of pair_os answering) 10 r = Some r' \<and>
    sent_on 3 (trace r') = sent_on 3 (trace r) @
      packet_of msg_type_reply 8 [104, 105] @ packet_of msg_type_reply 8 [104, 106]"
proof -
  obtain r where r: "idle_peer 1 3 2 r" "conns_ok r" "conn_list r = [1]" "length (pollfd_list r) = 1"
    "timeout_list r = []" "array_list (removals r) = []" "clock r = 1" "pending r = []"
    by (rule sample_quiet)
  have "0 < length (conn_list r)" "conn_list r ! 0 = 1" unfolding r(3) by simp_all
  moreover have "one_readable pair_os 0 10 r"
    unfolding one_readable_def r(4,7) by (simp add: pair_os_def)
  moreover have "stream_waits pair_os 3 (Suc (clock r)) pair_wire"
    "list_all (\<lambda>m. wm_pieces m = [] \<and> wm_type m = msg_type_request) pair_wire"
    using pair_waits r(7) by (simp_all add: pair_wire_def numeral_2_eq_2)
  moreover have "os_recv pair_os (clock r + 4 * length pair_wire + 1) 3 header_len True = Err EWOULDBLOCK"
    unfolding r(7) by (simp add: pair_os_def pair_wire_def)
  moreover have "\<forall>x \<in> set (timeout_list r). os_time pair_os (clock r + 4 * length pair_wire + 2) < t_at x"
    unfolding r(5) by simp
  moreover have "pair_wire \<noteq> []" "wm_id (last pair_wire) \<noteq> 0" by (simp_all add: pair_wire_def)
  ultimately obtain r' where "msg_runloop pair_os (user_of pair_os answering) 10 r = Some r'"
    "sent_on 3 (trace r') = sent_on 3 (trace r) @
      concat (map (\<lambda>m. packet_of msg_type_reply (wm_id (last pair_wire)) (wm_body m)) pair_wire)"
    using burst_answers [OF r(2,6,1,8)] sample_sends_well(2) by blast
  then show ?thesis by (auto simp: pair_wire_def wm_body_def)
qed

end
