(* ===== verification/Closing.thy ===== *)
theory Closing
  imports Removals
begin

text \<open>
  Connections that end at a bad moment, and messages that the reading side mistakes for an end: what
  becomes of a request whose connection closes, of an empty tcp message and of a datagram that is
  shorter than a header.
\<close>

section \<open>A connection that closes while a request waits\<close>

lemma msg_get_conn_status:
  assumes "msg_get os conn d ctx s = Some s'"
  shows "conn_status s' = conn_status s"
  using assms by (auto simp: msg_get_def run_iffs add_timeout_def now_def reply_context_set_def
     set_header_def update_status_def update_buffer_def send_callback_error_eq send_callback_os_error_eq error_state_def
     dest!: send_data_io [THEN only_io_fields(7)] split: prod.splits)

text \<open>\<open>local_disconnect\<close> deletes the reply contexts of the status, and leaves the timeouts.\<close>

lemma dropped_status:
  assumes "local_disconnect os conn ev s = Some s'" "status_ok s" "conn_heap s conn = Some c"
    "map_lookup (conn_status s) (address_of_conn c) = Some p" "status_heap s p = Some st"
  shows "status_heap s' p = Some (st\<lparr>reply_contexts := None\<rparr>)" "timeouts s' = timeouts s"
proof -
  from conn_status_unset_facts [OF assms(2), of "address_of_conn c"] assms(4,5) obtain m f where
    m: "conn_status_unset (address_of_conn c) s = Some (s\<lparr>conn_status := m, status_heap := f\<rparr>)"
    "f p = Some (st\<lparr>reply_contexts := None\<rparr>)" by auto
  with assms(1,3) show "status_heap s' p = Some (st\<lparr>reply_contexts := None\<rparr>)" "timeouts s' = timeouts s"
    by (auto simp: local_disconnect_def run_iffs closesocket_def syscall_def split: if_splits sysret.splits)
qed

lemma expire_dropped:
  assumes "array_inv (timeouts s)" "timeout_list s = t # ts" "status_heap s (t_status t) = Some st"
    "reply_contexts st = None" "t_at t \<le> time_now"
  shows "expire_timeouts os time_now s = None"
proof -
  have "0 < a_count (timeouts s)" using length_array_list [OF assms(1)] assms(2) by (simp add: timeout_list_def)
  moreover have "array__item_val (timeouts s) 0 = Some t"
    using array_item_val [OF assms(1) calculation] assms(2) by (simp add: timeout_list_def)
  ultimately show ?thesis
    using assms(3-5) by (subst expire_timeouts.simps) (simp add: expire_first_def reply_context_get_def)
qed

lemma get_then_close:
  assumes "lib_ok s" "conn_heap s conn = Some c" "map_lookup (conn_status s) (address_of_conn c) = Some p"
    "status_heap s p = Some st" "sendable d b buf s" "send_accepts os (socket c)" "send_progress os (socket c)"
    "timeout_list s = []" "msg_get os conn d ctx s = Some s1" "pending s1 = pending s"
    "local_disconnect os conn ev s1 = Some s2"
  shows "\<exists>t. timeout_list s2 = [t] \<and> t_conn t = conn \<and> (\<forall>time_now \<ge> t_at t. expire_timeouts os time_now s2 = None)"
proof -
  from msg_get_facts [OF assms(1-4) refl assms(5-7), of ctx] assms(9,10) obtain t st1 where
    g: "conn_heap s1 = conn_heap s" "status_heap s1 p = Some st1"
      "timeout_list s1 = timeout_list s @ [make_timeout (t + 1000000) conn p (next_reply_id st)]" by auto
  have ok: "lib_ok s1" by (rule msg_get_keeps [OF assms(9,1)])
  have "map_lookup (conn_status s1) (address_of_conn c) = Some p" "conn_heap s1 conn = Some c"
    using assms(2,3) g(1) msg_get_conn_status [OF assms(9)] by simp_all
  from dropped_status [OF assms(11) lib_okD(7) [OF ok] this(2,1) g(2)] have
    s2: "status_heap s2 p = Some (st1\<lparr>reply_contexts := None\<rparr>)" "timeouts s2 = timeouts s1" .
  let ?t = "make_timeout (t + 1000000) conn p (next_reply_id st)"
  have tl: "timeout_list s2 = [?t]" "array_inv (timeouts s2)"
    using g(3) assms(8) s2(2) lib_okD(5) [OF ok] by (simp_all add: timeout_list_def)
  have "expire_timeouts os time_now s2 = None" if "t_at ?t \<le> time_now" for time_now
    by (rule expire_dropped [OF tl(2,1) _ _ that, of "st1\<lparr>reply_contexts := None\<rparr>"])
      (simp_all add: make_timeout_def s2(1))
  with tl(1) show ?thesis by (intro exI [of _ ?t]) (simp add: make_timeout_def)
qed

lemma sample_os_sendto [simp]: "os_sendto sample_os = (\<lambda>_ _ out _. Ok (length out))"
  by (simp add: sample_os_def)

lemma sample_send_data:
  "send_data sample_os conn d s = Some (r, s') \<Longrightarrow> r = None \<and> immediate_callbacks s' = immediate_callbacks s"
  using send_data_io [of sample_os conn d s r s', THEN only_io_fields(2)]
  by (cases "packet d s = Some []")
    (auto simp: send_data_def send_all_def run_iffs sample_send_loop send_loop.simps [of _ _ "[]"] sys_sendto_def sys_send_def syscall_def
      split: if_splits prod.splits sysret.splits)

lemma msg_get_no_callback:
  assumes "msg_get sample_os conn d ctx s = Some s1" "status_of_conn conn s = Some (Some p)"
  shows "pending s1 = pending s"
  using assms by (auto simp: msg_get_def run_iffs add_timeout_def now_def reply_context_set_def pending_def
      set_header_def update_status_def update_buffer_def
      dest!: sample_send_data)

text \<open>
  C15. A connection that closes while a request waits leaves its timeout behind: when a request has
  been sent and the connection is then dropped, for whatever reason, the request's timeout is still
  in the list, although the map of reply contexts of its status is deleted, and the timeout pass has
  no defined behaviour from the moment on when it is due.
\<close>

theorem close_while_waiting:
  assumes "lib_ok s" "conn_heap s conn = Some c" "map_lookup (conn_status s) (address_of_conn c) = Some p"
    "status_heap s p = Some st" "sendable d b buf s" "send_accepts os (socket c)" "send_progress os (socket c)"
    "timeout_list s = []" "msg_get os conn d ctx s = Some s1" "pending s1 = pending s"
    "local_disconnect os conn ev s1 = Some s2"
  shows "\<exists>t. timeout_list s2 = [t] \<and> t_conn t = conn \<and> (\<forall>time_now \<ge> t_at t. expire_timeouts os time_now s2 = None)"
  using assms by (rule get_then_close)

theorem close_while_waiting_witness:
  "\<exists>s s1 s2 t. msg_get sample_os 1 empty_data 9 s = Some s1 \<and>
    local_disconnect sample_os 1 msg_connection_lost s1 = Some s2 \<and> timeout_list s2 = [t] \<and>
    expire_timeouts sample_os (t_at t) s2 = None"
proof -
  obtain s buf where s: "lib_ok s" "conns_ok s" "conn_heap s = [1 \<mapsto> sample_conn]"
    "map_lookup (conn_status s) (address_of_conn sample_conn) = Some 2"
    "status_heap s = [2 \<mapsto> fresh_status sample_conn]" "sendable empty_data 3 buf s" "timeout_list s = []"
    by (rule sample_known)
  have c: "conn_heap s 1 = Some sample_conn" and st: "status_heap s 2 = Some (fresh_status sample_conn)"
    using s(3,5) by simp_all
  have sends: "send_accepts sample_os (socket sample_conn)" "send_progress sample_os (socket sample_conn)"
    by (rule sample_sends)+
  from msg_get_facts [OF s(1) c s(4) st refl s(6) sends, of 9] obtain s1 where
    s1: "msg_get sample_os 1 empty_data 9 s = Some s1" "conn_heap s1 = conn_heap s" by blast
  have quiet: "pending s1 = pending s"
    by (rule msg_get_no_callback [OF s1(1)]) (use status_of_conn_eq [OF lib_okD(7) [OF s(1)] c] s(4) in simp)
  have "lib_ok s1" by (rule msg_get_keeps [OF s1(1) s(1)])
  moreover have "conn_heap s1 1 = Some sample_conn" using s1(2) c by simp
  ultimately obtain s2 where s2: "local_disconnect sample_os 1 msg_connection_lost s1 = Some s2"
    using local_disconnect_facts by blast
  from close_while_waiting [OF s(1) c s(4) st s(6) sends s(7) s1(1) quiet s2] obtain t where
    "timeout_list s2 = [t]" "expire_timeouts sample_os (t_at t) s2 = None" by auto
  with s1(1) s2 show ?thesis by blast
qed

section \<open>Messages that are taken for an end\<close>

text \<open>
  For a tcp message without a body the code calls \<open>recv\<close> for 0 bytes and takes the 0 that it returns
  for the end of the connection.
\<close>

lemma empty_message_disconnects:
  assumes "conn_heap s conn = Some c" "status_heap s p = Some st" "num_bytes (waiting_buffer st) = 0"
    "os_recv os (clock s) (socket c) 0 False = Ok []" "continue_recv os conn p s = Some (r, s')"
  shows "r = - 2 \<and> local_disconnect os conn msg_connection_lost
    (s\<lparr>clock := clock s + 1, trace := trace s @ [Sys_recv (socket c) 0 False]\<rparr>) = Some s'"
  using assms by (auto simp: continue_recv_def sys_recv_def syscall_def Let_def)

text \<open>
  A datagram that is shorter than a header is looked at and left where it is, so that the next look
  finds it again: all that changes is the record of the call.
\<close>

lemma short_datagram_stays:
  assumes "conn_heap s conn = Some c" "protocol_type c = msg_udp"
    "os_recv os (clock s) sock header_len True = Ok bs" "bs \<noteq> []" "length bs < header_len"
  shows "read_from_socket os sock conn s =
    Some (False, s\<lparr>clock := clock s + 1, trace := trace s @ [Sys_recv sock header_len True]\<rparr>)"
  using assms by (simp add: read_from_socket_def read_header_def sys_recv_def syscall_def Let_def)

end
