(* ===== verification/Exchange.thy ===== *)
theory Exchange
  imports Answers Closing
begin

text \<open>
  A request and its reply between two programs that use the library: from \<open>msg_get\<close> on one side, through
  a turn of the run loop on the other, back to the callback of the first.
\<close>

section \<open>The request is written\<close>

lemma msg_get_well:
  assumes "lib_ok s" "conn_heap s conn = Some c" "protocol_type c = msg_tcp" "\<not> for_listening c"
    "map_lookup (conn_status s) (address_of_conn c) = Some p" "status_heap s p = Some st" "rid = next_reply_id st"
    "num_bytes (waiting_buffer st) = 0" "sendable d b buf s" "sends_well os (socket c)"
  shows "\<exists>s1 st1 t. msg_get os conn d ctx s = Some s1 \<and> tcp_peer conn c p s1 \<and>
    sent_on (socket c) (trace s1) = sent_on (socket c) (trace s) @
      packet_of msg_type_request rid (take (num_bytes d) (b_body buf)) \<and>
    live_status s1 p \<and> reply_lookup s1 p = (reply_lookup s p)(rid \<mapsto> ctx) \<and> pending s1 = pending s \<and>
    timeout_list s1 = timeout_list s @ [make_timeout t conn p rid] \<and>
    status_heap s1 p = Some st1 \<and> num_bytes (waiting_buffer st1) = 0"
proof -
  note ok = lib_okD [OF assms(1)] and well = assms(10) [unfolded sends_well_def]
  obtain r f s2 where
    s2: "send_data os conn d (s\<lparr>status_heap := f,
       buf_heap := (buf_heap s)(b := Some (with_header msg_type_request rid d buf))\<rparr>) = Some (r, s2)"
    "msg_get os conn d ctx s =
      (case r of Some g \<Rightarrow> send_callback_os_error os conn g None s2 | None \<Rightarrow> Some (add_timeout os conn p rid s2))"
    "\<forall>s'. status_heap s' = f \<longrightarrow> live_status s' p \<and> reply_lookup s' p = (reply_lookup s p)(rid \<mapsto> ctx) \<and>
      (\<exists>st'. status_heap s' p = Some st' \<and> next_reply_id st' = rid + 1 \<and> waiting_buffer st' = waiting_buffer st)"
    by (rule msg_get_run [OF assms(1,2,5-7,9)]) (use well in blast)+
  let ?s1 = "s\<lparr>status_heap := f, buf_heap := (buf_heap s)(b := Some (with_header msg_type_request rid d buf))\<rparr>"
  let ?out = "wire_packet msg_type_request rid d buf"
  have "sendable d b (with_header msg_type_request rid d buf) ?s1"
    using assms(9) by (simp add: sendable_def with_header_def)
  from packet_with_header [OF this] have "packet d ?s1 = Some ?out" .
  then obtain k where k: "send_loop os (socket c) ?out ?s1 = Some (k, s2)" "r = (if k \<noteq> 0 then Some ''send'' else None)"
    using s2(1) assms(2,3) by (auto simp: send_data_def send_all_def)
  have "k = 0" by (rule send_loop_no_error [OF k(1)]) (use well in blast)
  then have get: "msg_get os conn d ctx s = Some (add_timeout os conn p rid s2)" (is "_ = Some ?s3")
    using s2(2) k(2) by simp
  have sent: "sent_on (socket c) (trace s2) = sent_on (socket c) (trace s) @ ?out"
    using send_loop_prefix [OF k(1)] \<open>k = 0\<close> by (auto simp: sends_prefix_def)
  note io = only_io_fields [OF send_data_io [OF s2(1)]]
  have f: "status_heap ?s3 = f" using io by (simp add: add_timeout_def now_def)
  have inv: "array_inv (timeouts s2)" using io(6) ok(5) by simp
  have "timeout_list ?s3 = timeout_list s @ [make_timeout (os_time os (clock s2) + 1000000) conn p rid]"
    "pending ?s3 = pending s" "conn_heap ?s3 = conn_heap s"
    "sent_on (socket c) (trace ?s3) = sent_on (socket c) (trace s2)"
    using io inv by (simp_all add: add_timeout_def now_def udp_timeout_sec_def timeout_list_def pending_def array_simps)
  moreover have "tcp_peer conn c p ?s3"
    using msg_get_keeps [OF get assms(1)] msg_get_conn_status [OF get] calculation(3) assms(2-5)
    by (simp add: tcp_peer_def)
  ultimately show ?thesis
    using get sent s2(3) [rule_format, OF f] assms(8) wire_packet_of [OF assms(9)] by auto
qed

section \<open>The reply is read\<close>

lemma only_reads_lookup:
  assumes "only_reads s s'"
  shows "live_status s' p = live_status s p" "reply_lookup s' p r = reply_lookup s p r"
    "timeout_list s' = timeout_list s"
proof -
  have "map_option reply_contexts (status_heap s' p) = map_option reply_contexts (status_heap s p)"
    and t: "timeouts s' = timeouts s"
    using assms by (simp_all add: only_reads_def)
  then show "live_status s' p = live_status s p" "reply_lookup s' p r = reply_lookup s p r"
    by (cases "status_heap s' p"; cases "status_heap s p"; simp add: live_status_def reply_lookup_def)+
  show "timeout_list s' = timeout_list s" by (simp add: timeout_list_def t)
qed

lemma dispatch_reply:
  assumes "tcp_peer conn c p s" "message_type h = msg_type_reply" "live_status s p"
    "reply_lookup s p (hdr_reply_id h) = Some v"
  shows "\<exists>s'. dispatch os sock conn h (Some (p, d)) s = Some (True, s') \<and>
    pending s' = pending s @ [\<lparr>pc_conn = conn, pc_event = msg_reply, pc_data = d, to_free = None\<rparr>] \<and>
    conn_heap s' conn = Some (c\<lparr>reply_context := v, reply_id := 0\<rparr>) \<and>
    reply_lookup s' p = (reply_lookup s p)(hdr_reply_id h := None) \<and>
    timeout_list s' = remove_first_match (\<lambda>t. t_status t = p \<and> t_reply_id t = hdr_reply_id h) (timeout_list s) \<and>
    buf_heap s' = buf_heap s"
proof -
  have c: "conn_heap s conn = Some c" "lib_ok s" "protocol_type c = msg_tcp"
    using assms(1) by (simp_all add: tcp_peer_def)
  from match_reply_known [OF assms(2-4) lib_okD(5) [OF c(2)] c(1), of os d] obtain s1 where
    s1: "match_reply os conn h p d False s = Some (True, s1)"
      "conn_heap s1 conn = Some (c\<lparr>reply_context := v, reply_id := 0\<rparr>)"
      "reply_lookup s1 p = (reply_lookup s p)(hdr_reply_id h := None)"
      "timeout_list s1 = remove_first_match (\<lambda>t. t_status t = p \<and> t_reply_id t = hdr_reply_id h) (timeout_list s)"
      "pending s1 = pending s" "buf_heap s1 = buf_heap s" by blast
  have "dispatch os sock conn h (Some (p, d)) s = Some (True, send_callback conn msg_reply d None s1)"
    using s1(1) c(1,3) assms(2) by (simp add: dispatch_def event_of_type_def msg_type_defs)
  moreover have "array_inv (immediate_callbacks s1)"
    using match_reply_keeps [OF s1(1) c(2)] by (rule lib_okD)
  ultimately show ?thesis
    using s1(2-6) by (auto simp: send_callback_pending timeout_list_def reply_lookup_def fun_eq_iff)
qed

text \<open>The bytes of one message wait at a socket, in any pieces.\<close>

definition wire_waits :: "os \<Rightarrow> int \<Rightarrow> nat \<Rightarrow> wire_msg \<Rightarrow> bool" where
  "wire_waits os sock t m \<longleftrightarrow> 0 < length (wm_body m) \<and> length (wm_body m) < 2 ^ 32 \<and>
     header_waits os sock t (network_header (wm_type m) (wm_id m) (of_nat (length (wm_body m)))) \<and>
     delivers os sock (t + 3) (length (wm_body m)) (wm_pieces m @ [Ok (wm_last m)])"

lemma reply_received:
  assumes "tcp_peer conn c p s" "status_heap s p = Some st" "num_bytes (waiting_buffer st) = 0"
    "wire_waits os (socket c) (clock s) m" "wm_type m = msg_type_reply" "live_status s p"
    "reply_lookup s p (wm_id m) = Some v"
  shows "\<exists>s' buf. read_times os (socket c) conn (wm_reads m) s = Some s' \<and>
    pending s' = pending s @ [\<lparr>pc_conn = conn, pc_event = msg_reply,
      pc_data = \<lparr>num_bytes = length (wm_body m), data_bytes = Some (next_id s, 0)\<rparr>, to_free = None\<rparr>] \<and>
    buf_heap s' (next_id s) = Some buf \<and> b_body buf = wm_body m \<and>
    map_option reply_context (conn_heap s' conn) = Some v \<and> map_option reply_id (conn_heap s' conn) = Some 0 \<and>
    reply_lookup s' p = (reply_lookup s p)(wm_id m := None) \<and>
    timeout_list s' = remove_first_match (\<lambda>t. t_status t = p \<and> t_reply_id t = wm_id m) (timeout_list s)"
proof -
  let ?d = "\<lparr>num_bytes = length (wm_body m), data_bytes = Some (next_id s, 0)\<rparr>"
  define h where "h = \<lparr>message_type = msg_type_reply, hdr_reply_id = wm_id m, hdr_num_bytes = of_nat (length (wm_body m))\<rparr>"
  have w: "header_waits os (socket c) (clock s) (network_header msg_type_reply (wm_id m) (of_nat (length (wm_body m))))"
    "0 < length (wm_body m)" "length (wm_body m) < 2 ^ 32" "msg_type_reply \<noteq> msg_type_close"
    "delivers os (socket c) (clock s + 3) (length (wm_body m)) (wm_pieces m @ [Ok (wm_last m)])"
    "payload (wm_pieces m) @ wm_last m = wm_body m"
    using assms(4,5) by (auto simp: wire_waits_def wm_body_def msg_type_defs)
  from tcp_message_gathers [OF assms(1-3) w h_def] obtain s1 s2 buf where
    g: "read_partial os (socket c) conn (length (wm_pieces m)) s = Some s1"
      "read_from_socket os (socket c) conn s1 = dispatch os (socket c) conn h (Some (p, ?d)) s2"
      "tcp_peer conn (c\<lparr>reply_id := wm_id m\<rparr>) p s2" "pending s2 = pending s"
      "buf_heap s2 (next_id s) = Some buf" "b_body buf = wm_body m" "only_reads s s2" by blast
  note same = only_reads_lookup [OF g(7)]
  have "message_type h = msg_type_reply" "live_status s2 p" "reply_lookup s2 p (hdr_reply_id h) = Some v"
    using assms(6,7) by (simp_all add: h_def same)
  from dispatch_reply [OF g(3) this, of os "socket c" ?d] obtain s' where
    s': "dispatch os (socket c) conn h (Some (p, ?d)) s2 = Some (True, s')"
      "pending s' = pending s2 @ [\<lparr>pc_conn = conn, pc_event = msg_reply, pc_data = ?d, to_free = None\<rparr>]"
      "conn_heap s' conn = Some (c\<lparr>reply_id := wm_id m, reply_context := v, reply_id := 0\<rparr>)"
      "reply_lookup s' p = (reply_lookup s2 p)(hdr_reply_id h := None)"
      "timeout_list s' = remove_first_match (\<lambda>t. t_status t = p \<and> t_reply_id t = hdr_reply_id h) (timeout_list s2)"
      "buf_heap s' = buf_heap s2" by blast
  have "read_times os (socket c) conn (wm_reads m) s = Some s'"
    unfolding wm_reads_def by (rule read_times_last [OF read_times_partial [OF g(1)]]) (simp add: g(2) s'(1))
  moreover have "reply_lookup s2 p = reply_lookup s p" by (intro ext same(2))
  ultimately show ?thesis using s' g(4-6) same(3) by (simp add: h_def)
qed

section \<open>There and back\<close>

lemma remove_last_match:
  "\<forall>x \<in> set xs. \<not> P x \<Longrightarrow> P y \<Longrightarrow> remove_first_match P (xs @ [y]) = xs"
  by (induction xs) auto

text \<open>A connection on which the user may ask: idle, with a fresh id that is not 0.\<close>

definition can_ask :: "conn_ptr \<Rightarrow> msg_Conn \<Rightarrow> status_ptr \<Rightarrow> u16 \<Rightarrow> mbox \<Rightarrow> bool" where
  "can_ask conn c p rid s \<longleftrightarrow> tcp_peer conn c p s \<and> rid \<noteq> 0 \<and> reply_lookup s p rid = None \<and>
     (\<forall>t \<in> set (timeout_list s). (t_status t, t_reply_id t) \<noteq> (p, rid)) \<and>
     (\<exists>st. status_heap s p = Some st \<and> next_reply_id st = rid \<and> num_bytes (waiting_buffer st) = 0)"

text \<open>A library whose next turn finds one complete message, on its connection at index \<open>i\<close>.\<close>

definition one_waits :: "os \<Rightarrow> conn_ptr \<Rightarrow> int \<Rightarrow> nat \<Rightarrow> int \<Rightarrow> wire_msg \<Rightarrow> mbox \<Rightarrow> bool" where
  "one_waits os conn sock i ms m q \<longleftrightarrow> conns_ok q \<and> array_list (removals q) = [] \<and>
     (\<exists>p. idle_peer conn sock p q) \<and> pending q = [] \<and> i < length (conn_list q) \<and> conn_list q ! i = conn \<and>
     one_readable os i ms q \<and> stream_waits os sock (Suc (clock q)) [m] \<and> wm_pieces m = [] \<and>
     os_recv os (clock q + 5) sock header_len True = Err EWOULDBLOCK \<and>
     (\<forall>x \<in> set (timeout_list q). os_time os (clock q + 6) < t_at x)"

lemma one_answered:
  assumes "one_waits os conn sock i ms m q" "wm_type m = msg_type_request" "wm_id m \<noteq> 0" "sends_well os sock"
  shows "\<exists>q'. msg_runloop os (user_of os answering) ms q = Some q' \<and>
    sent_on sock (trace q') = sent_on sock (trace q) @ packet_of msg_type_reply (wm_id m) (wm_body m)"
proof -
  from assms(1) obtain p where q: "conns_ok q" "array_list (removals q) = []" "idle_peer conn sock p q" "pending q = []"
    "i < length (conn_list q)" "conn_list q ! i = conn" "one_readable os i ms q"
    "stream_waits os sock (Suc (clock q)) [m]" "wm_pieces m = []"
    "os_recv os (clock q + 5) sock header_len True = Err EWOULDBLOCK"
    "\<forall>x \<in> set (timeout_list q). os_time os (clock q + 6) < t_at x"
    by (auto simp: one_waits_def)
  have "list_all (\<lambda>m. wm_pieces m = [] \<and> wm_type m = msg_type_request) [m]"
    "os_recv os (clock q + 4 * length [m] + 1) sock header_len True = Err EWOULDBLOCK"
    "\<forall>x \<in> set (timeout_list q). os_time os (clock q + 4 * length [m] + 2) < t_at x"
    "[m] \<noteq> []" "wm_id (last [m]) \<noteq> 0"
    using q(9-11) assms(2,3) by (simp_all add: add.commute)
  from burst_answered [OF q(1-8) this(1-3) assms(4) this(4,5)] show ?thesis by simp
qed

lemma exchange:
  assumes "can_ask conn c p rid s" "sendable d b buf s" "0 < num_bytes d" "num_bytes d < 2 ^ 32"
    "sends_well os (socket c)"
    "s1 = the (msg_get os conn d ctx s)"
    "sent_on (socket c) (trace s1) = sent_on (socket c) (trace s) @ wire_bytes m"
    "one_waits sos sconn ssock i ms m q" "sends_well sos ssock"
    "q1 = the (msg_runloop sos (user_of sos answering) ms q)"
    "sent_on ssock (trace q1) = sent_on ssock (trace q) @ wire_bytes m'"
    "wire_waits os (socket c) (clock s1) m'"
  shows "\<exists>s2 rbuf. msg_get os conn d ctx s = Some s1 \<and>
    msg_runloop sos (user_of sos answering) ms q = Some q1 \<and>
    read_times os (socket c) conn (wm_reads m') s1 = Some s2 \<and>
    pending s2 = pending s @ [\<lparr>pc_conn = conn, pc_event = msg_reply,
      pc_data = \<lparr>num_bytes = num_bytes d, data_bytes = Some (next_id s1, 0)\<rparr>, to_free = None\<rparr>] \<and>
    buf_heap s2 (next_id s1) = Some rbuf \<and> b_body rbuf = take (num_bytes d) (b_body buf) \<and>
    map_option reply_context (conn_heap s2 conn) = Some ctx \<and> map_option reply_id (conn_heap s2 conn) = Some 0 \<and>
    reply_lookup s2 p = reply_lookup s p \<and> timeout_list s2 = timeout_list s"
proof -
  let ?body = "take (num_bytes d) (b_body buf)"
  have len: "length ?body = num_bytes d" "length ?body < 2 ^ 32"
    using assms(2,4) by (simp_all add: sendable_def)
  from assms(1) obtain st where c: "lib_ok s" "conn_heap s conn = Some c" "protocol_type c = msg_tcp" "\<not> for_listening c"
    "map_lookup (conn_status s) (address_of_conn c) = Some p" "status_heap s p = Some st" "rid = next_reply_id st"
    "num_bytes (waiting_buffer st) = 0" "rid \<noteq> 0" "reply_lookup s p rid = None"
    "\<forall>t \<in> set (timeout_list s). (t_status t, t_reply_id t) \<noteq> (p, rid)"
    by (auto simp: can_ask_def tcp_peer_def)
  from msg_get_well [OF c(1-8) assms(2,5), of ctx] assms(6) obtain st1 t where
    g: "msg_get os conn d ctx s = Some s1" "tcp_peer conn c p s1"
      "sent_on (socket c) (trace s1) = sent_on (socket c) (trace s) @ packet_of msg_type_request rid ?body"
      "live_status s1 p" "reply_lookup s1 p = (reply_lookup s p)(rid \<mapsto> ctx)" "pending s1 = pending s"
      "timeout_list s1 = timeout_list s @ [make_timeout t conn p rid]"
      "status_heap s1 p = Some st1" "num_bytes (waiting_buffer st1) = 0" by auto
  have "wire_bytes m @ [] = packet_of msg_type_request rid ?body @ []" using g(3) assms(7) by simp
  moreover have "length (wm_body m) < 2 ^ 32" using assms(8) by (simp add: one_waits_def wm_ok_def)
  ultimately have m: "wm_type m = msg_type_request" "wm_id m = rid" "wm_body m = ?body"
    using packet_parse len(2) by metis+
  from one_answered [OF assms(8) m(1) _ assms(9)] m(2,3) c(9) assms(10) have
    q1: "msg_runloop sos (user_of sos answering) ms q = Some q1"
      "sent_on ssock (trace q1) = sent_on ssock (trace q) @ packet_of msg_type_reply rid ?body" by auto
  have "wire_bytes m' @ [] = packet_of msg_type_reply rid ?body @ []" using q1(2) assms(11) by simp
  moreover have "length (wm_body m') < 2 ^ 32" using assms(12) by (simp add: wire_waits_def)
  ultimately have m': "wm_type m' = msg_type_reply" "wm_id m' = rid" "wm_body m' = ?body"
    using packet_parse len(2) by metis+
  have "reply_lookup s1 p (wm_id m') = Some ctx" using g(5) m'(2) by simp
  from reply_received [OF g(2,8,9) assms(12) m'(1) g(4) this] obtain s2 rbuf where
    s2: "read_times os (socket c) conn (wm_reads m') s1 = Some s2"
      "pending s2 = pending s1 @ [\<lparr>pc_conn = conn, pc_event = msg_reply,
        pc_data = \<lparr>num_bytes = length (wm_body m'), data_bytes = Some (next_id s1, 0)\<rparr>, to_free = None\<rparr>]"
      "buf_heap s2 (next_id s1) = Some rbuf" "b_body rbuf = wm_body m'"
      "map_option reply_context (conn_heap s2 conn) = Some ctx" "map_option reply_id (conn_heap s2 conn) = Some 0"
      "reply_lookup s2 p = (reply_lookup s1 p)(wm_id m' := None)"
      "timeout_list s2 = remove_first_match (\<lambda>t. t_status t = p \<and> t_reply_id t = wm_id m') (timeout_list s1)"
    by blast
  have "reply_lookup s2 p = reply_lookup s p"
    using s2(7) g(5) m'(2) c(10) by (simp add: fun_upd_idem)
  moreover have "timeout_list s2 = timeout_list s"
    using s2(8) g(7) m'(2) c(11) by (simp add: remove_last_match make_timeout_def)
  ultimately show ?thesis using g(1,6) q1(1) s2(1-6) m'(3) len(1) by auto
qed

text \<open>
  C2. A request comes back to the one who asked: \<open>msg_get\<close> over an idle tcp connection writes a request
  under a fresh id; when exactly these bytes reach a program that answers requests, in one piece, its
  turn of the run loop returns and writes one reply; and when exactly these bytes come back, in any
  pieces and with any pauses, the reads on the first side succeed and queue one \<open>msg_reply\<close>, whose
  data are the bytes of the answer and whose connection carries the context given to \<open>msg_get\<close>. The
  reply contexts and the timeouts are then as they were before the request.
\<close>

theorem request_response:
  assumes "can_ask conn c p rid s" "sendable d b buf s" "0 < num_bytes d" "num_bytes d < 2 ^ 32"
    "sends_well os (socket c)"
    "s1 = the (msg_get os conn d ctx s)"
    "sent_on (socket c) (trace s1) = sent_on (socket c) (trace s) @ wire_bytes m"
    "one_waits sos sconn ssock i ms m q" "sends_well sos ssock"
    "q1 = the (msg_runloop sos (user_of sos answering) ms q)"
    "sent_on ssock (trace q1) = sent_on ssock (trace q) @ wire_bytes m'"
    "wire_waits os (socket c) (clock s1) m'"
  shows "\<exists>s2 rbuf. msg_get os conn d ctx s = Some s1 \<and>
    msg_runloop sos (user_of sos answering) ms q = Some q1 \<and>
    read_times os (socket c) conn (wm_reads m') s1 = Some s2 \<and>
    pending s2 = pending s @ [\<lparr>pc_conn = conn, pc_event = msg_reply,
      pc_data = \<lparr>num_bytes = num_bytes d, data_bytes = Some (next_id s1, 0)\<rparr>, to_free = None\<rparr>] \<and>
    buf_heap s2 (next_id s1) = Some rbuf \<and> b_body rbuf = take (num_bytes d) (b_body buf) \<and>
    map_option reply_context (conn_heap s2 conn) = Some ctx \<and> map_option reply_id (conn_heap s2 conn) = Some 0 \<and>
    reply_lookup s2 p = reply_lookup s p \<and> timeout_list s2 = timeout_list s"
  using assms by (rule exchange)

text \<open>The witness: the first request of a connection, with context 42 and three bytes.\<close>

definition ask_data :: msg_Data where
  "ask_data = \<lparr>num_bytes = 3, data_bytes = Some (3, 0)\<rparr>"

definition ask_wire :: "u16 \<Rightarrow> wire_msg" where
  "ask_wire t = \<lparr>wm_type = t, wm_id = 1, wm_pieces = [], wm_last = [104, 105, 0]\<rparr>"

definition asker_os :: os where
  "asker_os = sample_os\<lparr>os_recv := \<lambda>_ _ n _.
     if n = header_len then Ok (header_bytes (network_header msg_type_reply 1 3)) else Ok [104, 105, 0]\<rparr>"

definition server_os :: os where
  "server_os = sample_os\<lparr>os_poll := \<lambda>_ _ _. Ok (1, [POLLIN]), os_recv := \<lambda>t _ _ _.
     if t \<in> {2, 3} then Ok (header_bytes (network_header msg_type_request 1 3))
     else if t = 5 then Ok [104, 105, 0] else Err EWOULDBLOCK\<rparr>"

lemma exchange_sends_well: "sends_well asker_os sock" "sends_well server_os sock"
  by (auto simp: sends_well_def send_accepts_def send_progress_def send_stalls_def asker_os_def server_os_def)

lemma sample_server:
  obtains q where "one_waits server_os 1 3 0 10 (ask_wire msg_type_request) q"
proof -
  obtain r where r: "idle_peer 1 3 2 r" "conns_ok r" "conn_list r = [1]" "length (pollfd_list r) = 1"
    "timeout_list r = []" "array_list (removals r) = []" "clock r = 1" "pending r = []"
    by (rule sample_quiet)
  have "0 < length (conn_list r)" "conn_list r ! 0 = 1" unfolding r(3) by simp_all
  moreover have "one_readable server_os 0 10 r"
    unfolding one_readable_def r(4,7) by (simp add: server_os_def)
  moreover have "stream_waits server_os 3 (Suc (clock r)) [ask_wire msg_type_request]"
    by (simp add: r(7) ask_wire_def server_os_def header_waits_def wm_ok_def wm_body_def event_of_type_def msg_type_defs)
  moreover have "os_recv server_os (clock r + 5) 3 header_len True = Err EWOULDBLOCK"
    unfolding r(7) by (simp add: server_os_def)
  ultimately have "one_waits server_os 1 3 0 10 (ask_wire msg_type_request) r"
    using r(1,2,5,6,8) unfolding one_waits_def by (simp add: ask_wire_def) blast
  then show thesis by (rule that)
qed

lemma sample_asker:
  obtains s where "can_ask 1 sample_conn 2 1 s" "sendable ask_data 3 sample_buffer s" "pending s = []"
proof -
  obtain r where r: "idle_peer 1 3 2 r" "timeout_list r = []" "pending r = []" "conn_heap r = [1 \<mapsto> sample_conn]"
    "status_heap r = [2 \<mapsto> fresh_status sample_conn]" "\<forall>x. reply_lookup r 2 x = None"
    "map_lookup (conn_status r) (address_of_conn sample_conn) = Some 2" "buf_heap r 3 \<noteq> None"
    by (rule sample_quiet)
  let ?s = "r\<lparr>buf_heap := (buf_heap r)(3 := Some sample_buffer)\<rparr>"
  have "update_buffer 3 (\<lambda>_. sample_buffer) r = Some ?s" using r(8) by (auto simp: update_buffer_def)
  moreover have "lib_ok r" using r(1) by (auto simp: idle_peer_def tcp_peer_def)
  ultimately have "lib_ok ?s" by (rule update_buffer_keeps)
  then have "can_ask 1 sample_conn 2 1 ?s"
    using r(2,4-7) by (simp add: can_ask_def tcp_peer_def reply_lookup_def timeout_list_def
        fresh_status_def msg_no_data_def)
  then show thesis using r(3)
    by (intro that [of ?s]) (simp_all add: sendable_def ask_data_def sample_buffer_def pending_def)
qed

theorem request_response_witness:
  "\<exists>s s1 s2 rbuf. msg_get asker_os 1 ask_data 42 s = Some s1 \<and>
    read_times asker_os 3 1 1 s1 = Some s2 \<and> map_option reply_context (conn_heap s2 1) = Some 42 \<and>
    buf_heap s2 (next_id s1) = Some rbuf \<and> b_body rbuf = [104, 105, 0]"
proof -
  obtain s where s: "can_ask 1 sample_conn 2 1 s" "sendable ask_data 3 sample_buffer s" by (rule sample_asker)
  obtain q where q: "one_waits server_os 1 3 0 10 (ask_wire msg_type_request) q" by (rule sample_server)
  define s1 where "s1 = the (msg_get asker_os 1 ask_data 42 s)"
  define q1 where "q1 = the (msg_runloop server_os (user_of server_os answering) 10 q)"
  from s(1) obtain st where c: "lib_ok s" "conn_heap s 1 = Some sample_conn" "protocol_type sample_conn = msg_tcp"
    "\<not> for_listening sample_conn" "map_lookup (conn_status s) (address_of_conn sample_conn) = Some 2"
    "status_heap s 2 = Some st" "1 = next_reply_id st" "num_bytes (waiting_buffer st) = 0"
    by (auto simp: can_ask_def tcp_peer_def)
  have sent: "sent_on (socket sample_conn) (trace s1) =
      sent_on (socket sample_conn) (trace s) @ wire_bytes (ask_wire msg_type_request)"
    using msg_get_well [OF c s(2) exchange_sends_well(1), of 42]
    by (auto simp: s1_def wire_bytes_def ask_wire_def wm_body_def ask_data_def sample_buffer_def)
  have answer: "sent_on 3 (trace q1) = sent_on 3 (trace q) @ wire_bytes (ask_wire msg_type_reply)"
    using one_answered [OF q _ _ exchange_sends_well(2)]
    by (auto simp: q1_def wire_bytes_def ask_wire_def wm_body_def)
  have waits: "wire_waits asker_os (socket sample_conn) (clock s1) (ask_wire msg_type_reply)"
    by (simp add: wire_waits_def ask_wire_def wm_body_def asker_os_def header_waits_def header_len_def)
  have data: "0 < num_bytes ask_data" "num_bytes ask_data < 2 ^ 32" by (simp_all add: ask_data_def)
  from request_response [OF s data exchange_sends_well(1) s1_def sent q exchange_sends_well(2) q1_def answer waits]
  obtain s2 rbuf where "msg_get asker_os 1 ask_data 42 s = Some s1"
    "read_times asker_os 3 1 (wm_reads (ask_wire msg_type_reply)) s1 = Some s2"
    "map_option reply_context (conn_heap s2 1) = Some 42" "buf_heap s2 (next_id s1) = Some rbuf"
    "b_body rbuf = take (num_bytes ask_data) (b_body sample_buffer)" by auto
  then show ?thesis by (auto simp: ask_wire_def wm_reads_def ask_data_def sample_buffer_def)
qed

end
