(* ===== verification/Leaks.thy ===== *)
theory Leaks
  imports Samples
begin

text \<open>
  What \<open>open_socket\<close> leaves behind when it fails: the connection goes, the descriptor stays.
\<close>

fun closed_of :: "observed \<Rightarrow> int list" where
  "closed_of (Sys_close sock) = [sock]"
| "closed_of _ = []"

text \<open>The descriptors that were closed so far.\<close>

definition sockets_closed :: "mbox \<Rightarrow> int list" where
  "sockets_closed s = concat (map closed_of (trace s))"

named_theorems unclosed \<open>operations that close no socket\<close>

lemma sockets_closed_fields [simp]:
  "sockets_closed (s\<lparr>immediate_callbacks := x1\<rparr>) = sockets_closed s" "sockets_closed (s\<lparr>conns := x2\<rparr>) = sockets_closed s"
  "sockets_closed (s\<lparr>poll_fds := x3\<rparr>) = sockets_closed s" "sockets_closed (s\<lparr>conn_heap := x4\<rparr>) = sockets_closed s"
  "sockets_closed (s\<lparr>status_heap := x5\<rparr>) = sockets_closed s" "sockets_closed (s\<lparr>buf_heap := x6\<rparr>) = sockets_closed s"
  "sockets_closed (s\<lparr>conn_status := x7\<rparr>) = sockets_closed s" "sockets_closed (s\<lparr>next_id := x8\<rparr>) = sockets_closed s"
  "sockets_closed (s\<lparr>clock := x9\<rparr>) = sockets_closed s" "sockets_closed (s\<lparr>last_errno := y1\<rparr>) = sockets_closed s"
  by (simp_all add: sockets_closed_def)

lemma syscall_unclosed: "syscall ob answer s = (r, s') \<Longrightarrow> closed_of ob = [] \<Longrightarrow> sockets_closed s' = sockets_closed s"
  by (auto simp: syscall_def sockets_closed_def Let_def split: sysret.splits)

lemma opening_unclosed [unclosed]:
  "sys_socket os proto s = (r1, s') \<Longrightarrow> sockets_closed s' = sockets_closed s"
  "sys_setsockopt os sock s = (r2, s') \<Longrightarrow> sockets_closed s' = sockets_closed s"
  "sys_bind os sock sa s = (r3, s') \<Longrightarrow> sockets_closed s' = sockets_closed s"
  "sys_connect os sock sa s = (r4, s') \<Longrightarrow> sockets_closed s' = sockets_closed s"
  "sys_listen os sock s = (r5, s') \<Longrightarrow> sockets_closed s' = sockets_closed s"
  unfolding sys_socket_def sys_setsockopt_def sys_bind_def sys_connect_def sys_listen_def
  by (erule syscall_unclosed; simp)+

lemma make_non_blocking_unclosed [unclosed]:
  "make_non_blocking os sock s = (r, s') \<Longrightarrow> sockets_closed s' = sockets_closed s"
  by (auto simp: make_non_blocking_def split: prod.splits option.splits dest!: syscall_unclosed)

lemma error_unclosed [simp]: "sockets_closed (error_state os conn msg free s) = sockets_closed s"
  by (simp add: sockets_closed_def error_state_def)

lemma send_callback_unclosed [simp]: "sockets_closed (send_callback conn ev d free s) = sockets_closed s"
  by (simp add: sockets_closed_def)

lemma error_calls_unclosed [unclosed]:
  "send_callback_error os conn msg free s = Some s' \<Longrightarrow> sockets_closed s' = sockets_closed s"
  "send_callback_os_error os conn msg free s = Some s' \<Longrightarrow> sockets_closed s' = sockets_closed s"
  by (auto simp: send_callback_error_eq send_callback_os_error_eq)

lemma update_unclosed [unclosed]:
  "update_conn p f s = Some s' \<Longrightarrow> sockets_closed s' = sockets_closed s"
  "update_status q g s = Some s' \<Longrightarrow> sockets_closed s' = sockets_closed s"
  "update_buffer b h s = Some s' \<Longrightarrow> sockets_closed s' = sockets_closed s"
  by (auto simp: update_conn_def update_status_def update_buffer_def)

lemma new_unclosed [unclosed]:
  "new_connection ctx cb s = (p, s') \<Longrightarrow> sockets_closed s' = sockets_closed s"
  "new_conn_status t a s = (q, s') \<Longrightarrow> sockets_closed s' = sockets_closed s"
  "msg_new_data_space os n s = (d, s') \<Longrightarrow> sockets_closed s' = sockets_closed s"
  by (auto simp: new_connection_def new_conn_status_def msg_new_data_space_def Let_def sockets_closed_def)

lemma poll_fds_unclosed [unclosed]:
  "set_conn_to_poll_mode i m s = Some s' \<Longrightarrow> sockets_closed s' = sockets_closed s"
  "remove_last_polling_conn s = Some s' \<Longrightarrow> sockets_closed s' = sockets_closed s"
  by (auto simp: set_conn_to_poll_mode_def remove_last_polling_conn_def)

lemma add_to_poll_fds_unclosed [simp]: "sockets_closed (add_to_poll_fds sock m s) = sockets_closed s"
  by (simp add: add_to_poll_fds_def)

lemma delete_statuses_unclosed [unclosed]:
  "delete_conn_statuses ps s = Some s' \<Longrightarrow> sockets_closed s' = sockets_closed s"
  by (induction ps arbitrary: s) (auto simp: delete_conn_status_def dest!: unclosed)

lemma conn_status_set_unclosed [unclosed]:
  "conn_status_set a p s = Some s' \<Longrightarrow> sockets_closed s' = sockets_closed s"
  by (auto simp: conn_status_set_def Let_def dest!: unclosed)

lemma seen_unclosed [unclosed]:
  "remote_address_seen os conn s = Some (p, s') \<Longrightarrow> sockets_closed s' = sockets_closed s"
  by (auto simp: remote_address_seen_def run_iffs dest!: unclosed)

section \<open>Opening closes nothing\<close>

lemma setup_sockaddr_unclosed [unclosed]:
  "setup_sockaddr os address conn s = Some (r, s') \<Longrightarrow> sockets_closed s' = sockets_closed s"
  by (auto simp: setup_sockaddr_def run_iffs dest!: unclosed)

lemma open_failed_unclosed [unclosed]:
  "open_failed os conn fn s = Some s' \<Longrightarrow> sockets_closed s' = sockets_closed s"
  by (auto simp: open_failed_def dest!: unclosed)

lemma socket_opened_unclosed [unclosed]:
  "socket_opened os conn c listening s = Some s' \<Longrightarrow> sockets_closed s' = sockets_closed s"
  by (auto simp: socket_opened_def run_iffs split: if_splits dest!: unclosed)

lemma setsockopt_snd_unclosed [simp]: "sockets_closed (snd (sys_setsockopt os sock s)) = sockets_closed s"
  by (cases "sys_setsockopt os sock s") (auto dest: unclosed)

lemma open_sockaddr_unclosed [unclosed]:
  "open_sockaddr os conn c listening sa s = Some s' \<Longrightarrow> sockets_closed s' = sockets_closed s"
  by (cases listening; cases "protocol_type c = msg_tcp") (auto simp: open_sockaddr_def run_iffs dest!: unclosed)

lemma init_unclosed [simp]: "sockets_closed (init_if_needed s) = sockets_closed s"
  by (simp add: init_if_needed_def init_poll_fds_def Let_def sockets_closed_def)

lemma open_socket_unclosed:
  "open_socket os address ctx cb listening s = Some s' \<Longrightarrow> sockets_closed s' = sockets_closed s"
  by (auto simp: open_socket_def run_iffs dest!: unclosed)

section \<open>A port that is taken\<close>

lemma bind_fails:
  assumes "placed t p c s" "\<forall>k sock sa. \<exists>e. os_bind os k sock sa = Err e"
  shows "\<exists>s'. open_sockaddr os p c True sa s = Some s' \<and> open_failure t p s'"
proof -
  have failed: "\<exists>s'. open_failed os p fn s0 = Some s' \<and> open_failure t p s'" if "placed t p c s0" for fn s0
    using open_failed_facts [of s0 "conn_list t" p os p fn] that by (auto simp: placed_def open_failure_def)
  obtain f s1 where f: "make_non_blocking os (socket c) s = (f, s1)" by fastforce
  have s1: "placed t p c s1"
    using placed_io [OF assms(1) make_non_blocking_io, of os "socket c"] f by simp
  show ?thesis
  proof (cases f)
    case (Some fn)
    with f failed [OF s1, of fn] show ?thesis by (simp add: open_sockaddr_def)
  next
    case None
    define s2 where "s2 = (if protocol_type c = msg_tcp then snd (sys_setsockopt os (socket c) s1) else s1)"
    have s2: "placed t p c s2"
      using placed_io [OF s1 only_io_syscall, of "Sys_setsockopt (socket c)" "\<lambda>t. os_setsockopt os t (socket c)"] s1
      by (simp add: s2_def sys_setsockopt_def)
    obtain r s3 where r: "sys_bind os (socket c) sa s2 = (r, s3)" by fastforce
    obtain e where "os_bind os (clock s2) (socket c) sa = Err e" using assms(2) by blast
    then have "r = None" using r by (auto simp: sys_bind_def syscall_def)
    moreover have "only_io s2 s3" using r only_io_syscall [of s2] unfolding sys_bind_def by (metis snd_conv)
    then have "placed t p c s3" by (rule placed_io [OF s2])
    ultimately show ?thesis
      using f None r failed [of s3 "''bind''"] by (simp add: open_sockaddr_def s2_def [symmetric])
  qed
qed

lemma listen_fails:
  assumes "lib_ok (init_if_needed s)" "conns_ok (init_if_needed s)" "t = init_if_needed s" "p = next_id t"
    "\<forall>k sock sa. \<exists>e. os_bind os k sock sa = Err e"
  shows "\<exists>s'. msg_listen os address cb s = Some s' \<and> open_failure t p s' \<and> sockets_closed s' = sockets_closed s"
proof -
  have t: "lib_ok t" "conns_ok t" using assms(1-3) by simp_all
  have "\<exists>s'. msg_listen os address cb s = Some s' \<and> open_failure t p s'"
    using open_socket_parts [OF t assms(3,4), of os address msg_no_context cb True] bind_fails [OF _ assms(5)]
    by (fastforce simp: msg_listen_def)
  then show ?thesis using open_socket_unclosed by (fastforce simp: msg_listen_def)
qed



end
