(* ===== verification/Spec2Isabelle.thy ===== *)
theory Spec2Isabelle
  imports Samples Accepting Datagram Order CSort MapSpec Platform ForLoops Removals Queueing
    PollSelect WinUtil MemProfile Echo Exchange Leaks
begin

text \<open>
  A model of msgbox (messages over tcp and udp behind one callback interface) and of the containers
  that it is built on, with the theorems that say what the code promises, and some that say where it
  does not keep a promise. The sources are those under src/.

  \<^bold>\<open>The program.\<close> A user of msgbox calls \<open>msg_listen\<close>, \<open>msg_connect\<close>, \<open>msg_send\<close>, \<open>msg_get\<close>,
  \<open>msg_unlisten\<close> and \<open>msg_disconnect\<close>, and runs \<open>msg_runloop\<close> over and over. The library keeps the
  open connections in the array \<open>conns\<close>, index-matched with the array \<open>poll_fds\<close>; a status for each
  remote address, in the hash map \<open>conn_status\<close>; and in each status a hash map from the ids of
  requests to the contexts of the users that wait for a reply. Nothing calls the user at once: every
  event is queued in \<open>immediate_callbacks\<close>, and the run loop, after it has polled the sockets and looked
  through \<open>timeouts\<close>, makes the calls that it finds there. Connections that are closed are put on
  \<open>removals\<close> and leave the arrays later.

  \<^bold>\<open>Theories and sources.\<close>
  \<^item> \<open>Prelude\<close>: machine integers and their bytes in memory, the option monad, lists, the collections
    of rules (\<open>array_simps\<close>, \<open>array_invs\<close>, \<open>word_io\<close>, \<open>frame_simps\<close>, \<open>keeps\<close>).
  \<^item> \<open>CArray\<close>, \<open>CSort\<close>: cstructs/array.c and array.h. \<open>CList\<close>: cstructs/list.c, with nodes in a store
    and links to links. \<open>CMap\<close>: cstructs/map.c and the loop \<open>map__for\<close> of map.h. \<open>Sequences\<close> and
    \<open>MapSpec\<close> compare them with their abstract values, lists and partial functions. \<open>MemProfile\<close>:
    cstructs/memprofile.c and the macros of memprofile.h. \<open>ForLoops\<close>: the loops \<open>array__for\<close> and
    \<open>list__for\<close> of array.h and list.h.
  \<^item> \<open>MsgTypes\<close>: msgbox/msgbox.h and the wire header of msgbox.c. \<open>Address\<close>, \<open>AddressText\<close>: hashing,
    comparing, printing and parsing addresses (\<open>address_hash\<close> to \<open>parse_address_str\<close>).
  \<^item> \<open>MsgState\<close>: the static variables of msgbox.c, its heap, the operating system as a parameter, the
    message buffers, msgbox_now.h. \<open>Status\<close>: the status map, reply contexts and timeouts. \<open>Wire\<close>:
    \<open>set_header\<close>, \<open>send_all\<close>, \<open>send_data\<close>. \<open>Callbacks\<close>: \<open>send_callback\<close> to \<open>make_call\<close>. \<open>Conns\<close>: the
    polling functions of mac and linux, \<open>remove_conn_at\<close>, \<open>local_disconnect\<close>. \<open>Reading\<close>:
    \<open>read_header\<close>, \<open>continue_recv\<close>, \<open>read_from_socket\<close>. \<open>Opening\<close>: \<open>setup_sockaddr\<close>,
    \<open>open_socket\<close>, \<open>msg_listen\<close>, \<open>msg_connect\<close>. \<open>Runloop\<close>: the public functions on a connection and
    \<open>msg_runloop\<close>.
  \<^item> \<open>Invariant\<close>, \<open>Machine\<close>: the invariant \<open>lib_ok\<close>, and the library together with any user program as
    a step relation. \<open>Receive\<close>, \<open>Datagram\<close>, \<open>Accepting\<close>, \<open>Replies\<close>, \<open>Delivery\<close>, \<open>Messages\<close>,
    \<open>Turn\<close>, \<open>Answers\<close>, \<open>Exchange\<close>, \<open>Removals\<close>, \<open>Closing\<close>, \<open>Leaks\<close>, \<open>Order\<close>, \<open>Queueing\<close>: what the
    operations promise, by subject. \<open>Exchange\<close> puts two libraries together, one that asks and one that
    answers. \<open>Samples\<close>: the concrete environments and states of the examples.
  \<^item> \<open>PollSelect\<close>: the polling functions of the windows version of msgbox.c. \<open>WinUtil\<close>: its error texts
    and the string functions of msgbox/winutil.h. \<open>Platform\<close>: the two clocks of msgbox/msgbox_now.h,
    \<open>library_init_\<close> and \<open>print_bytes\<close>.
  \<^item> \<open>Echo\<close>: examples/echo_server.c and echo_client.c.

  \<^bold>\<open>How the code is read.\<close>
  \<^item> A struct is a record, an enumeration a datatype, an integer whose wrap-around matters a word. The
    sizes of arrays and messages are natural numbers: that an \<open>int\<close> count or a byte size overflows is
    not modelled. Times are whole microseconds instead of a double number of seconds.
  \<^item> Each function of C is a function on the state with a result in \<open>option\<close>. \<open>None\<close> is "no defined
    result": undefined behaviour (a freed or null pointer, memory outside of its block, an unset
    variable that decides something), or a call that does not return. A theorem with a result
    \<open>Some\<close> therefore says that the code is free of both on that path.
  \<^item> An error of a system call is a value (\<open>Err\<close>), and every early return of the code is a branch. The
    operating system, the network and the peers are the parameter \<open>os\<close>, a function of the number and
    the arguments of each call, so that a theorem about all \<open>os\<close> covers every behaviour. Where a theorem
    needs a documented property of a call (\<open>send_accepts\<close>, \<open>poll_answers\<close>, \<open>allocator_ok\<close>) it is a named
    hypothesis, with an instance in the witness. \<open>malloc\<close> is assumed to succeed, as the code does.
  \<^item> Loops are structural or have a measure, but for those that nothing in the code bounds: \<open>send_loop\<close>,
    \<open>read_loop\<close>, \<open>poll_conns_from\<close>, \<open>expire_timeouts\<close>, the walks along lists, \<open>strsep_all\<close>, \<open>stpcpy\<close>
    and \<open>run_until\<close> are partial functions, and that they return (or not) is proved where it is claimed.
    There is no fuel.
  \<^item> \<open>map__set\<close> compares pointers before it releases an old key; the model compares the keys. \<open>qsort\<close> is
    insertion sort, and \<open>CSort\<close> shows that for the comparison in question the result is unique. A
    bucket of the map is the sequence of its pairs.

  \<^bold>\<open>Interfaces.\<close> The locales \<open>sequence\<close> (arrays), \<open>dictionary\<close> and \<open>new_dictionary\<close> (maps) and
  \<open>poll_backend\<close> (the polling functions) state what their clients use. They are interpreted on the
  model: \<open>carray\<close>, \<open>cmap\<close>, \<open>conn_status_map\<close>, \<open>reply_map\<close>, \<open>poll\<close> and \<open>select\<close>.

  \<^bold>\<open>What is shown.\<close> For the containers: refinement of sequences and partial functions under any
  operations, bounds, iteration, sorting and searching, release of every item once. For the library: the
  invariant of every reachable state; delivery over tcp, of one message
  and of any number of them in order, under any cutting of the stream; a turn of the run loop from the
  network to the callbacks; datagrams; a request that goes to another program and comes back as one
  reply with its context; unknown replies and timeouts; the outcomes of opening, accepting, disconnecting and removing; the
  order of callbacks; when sending returns. Negative results name defects of the code: stale indices in
  \<open>removals\<close>, the address of a timeout's error, timeouts that outlive their connection, requests of one
  turn that are all answered with the last id, the socket that a failed \<open>msg_listen\<close> loses, the double
  close of \<open>msg_unlisten\<close>, message types without an event, reply ids and port numbers that wrap, sends that
  never return, sockets beyond the 64th on windows.

  \<^bold>\<open>Not modelled.\<close> The verbose branches, the lines that the examples print and \<open>net_allocs\<close>, which only
  print and count; dbgcheck.h, whose macros are malloc, free and no operation; \<open>basename\<close>,
  \<open>win_strerror\<close> and the windows \<open>get_errno\<close> and \<open>set_errno\<close>, calls of a runtime that is not in the
  repository; the rounding of times in floating-point numbers; \<open>avoid_sigpipe\<close> of the mac, one
  \<open>setsockopt\<close>; the tests.
\<close>

section \<open>The library as a whole\<close>

text \<open>
  C1. Whatever the network, the peers and the operating system do, and whatever calls the user makes
  between and inside the callbacks: in every state that the library reaches after its
  initialisation the arrays are well formed, \<open>conns\<close> and \<open>poll_fds\<close> have the same length, the status
  map is well formed with a live map of reply contexts in each status, and \<open>next_id\<close> is fresh.
\<close>

theorem library_invariant:
  assumes "reachable os prog s" "init_done s"
  shows "arrays_ok s \<and> status_ok s \<and> heap_ok s"
  using reachable_usable [OF assms(1)] assms(2) by (simp add: usable_def lib_ok_def)

theorem library_invariant_witness:
  "\<exists>s. open_done sample_start 1 True s \<and> arrays_ok s \<and> status_ok s \<and> heap_ok s"
proof -
  from open_socket_done [OF sample_start_ok sample_start_conns sample_start_def, of sample_os "''udp://*:80''" 0 7 True]
  obtain s where s: "open_socket sample_os ''udp://*:80'' 0 7 True initial_mbox = Some s"
    "open_done sample_start 1 True s" by auto
  have "run_action sample_os (Listen ''udp://*:80'' 7) initial_mbox = Some s"
    using s(1) by (simp add: msg_listen_def msg_no_context_def)
  then have "reachable sample_os sample_program s"
    using reachable.start by (blast intro: reachable.step lib_step.act)
  moreover have "init_done s" using s(2) by (simp add: open_done_def lib_ok_def)
  ultimately show ?thesis using library_invariant s(2) by blast
qed

text \<open>
  A one-way message that is sent over tcp without an error arrives: when the other side reads
  the bytes that were written, cut into any pieces and with any pauses, it announces exactly one
  message, whose bytes are those of the message that was sent.
\<close>

lemma tcp_delivery:
  assumes "sendable d b buf s" "conn_heap s conn = Some c" "protocol_type c = msg_tcp" "reply_id c = 0"
    "array_inv (immediate_callbacks s)" "msg_send os conn d s = Some s'" "pending s' = pending s"
    "0 < num_bytes d" "num_bytes d < 2 ^ 32"
    "sent_on (socket c) (trace s') = sent_on (socket c) (trace s) @ stream"
    "tcp_peer rconn rc p r" "status_heap r p = Some st" "num_bytes (waiting_buffer st) = 0"
    "header_waits ros (socket rc) (clock r) (header_of_bytes (take header_len stream))"
    "delivers ros (socket rc) (clock r + 3) (length (drop header_len stream)) (as @ [Ok bs])"
    "payload as @ bs = drop header_len stream"
  shows "\<exists>rb r1 r' rbuf. read_partial ros (socket rc) rconn (length as) r = Some r1 \<and> pending r1 = pending r \<and>
    read_from_socket ros (socket rc) rconn r1 = Some (True, r') \<and>
    pending r' = pending r @ [\<lparr>pc_conn = rconn, pc_event = msg_message,
      pc_data = \<lparr>num_bytes = num_bytes d, data_bytes = Some (rb, 0)\<rparr>, to_free = None\<rparr>] \<and>
    buf_heap r' rb = Some rbuf \<and> b_body rbuf = take (num_bytes d) (b_body buf)"
  using assms by (rule tcp_transfer)

lemma tcp_delivery_sample:
  "\<exists>r rb r1 r' rbuf. read_partial sample_receiver_os 3 1 2 r = Some r1 \<and> pending r1 = pending r \<and>
    read_from_socket sample_receiver_os 3 1 r1 = Some (True, r') \<and>
    pending r' = pending r @ [\<lparr>pc_conn = 1, pc_event = msg_message,
      pc_data = \<lparr>num_bytes = 3, data_bytes = Some (rb, 0)\<rparr>, to_free = None\<rparr>] \<and>
    buf_heap r' rb = Some rbuf \<and> b_body rbuf = [104, 105, 0]"
proof -
  obtain m where peer: "tcp_peer 1 sample_conn 2 (seen_state sample_os 1 sample_conn m sample_open)"
    by (rule sample_peer)
  let ?r = "seen_state sample_os 1 sample_conn m sample_open"
  obtain s' where s': "msg_send sample_os 1 sample_data sample_sender = Some s'"
    "pending s' = pending sample_sender" "sent_on 3 (trace s') = sent_on 3 (trace sample_sender) @ sample_stream"
    using sample_send by blast
  have snd: "sendable sample_data 5 sample_buffer sample_sender"
    unfolding sample_sender_def by (rule sample_sendable)
  have c: "conn_heap sample_sender 1 = Some sample_conn" by (simp add: sample_sender_def)
  have st: "status_heap ?r 2 = Some (fresh_status sample_conn)" "num_bytes (waiting_buffer (fresh_status sample_conn)) = 0"
    by (simp_all add: fresh_status_def msg_no_data_def)
  have imm: "array_inv (immediate_callbacks sample_sender)"
    using lib_okD(1) [OF sample_open_ok] by (simp add: sample_sender_def)
  have sent: "sent_on (socket sample_conn) (trace s') = sent_on (socket sample_conn) (trace sample_sender) @ sample_stream"
    using s'(3) by simp
  have waits: "header_waits sample_receiver_os (socket sample_conn) (clock ?r) (header_of_bytes (take header_len sample_stream))"
    using sample_receiver(1) by simp
  have dl: "delivers sample_receiver_os (socket sample_conn) (clock ?r + 3) (length (drop header_len sample_stream))
      ([Ok [104], Err EWOULDBLOCK] @ [Ok [105, 0]])"
    using sample_receiver(2,3) by (simp add: sample_stream_def header_len_def)
  have two: "length [Ok [104], Err EWOULDBLOCK :: bytes sysret] = 2" by simp
  have body: "take 3 (b_body sample_buffer) = [104, 105, 0]" by (simp add: sample_buffer_def)
  from tcp_delivery [OF snd c _ _ imm s'(1,2) _ _ sent peer st waits dl sample_receiver(3)]
  show ?thesis unfolding two body sample_data_simps sample_conn_simps by (intro exI [of _ ?r]) simp
qed

section \<open>Opening and accepting\<close>

text \<open>
  C7. \<open>open_socket\<close>, whatever the address string and however each system call turns out, returns
  with the arrays index-matched and in one of three outcomes: the arrays are as before and the only
  new callback is a \<open>msg_error\<close> that will free the connection; or the connection is the last one of
  the arrays and its \<open>msg_listening\<close> or \<open>msg_connection_ready\<close> is the only new callback; or, for a
  \<open>msg_connect\<close>, the connection is there with nothing queued, as it waits to become writable or its
  address is known already.
\<close>

theorem open_socket_outcome:
  assumes "lib_ok (init_if_needed s)" "conns_ok (init_if_needed s)" "t = init_if_needed s" "p = next_id t"
  shows "\<exists>s'. open_socket os address ctx cb listening s = Some s' \<and> lib_ok s' \<and> conns_ok s' \<and>
    (open_failure t p s' \<or> open_success t p listening s' \<or> \<not> listening \<and> open_silent t p s')"
  using open_socket_done [of t s os address ctx cb listening] assms by (auto simp: open_done_def)

theorem open_socket_outcome_witness:
  "\<exists>s'. msg_listen sample_os ''udp://*:80'' 7 initial_mbox = Some s' \<and> conns_ok s' \<and>
    (open_failure sample_start 1 s' \<or> open_success sample_start 1 True s')"
proof -
  have h: "lib_ok (init_if_needed initial_mbox)" "conns_ok (init_if_needed initial_mbox)" "1 = next_id sample_start"
    using sample_start_ok sample_start_conns by (simp_all add: sample_start_def [symmetric])
  from open_socket_outcome [OF h(1,2) sample_start_def h(3), of sample_os "''udp://*:80''" msg_no_context 7 True]
  show ?thesis by (auto simp: msg_listen_def)
qed

text \<open>
  C16. When a listening tcp connection accepts a socket that can be made non-blocking, the new
  connection goes to the end of the arrays, with the callback and context of the listening one, the
  peer's address in the byte orders that the code expects and its own index; its address has a
  status from then on, and exactly if it had none before, one \<open>msg_connection_ready\<close> is queued.
\<close>

theorem accept_new_connection:
  assumes "lib_ok s" "conns_ok s" "conn_heap s conn = Some c"
    "os_accept os (clock s) (socket c) = Ok (sock, sa)"
    "os_getfl os (Suc (clock s)) sock = Ok fl" "os_setfl os (Suc (Suc (clock s))) sock (fl OR O_NONBLOCK) = Ok ()"
    "n = accepted_conn c sock sa (a_count (conns s))"
  shows "\<exists>s'. accept_connection os conn s = Some s' \<and> lib_ok s' \<and> conns_ok s' \<and>
    conn_list s' = conn_list s @ [next_id s] \<and> conn_heap s' (next_id s) = Some n \<and>
    map_lookup (conn_status s') (address_of_conn n) \<noteq> None \<and>
    (if map_lookup (conn_status s) (address_of_conn n) = None
     then \<exists>d. pending s' = pending s @
       [\<lparr>pc_conn = next_id s, pc_event = msg_connection_ready, pc_data = d, to_free = None\<rparr>]
     else pending s' = pending s)"
  using accept_facts [OF assms(1-6) refl assms(7)] .

theorem accept_new_connection_witness:
  "\<exists>s'. accept_connection sample_os 1 sample_open = Some s' \<and> conns_ok s' \<and> conn_list s' = [1, 2]"
proof -
  have c: "conn_heap sample_open 1 = Some sample_conn" by simp
  have os: "os_accept sample_os (clock sample_open) (socket sample_conn) = Ok (4, \<lparr>sin_port = 0x5000, sin_addr = 0x0100007F\<rparr>)"
    "os_getfl sample_os (Suc (clock sample_open)) 4 = Ok 0"
    "os_setfl sample_os (Suc (Suc (clock sample_open))) 4 (0 OR O_NONBLOCK) = Ok ()"
    by (simp_all add: sample_os_def)
  from accept_new_connection [OF sample_open_ok sample_open_conns c os refl] show ?thesis by auto
qed

text \<open>
  C18. The first sight of a remote address gives it a status of its own with no reply contexts, reply
  ids from 1 on and the context of the connection, and queues one \<open>msg_connection_ready\<close> whose
  preamble carries that address.
\<close>

theorem new_address_seen:
  assumes "lib_ok s" "conn_heap s conn = Some c" "map_lookup (conn_status s) (address_of_conn c) = None"
  shows "\<exists>s' p d b buf. remote_address_seen os conn s = Some (p, s') \<and> lib_ok s' \<and>
    map_lookup (conn_status s') = (map_lookup (conn_status s))(address_of_conn c \<mapsto> p) \<and>
    status_heap s' = (status_heap s)(p \<mapsto> fresh_status c) \<and>
    pending s' = pending s @ [\<lparr>pc_conn = conn, pc_event = msg_connection_ready, pc_data = d, to_free = None\<rparr>] \<and>
    data_bytes d = Some (b, 0) \<and> buf_heap s' b = Some buf \<and> md_remote_address (b_meta buf) = address_of_conn c"
proof -
  from remote_address_new [OF assms] obtain m where
    m: "remote_address_seen os conn s = Some (next_id s, seen_state os conn c m s)"
    "map_lookup m = (map_lookup (conn_status s))(address_of_conn c \<mapsto> next_id s)"
    "lib_ok (seen_state os conn c m s)" by blast
  show ?thesis
    using m seen_state_pending [OF lib_okD(1) [OF assms(1)], of os conn c m]
    by (intro exI [of _ "seen_state os conn c m s"] exI [of _ "next_id s"]
        exI [of _ "\<lparr>num_bytes = 0, data_bytes = Some (Suc (next_id s), 0)\<rparr>"] exI [of _ "Suc (next_id s)"]
        exI [of _ "\<lparr>b_meta = (os_malloc_meta os (clock s))\<lparr>md_remote_address := address_of_conn c\<rparr>, b_body = []\<rparr>"])
      (simp add: seen_state_buf_heap)
qed

theorem new_address_seen_witness:
  "\<exists>s' p. remote_address_seen sample_os 1 sample_open = Some (p, s') \<and>
    status_heap s' p = Some (fresh_status sample_conn)"
proof -
  have "conn_heap sample_open 1 = Some sample_conn"
    "map_lookup (conn_status sample_open) (address_of_conn sample_conn) = None"
    by (simp_all add: conn_status_map.new_lookup)
  from new_address_seen [OF sample_open_ok this, of sample_os] show ?thesis by fastforce
qed

section \<open>Sending\<close>

text \<open>
  C20. What \<open>msg_send\<close> writes to a tcp socket is a prefix of the packet (the header in network byte
  order, then the message) and nothing else; either it is the whole packet and no callback is
  queued, or it is cut short and exactly one \<open>msg_error\<close> is queued. A connection that answers a
  request sends a reply, any other a one-way message.
\<close>

theorem msg_send_writes:
  assumes "sendable d b buf s" "conn_heap s conn = Some c" "protocol_type c = msg_tcp"
    "array_inv (immediate_callbacks s)" "msg_send os conn d s = Some s'"
    "out = wire_packet (if reply_id c \<noteq> 0 then msg_type_reply else msg_type_one_way) (reply_id c) d buf"
  shows "\<exists>n \<le> length out. sent_on (socket c) (trace s') = sent_on (socket c) (trace s) @ take n out \<and>
    (if n = length out then pending s' = pending s
     else \<exists>data. pending s' = pending s @
       [\<lparr>pc_conn = conn, pc_event = msg_error, pc_data = data, to_free = None\<rparr>])"
  using msg_send_tcp [OF assms(1-5)] assms(6) by (simp add: send_type_def)

theorem msg_send_writes_witness:
  "\<exists>s' n. msg_send sample_os 1 sample_data sample_sender = Some s' \<and>
    sent_on 3 (trace s') = sent_on 3 (trace sample_sender) @ take n sample_stream"
proof -
  obtain s' where s': "msg_send sample_os 1 sample_data sample_sender = Some s'" using sample_send by blast
  have h: "sendable sample_data 5 sample_buffer sample_sender" "conn_heap sample_sender 1 = Some sample_conn"
    "array_inv (immediate_callbacks sample_sender)"
    "sample_stream = wire_packet (if reply_id sample_conn \<noteq> 0 then msg_type_reply else msg_type_one_way)
       (reply_id sample_conn) sample_data sample_buffer"
    using sample_sendable lib_okD(1) [OF sample_open_ok] by (simp_all add: sample_sender_def sample_packet)
  from msg_send_writes [OF h(1,2) _ h(3) s' h(4)] s' show ?thesis by auto
qed

text \<open>
  C21. \<open>msg_send\<close> returns, although \<open>send_all\<close> spins while the socket is full, whenever the socket
  never takes more than it is given and does not refuse bytes forever.
\<close>

theorem msg_send_terminates:
  assumes "sendable d b buf s" "conn_heap s conn = Some c" "send_accepts os (socket c)" "send_progress os (socket c)"
  shows "\<exists>s'. msg_send os conn d s = Some s'"
  using assms by (rule msg_send_returns)

theorem msg_send_terminates_witness:
  "\<exists>s'. msg_send sample_os 1 sample_data sample_sender = Some s'"
proof -
  have "sendable sample_data 5 sample_buffer sample_sender" "conn_heap sample_sender 1 = Some sample_conn"
    using sample_sendable by (simp_all add: sample_sender_def)
  from msg_send_terminates [OF this sample_sends] show ?thesis .
qed

text \<open>
  C22. Without that progress it does not: on a tcp socket that always answers "would block",
  \<open>msg_send\<close> never returns, and with it the run loop that called the user's code.
\<close>

theorem msg_send_stuck:
  assumes "sendable d b buf s" "conn_heap s conn = Some c" "protocol_type c = msg_tcp"
    "\<forall>t bs. os_send os t (socket c) bs = Err EWOULDBLOCK"
  shows "msg_send os conn d s = None"
  using assms by (rule msg_send_blocked)

theorem msg_send_stuck_witness:
  "msg_send (sample_os\<lparr>os_send := \<lambda>_ _ _. Err EWOULDBLOCK\<rparr>) 1 sample_data sample_sender = None"
proof -
  have "sendable sample_data 5 sample_buffer sample_sender" "conn_heap sample_sender 1 = Some sample_conn"
    using sample_sendable by (simp_all add: sample_sender_def)
  from msg_send_stuck [OF this] show ?thesis by simp
qed

section \<open>Requests, replies and timeouts\<close>

text \<open>
  C23. A reply whose id is not registered is an error, not a crash: the message is dropped, exactly
  one \<open>msg_error\<close> is queued, and its callback frees the buffer of the message.
\<close>

theorem unknown_reply:
  assumes "lib_ok s" "message_type h = msg_type_reply" "live_status s p" "reply_lookup s p (hdr_reply_id h) = None"
    "buffer_of d = Some b"
  shows "\<exists>s' data. match_reply os conn h p d udp s = Some (False, s') \<and>
    pending s' = pending s @ [\<lparr>pc_conn = conn, pc_event = msg_error, pc_data = data, to_free = Some (BufPtr b)\<rparr>] \<and>
    timeout_list s' = timeout_list s \<and> conn_heap s' = conn_heap s \<and> status_heap s' = status_heap s"
  using match_reply_unknown [OF assms(2-5), of os conn udp]
    error_state_pending(1) [OF lib_okD(1) [OF assms(1)], of os conn "''Unrecognized reply_id''" "Some (BufPtr b)"]
  by (simp add: timeout_list_def)

theorem unknown_reply_witness:
  "\<exists>s s' pc. match_reply sample_os 1 \<lparr>message_type = msg_type_reply, hdr_reply_id = 7, hdr_num_bytes = 0\<rparr> 2 empty_data False s
    = Some (False, s') \<and> pending s' = pending s @ [pc] \<and> pc_event pc = msg_error"
proof -
  obtain s buf where s: "lib_ok s" "status_heap s = [2 \<mapsto> fresh_status sample_conn]" "\<And>r. reply_lookup s 2 r = None"
    using sample_known by metis
  have "live_status s 2" using s(2) reply_map.new_inv by (simp add: live_status_def fresh_status_def)
  moreover have "buffer_of empty_data = Some 3" by (simp add: empty_data_def buffer_of_def)
  ultimately show ?thesis
    using unknown_reply [OF s(1) _ _ s(3), of "\<lparr>message_type = msg_type_reply, hdr_reply_id = 7, hdr_num_bytes = 0\<rparr>"]
    by fastforce
qed



text \<open>
  C25. The error of a timeout carries the wrong peer: the code reads \<open>timeout->status\<close> after it has
  removed the timeout from the array, so when another request waits behind it, the preamble of the
  error message holds the remote address of that other request.
\<close>

theorem timeout_address:
  assumes "timeouts_ok s" "timeout_list s = t # t' # ts"
  shows "\<exists>s' d b buf st. expire_first os s = Some s' \<and>
    pending s' = pending s @ [\<lparr>pc_conn = t_conn t, pc_event = msg_error, pc_data = d, to_free = None\<rparr>] \<and>
    data_bytes d = Some (b, 0) \<and> buf_heap s' b = Some buf \<and>
    status_heap s' (t_status t') = Some st \<and> md_remote_address (b_meta buf) = st_remote_address st"
proof -
  have "awaits s t" using assms by (simp add: timeouts_ok_def)
  then obtain v c where "reply_lookup s (t_status t) (t_reply_id t) = Some v" "conn_heap s (t_conn t) = Some c"
    unfolding awaits_def by blast
  from expire_first_facts [OF assms(1,2) this, of os] show ?thesis by fastforce
qed

theorem timeout_address_witness:
  "\<exists>rm s' d st. expire_first sample_os (sample_waiting rm) = Some s' \<and>
    pending s' = pending (sample_waiting rm) @ [\<lparr>pc_conn = 1, pc_event = msg_error, pc_data = d, to_free = None\<rparr>] \<and>
    status_heap s' 3 = Some st"
proof -
  obtain rm where rm: "map_inv reply_keys rm" "map_lookup rm (reply_id_key 1) = Some (9 :: vptr)"
    by (rule sample_contexts)
  from timeout_address [OF sample_waiting_ok [OF rm], of "make_timeout 10 1 2 1" "make_timeout 20 1 3 1" "[]" sample_os]
  show ?thesis by (fastforce simp: make_timeout_def)
qed



section \<open>Callbacks\<close>


text \<open>A run of the loop with one callback pending and no connection to poll.\<close>

definition sample_queued :: mbox where
  "sample_queued = send_callback 1 msg_error msg_no_data None sample_pre"

lemma sample_queued_facts:
  "lib_ok sample_queued" "pending sample_queued = [\<lparr>pc_conn = 1, pc_event = msg_error, pc_data = msg_no_data, to_free = None\<rparr>]"
  "called sample_queued = []"
proof -
  show "lib_ok sample_queued"
    unfolding sample_queued_def using send_callback_keeps [OF sample_pre_ok] .
  show "pending sample_queued = [\<lparr>pc_conn = 1, pc_event = msg_error, pc_data = msg_no_data, to_free = None\<rparr>]"
    using send_callback_pending(1) [of sample_pre 1 msg_error msg_no_data None] lib_okD(1) [OF sample_pre_ok]
      sample_pre_views(2) by (simp add: sample_queued_def)
  show "called sample_queued = []" by (simp add: sample_queued_def called_def sample_pre_def)
qed

lemma sample_queued_run:
  "\<exists>s'. msg_runloop sample_os (user_of sample_os sample_program) 10 sample_queued = Some s'"
proof -
  let ?u = "user_of sample_os sample_program" and ?q = "sample_queued"
  have f: "init_done ?q" "removals ?q = array__new 8" "a_count (conns ?q) = 0" "timeouts ?q = array__new 8"
    "conn_heap ?q = [1 \<mapsto> sample_conn]"
    by (simp_all add: sample_queued_def sample_pre_def sample_start_def init_if_needed_def initial_mbox_def
        init_poll_fds_def array__new_def array__init_def)
  have empty: "a_count (array__new 8) = 0" by (simp add: array__new_def array__init_def)
  have init: "init_if_needed ?q = ?q" using f(1) by (simp add: init_if_needed_def)
  have rem: "process_removals ?q = Some (?q\<lparr>removals := array__clear (array__new 8)\<rparr>)"
    unfolding process_removals_def f(2) by (subst remove_conns_from.simps) (simp add: empty f(2))
  let ?t = "?q\<lparr>removals := array__clear (array__new 8), clock := clock ?q + 1, trace := trace ?q @ [Sys_time]\<rparr>"
  have exp: "expire_timeouts sample_os time_now ?t = Some ?t" for time_now
    by (subst expire_timeouts.simps) (simp add: f(4) empty)
  have pend: "pending ?t = pending ?q" "array_inv (immediate_callbacks ?t)"
    using lib_okD(1) [OF sample_queued_facts(1)] by (simp_all add: pending_def)
  have "msg_runloop sample_os ?u 10 ?q = run_pending ?u ?t"
    using rem exp by (simp add: msg_runloop_def init poll_pass_def f(3) now_def Let_def)
  also have "\<dots> = run_calls ?u (pending ?t) (?t\<lparr>immediate_callbacks := array__new 16\<rparr>)"
    by (rule run_pending_eq [OF pend(2)])
  also have "\<exists>s'. \<dots> = Some s'"
    unfolding pend(1) sample_queued_facts(2)
    by (simp add: make_call_def restore_udp_def save_udp_def f(5) user_of_def sample_program_def msg_no_data_def)
  finally show ?thesis .
qed


section \<open>Datagrams\<close>


definition sample_udp_os :: os where
  "sample_udp_os = sample_os\<lparr>os_recv := \<lambda>_ _ _ _. Ok (take 8 sample_stream),
     os_recvfrom := \<lambda>_ _ _. Ok (sample_stream, \<lparr>sin_port = 0x5000, sin_addr = 0x0100007F\<rparr>)\<rparr>"


text \<open>
  C24. A tcp message of a type that the \<open>switch\<close> has no \<open>event\<close> for (heartbeats, and every type that
  the protocol does not define) has no defined outcome: the code goes on to queue a callback with an
  uninitialised event.
\<close>

theorem unexpected_message:
  assumes "conn_heap s conn = Some c" "protocol_type c = msg_tcp"
    "message_type h = msg_type_heartbeat \<or> message_type h > msg_type_close"
  shows "dispatch os sock conn h (Some (p, d)) s = None"
  using dispatch_unexpected [OF assms(1,2)] assms(3) by (auto simp: unexpected_type_def)

theorem unexpected_message_witness:
  "dispatch sample_os 3 1 \<lparr>message_type = 3, hdr_reply_id = 0, hdr_num_bytes = 0\<rparr> (Some (2, sample_data)) sample_open = None"
proof -
  have "conn_heap sample_open 1 = Some sample_conn" by simp
  from unexpected_message [OF this, of "\<lparr>message_type = 3, hdr_reply_id = 0, hdr_num_bytes = 0\<rparr>"]
  show ?thesis by (simp add: msg_type_heartbeat_def)
qed

end
